(* ===== verification/Prelude.thy ===== *)
theory Prelude
  imports Main "HOL-Library.Word"
begin

unbundle bit_operations_syntax

text \<open>
  What every component shares: the widths of the C types, the outcome of running kernel code,
  and generic facts on words and lists.

  A kernel function runs on a state and either returns a value and the new state (\<open>Done\<close>),
  calls \<^verbatim>\<open>panic\<close> (\<open>Panic\<close>, with the message), touches an address the MMU does not map
  while in kernel mode (\<open>Fault\<close>, with the address), switches to the scheduler in the middle of its
  work (\<open>Swtch\<close>: the process sleeps or exits, and the rest of the call runs only when the process
  is scheduled again), or uses up the bound given to a loop that the C code leaves unbounded
  (\<open>Diverge\<close>). \<open>bind\<close> runs one call after another and passes on every outcome but \<open>Done\<close>.
\<close>

section \<open>The C types\<close>

type_synonym u8 = "8 word"
type_synonym u16 = "16 word"
type_synonym u32 = "32 word"
type_synonym bytes = "8 word list"

named_theorems addr_simps "unsigned values of the address macros"
named_theorems inv_intros "operations that keep the invariant of their component"

section \<open>Outcomes\<close>

datatype ('s, 'a) outcome =
    Done 'a 's
  | Panic string
  | Fault u32
  | Swtch 's
  | Diverge

fun bind :: "('s, 'a) outcome \<Rightarrow> ('a \<Rightarrow> 's \<Rightarrow> ('s, 'b) outcome) \<Rightarrow> ('s, 'b) outcome" where
  "bind (Done a s) f = f a s"
| "bind (Panic e) f = Panic e"
| "bind (Fault a) f = Fault a"
| "bind (Swtch s) f = Swtch s"
| "bind Diverge f = Diverge"

lemma bind_cong [fundef_cong]:
  assumes "m = m'" and "\<And>a s. m' = Done a s \<Longrightarrow> f a s = g a s"
  shows "bind m f = bind m' g"
  using assms by (cases m') auto

lemma bind_Done_iff: "bind m f = Done b t \<longleftrightarrow> (\<exists>a s. m = Done a s \<and> f a s = Done b t)"
  by (cases m) auto

lemma bind_DoneE:
  assumes "bind m f = Done b t"
  obtains a s where "m = Done a s" and "f a s = Done b t"
  using assms by (auto simp: bind_Done_iff)

lemma bind_Swtch_iff: "bind m f = Swtch t \<longleftrightarrow> m = Swtch t \<or> (\<exists>a s. m = Done a s \<and> f a s = Swtch t)"
  by (cases m) auto

lemma bind_assoc: "bind (bind m f) g = bind m (\<lambda>a s. bind (f a s) g)"
  by (cases m) auto

lemma bind_if: "bind (if c then m else m') f = (if c then bind m f else bind m' f)"
  by simp

text \<open>Running an operation several times and collecting its results.\<close>

primrec many :: "('s \<Rightarrow> ('s, 'a) outcome) \<Rightarrow> nat \<Rightarrow> 's \<Rightarrow> ('s, 'a list) outcome" where
  "many f 0 s = Done [] s"
| "many f (Suc n) s = bind (f s) (\<lambda>a s. bind (many f n s) (\<lambda>as s. Done (a # as) s))"

section \<open>Words read as numbers\<close>

lemma unat_u32_less: "unat (x :: u32) < 4294967296"
  using unsigned_less [of x] by simp

lemma unat_add_small:
  "unat (a :: u32) + unat b < 4294967296 \<Longrightarrow> unat (a + b) = unat a + unat b"
  by (simp add: unat_word_ariths)

lemma unat_of_nat_u32: "n < 4294967296 \<Longrightarrow> unat (of_nat n :: u32) = n"
  by (simp add: unsigned_of_nat take_bit_nat_eq_self)

lemma unat_minus_le: "b \<le> a \<Longrightarrow> unat (a - b :: u32) = unat a - unat b"
  by (rule unat_sub)

lemma u32_add_of_nat_eq_iff:
  "i < 4294967296 \<Longrightarrow> j < 4294967296 \<Longrightarrow> (a + of_nat i = a + (of_nat j :: u32)) \<longleftrightarrow> i = j"
  by (metis add_left_cancel unat_of_nat_u32)

lemma multiple_less:
  fixes a b n :: nat
  assumes "a mod n = 0" and "b mod n = 0" and "a < b"
  shows "a + n \<le> b"
proof -
  obtain i j where ij: "a = n * i" "b = n * j" using assms(1,2) by (auto simp: mod_eq_0_iff_dvd dvd_def)
  then have "i < j" using assms(3) by auto
  then have "n * (i + 1) \<le> n * j" by (intro mult_le_mono2) simp
  then show ?thesis using ij by simp
qed

section \<open>Arrays\<close>

lemma nth_list_update_if: "i < length xs \<Longrightarrow> xs[j := x] ! i = (if i = j then x else xs ! i)"
  by (simp add: nth_list_update)

end
