(* ===== verification/Locks.thy ===== *)
theory Locks
  imports Prelude
begin

text \<open>
  The kernel's spin locks as the other components use them. Code that runs on one CPU sees the
  locks this CPU holds: \<open>lock\<close> takes a lock that is not held, \<open>unlock\<close> gives back one that is
  held, and both panic otherwise, with the messages of \<^verbatim>\<open>acquire\<close> and \<^verbatim>\<open>release\<close>. What the
  other CPUs do between the two is not seen, which is what the lock is for. The theory
  \<open>Spinlock\<close> models \<^verbatim>\<open>spinlock.c\<close> itself, on a machine with several CPUs, and shows that
  its functions implement these two.

  The kernel's global variables are one record that grows from component to component: each
  component's record extends the one of the components it calls, and its functions work on any
  extension of it. \<open>clog\<close> collects the messages the kernel prints with \<^verbatim>\<open>cprintf\<close>.
\<close>

datatype lockid =
    KMEM | PTABLE | TICKSLOCK | BCACHE | LOGLOCK | ICACHE | FTABLE | CONSLOCK | IDELOCK
  | PIPELOCK u32 | BUFLK nat | INODELK nat

record kbase =
  held :: "lockid list"
  clog :: "string list"

definition klog :: "string \<Rightarrow> 'z kbase_scheme \<Rightarrow> 'z kbase_scheme" where
  "klog msg s = s\<lparr>clog := clog s @ [msg]\<rparr>"

definition lock :: "lockid \<Rightarrow> 'z kbase_scheme \<Rightarrow> ('z kbase_scheme, unit) outcome" where
  "lock L s = (if L \<in> set (held s) then Panic ''acquire'' else Done () (s\<lparr>held := L # held s\<rparr>))"

definition unlock :: "lockid \<Rightarrow> 'z kbase_scheme \<Rightarrow> ('z kbase_scheme, unit) outcome" where
  "unlock L s = (if L \<in> set (held s) then Done () (s\<lparr>held := remove1 L (held s)\<rparr>)
     else Panic ''release'')"

definition holds :: "lockid \<Rightarrow> 'z kbase_scheme \<Rightarrow> bool" where
  "holds L s \<longleftrightarrow> L \<in> set (held s)"

lemma lock_free: "L \<notin> set (held s) \<Longrightarrow> lock L s = Done () (s\<lparr>held := L # held s\<rparr>)"
  by (simp add: lock_def)

lemma lock_held: "L \<in> set (held s) \<Longrightarrow> lock L s = Panic ''acquire''"
  by (simp add: lock_def)

lemma unlock_last: "held s = L # hs \<Longrightarrow> unlock L s = Done () (s\<lparr>held := hs\<rparr>)"
  by (simp add: unlock_def)

lemma unlock_free: "L \<notin> set (held s) \<Longrightarrow> unlock L s = Panic ''release''"
  by (simp add: unlock_def)

lemma lock_Done_iff: "lock L s = Done u t \<longleftrightarrow> L \<notin> set (held s) \<and> t = s\<lparr>held := L # held s\<rparr>"
  by (auto simp: lock_def)

lemma unlock_Done_iff: "unlock L s = Done u t \<longleftrightarrow> L \<in> set (held s) \<and> t = s\<lparr>held := remove1 L (held s)\<rparr>"
  by (auto simp: unlock_def)

lemmas lock_simps = lock_free unlock_last

section \<open>The contract of a spin lock\<close>

text \<open>
  What the users of a lock rely on: taking a lock that is not owned adds it to the locks the CPU
  owns, taking one twice panics, giving back an owned lock removes it and gives back no other.
\<close>

locale spin_contract =
  fixes acq rel :: "lockid \<Rightarrow> 's \<Rightarrow> ('s, unit) outcome"
    and owned :: "'s \<Rightarrow> lockid set"
    and inv :: "'s \<Rightarrow> bool"
  assumes acq_done: "inv s \<Longrightarrow> acq L s = Done u t \<Longrightarrow> L \<notin> owned s \<and> owned t = insert L (owned s) \<and> inv t"
    and acq_twice: "inv s \<Longrightarrow> L \<in> owned s \<Longrightarrow> acq L s = Panic ''acquire''"
    and rel_done: "inv s \<Longrightarrow> L \<in> owned s \<Longrightarrow> \<exists>t. rel L s = Done () t \<and> owned t = owned s - {L} \<and> inv t"
    and rel_free: "inv s \<Longrightarrow> L \<notin> owned s \<Longrightarrow> rel L s = Panic ''release''"
begin

text \<open>A critical section that owns at its end what it owned at its start gives the lock back.\<close>

lemma critical_section:
  assumes "inv s" and "acq L s = Done u t" and "inv t'" and "owned t' = owned t"
  shows "\<exists>r. rel L t' = Done () r \<and> owned r = owned s \<and> inv r"
proof -
  from acq_done [OF assms(1,2)] have "L \<notin> owned s" "owned t = insert L (owned s)" by auto
  then have "L \<in> owned t'" "owned t' - {L} = owned s" using assms(4) by auto
  then show ?thesis using rel_done [OF assms(3)] by metis
qed

lemma no_double_release:
  assumes "inv s" and "rel L s = Done u t"
  shows "rel L t = Panic ''release''"
proof -
  have "L \<in> owned s" using assms rel_free by (metis outcome.distinct(1))
  then obtain r where "rel L s = Done () r" "owned r = owned s - {L}" "inv r"
    using rel_done [OF assms(1)] by blast
  then show ?thesis using assms(2) rel_free by simp
qed

end

interpretation seqlock: spin_contract lock unlock "\<lambda>s. set (held s)" "\<lambda>s. distinct (held s)"
  by unfold_locales (auto simp: lock_def unlock_def split: if_splits)

end
