(* ===== verification/Spinlock.thy ===== *)
theory Spinlock
  imports Locks
begin

text \<open>
  \<^verbatim>\<open>spinlock.c\<close> and \<^verbatim>\<open>mycpu\<close> of \<^verbatim>\<open>proc.c\<close>, on a machine with several CPUs. The CPU
  that runs a function is named by its local APIC id, which is what \<^verbatim>\<open>lapicid()\<close> reads.
  A spinning \<^verbatim>\<open>acquire\<close> is \<open>Diverge\<close>: it returns only in a state where the lock is free, and
  the exchanges before that write the value the lock has already.
  The name and the call stack of a lock are debugging data and not in the model.

  The invariant \<open>spin_inv\<close> says that a lock is taken exactly when a CPU is recorded as its
  holder, that the nesting depth of a CPU is the number of locks it holds, and that a CPU with a
  positive depth has its interrupts off. \<open>acquire_refines\<close> and \<open>release_refines\<close> say that
  the functions do to the set of locks a CPU holds what \<open>lock\<close> and \<open>unlock\<close> do.
\<close>

definition FL_IF :: u32 where
  "FL_IF = 0x200"

record spinlock =
  locked :: u32
  lcpu :: "nat option"

record cpu =
  apicid :: u8
  ncli :: int
  intena :: u32

record machine =
  cpus :: "cpu list"
  eflags :: "u8 \<Rightarrow> u32"
  locks :: "lockid \<Rightarrow> spinlock"

definition initlock :: "lockid \<Rightarrow> machine \<Rightarrow> machine" where
  "initlock L s = s\<lparr>locks := (locks s)(L := \<lparr>locked = 0, lcpu = None\<rparr>)\<rparr>"

definition cli :: "u8 \<Rightarrow> machine \<Rightarrow> machine" where
  "cli me s = s\<lparr>eflags := (eflags s)(me := eflags s me AND NOT FL_IF)\<rparr>"

definition sti :: "u8 \<Rightarrow> machine \<Rightarrow> machine" where
  "sti me s = s\<lparr>eflags := (eflags s)(me := eflags s me OR FL_IF)\<rparr>"

fun find_cpu :: "u8 \<Rightarrow> nat \<Rightarrow> cpu list \<Rightarrow> nat option" where
  "find_cpu a i [] = None"
| "find_cpu a i (c # cs) = (if apicid c = a then Some i else find_cpu a (Suc i) cs)"

definition mycpu :: "u8 \<Rightarrow> machine \<Rightarrow> (machine, nat) outcome" where
  "mycpu me s =
     (if eflags s me AND FL_IF \<noteq> 0 then Panic ''mycpu called with interrupts enabled''
      else case find_cpu me 0 (cpus s) of Some i \<Rightarrow> Done i s | None \<Rightarrow> Panic ''unknown apicid'')"

definition set_cpu :: "nat \<Rightarrow> (cpu \<Rightarrow> cpu) \<Rightarrow> machine \<Rightarrow> machine" where
  "set_cpu c f s = s\<lparr>cpus := (cpus s)[c := f (cpus s ! c)]\<rparr>"

definition pushcli :: "u8 \<Rightarrow> machine \<Rightarrow> (machine, unit) outcome" where
  "pushcli me s =
     (let e = eflags s me; s = cli me s in
      bind (mycpu me s) (\<lambda>c s.
      let s = (if ncli (cpus s ! c) = 0 then set_cpu c (\<lambda>k. k\<lparr>intena := e AND FL_IF\<rparr>) s else s);
          s = set_cpu c (\<lambda>k. k\<lparr>ncli := ncli k + 1\<rparr>) s
      in Done () s))"

definition popcli :: "u8 \<Rightarrow> machine \<Rightarrow> (machine, unit) outcome" where
  "popcli me s =
     (if eflags s me AND FL_IF \<noteq> 0 then Panic ''popcli - interruptible''
      else bind (mycpu me s) (\<lambda>c s.
      let s = set_cpu c (\<lambda>k. k\<lparr>ncli := ncli k - 1\<rparr>) s in
      if ncli (cpus s ! c) < 0 then Panic ''popcli''
      else if ncli (cpus s ! c) = 0 \<and> intena (cpus s ! c) \<noteq> 0 then Done () (sti me s)
      else Done () s))"

definition holding :: "lockid \<Rightarrow> u8 \<Rightarrow> machine \<Rightarrow> (machine, bool) outcome" where
  "holding L me s =
     bind (pushcli me s) (\<lambda>_ s.
     bind (if locked (locks s L) = 0 then Done False s
           else bind (mycpu me s) (\<lambda>c s. Done (lcpu (locks s L) = Some c) s)) (\<lambda>r s.
     bind (popcli me s) (\<lambda>_ s. Done r s)))"

definition xchg_locked :: "lockid \<Rightarrow> u32 \<Rightarrow> machine \<Rightarrow> u32 \<times> machine" where
  "xchg_locked L v s =
     (locked (locks s L), s\<lparr>locks := (locks s)(L := (locks s L)\<lparr>locked := v\<rparr>)\<rparr>)"

definition acquire :: "lockid \<Rightarrow> u8 \<Rightarrow> machine \<Rightarrow> (machine, unit) outcome" where
  "acquire L me s =
     bind (pushcli me s) (\<lambda>_ s.
     bind (holding L me s) (\<lambda>h s.
     if h then Panic ''acquire''
     else let (old, s) = xchg_locked L 1 s in
       if old \<noteq> 0 then Diverge
       else bind (mycpu me s) (\<lambda>c s.
         Done () (s\<lparr>locks := (locks s)(L := (locks s L)\<lparr>lcpu := Some c\<rparr>)\<rparr>))))"

definition release :: "lockid \<Rightarrow> u8 \<Rightarrow> machine \<Rightarrow> (machine, unit) outcome" where
  "release L me s =
     bind (holding L me s) (\<lambda>h s.
     if \<not> h then Panic ''release''
     else let s = s\<lparr>locks := (locks s)(L := (locks s L)\<lparr>lcpu := None\<rparr>)\<rparr>;
              s = s\<lparr>locks := (locks s)(L := (locks s L)\<lparr>locked := 0\<rparr>)\<rparr>
          in popcli me s)"

section \<open>The effect of each function\<close>

definition on_cpu :: "u8 \<Rightarrow> nat \<Rightarrow> machine \<Rightarrow> bool" where
  "on_cpu me c s \<longleftrightarrow> find_cpu me 0 (cpus s) = Some c"

definition masked :: "u8 \<Rightarrow> machine \<Rightarrow> bool" where
  "masked me s \<longleftrightarrow> eflags s me AND FL_IF = 0"

lemma find_cpu_cong: "map apicid cs = map apicid cs' \<Longrightarrow> find_cpu a i cs = find_cpu a i cs'"
proof (induction cs arbitrary: i cs')
  case Nil
  then show ?case by simp
next
  case (Cons c cs)
  then obtain d ds where "cs' = d # ds" "apicid d = apicid c" "map apicid cs = map apicid ds"
    by (cases cs') auto
  then show ?case using Cons.IH [of ds "Suc i"] by simp
qed

lemma find_cpu_Some:
  "find_cpu a i cs = Some j \<Longrightarrow> i \<le> j \<and> j - i < length cs \<and> apicid (cs ! (j - i)) = a"
proof (induction cs arbitrary: i)
  case Nil
  then show ?case by simp
next
  case (Cons c cs)
  show ?case
  proof (cases "apicid c = a")
    case True
    then show ?thesis using Cons.prems by simp
  next
    case False
    then have "Suc i \<le> j \<and> j - Suc i < length cs \<and> apicid (cs ! (j - Suc i)) = a"
      using Cons by simp
    moreover from this have "j - i = Suc (j - Suc i)" by (simp add: Suc_diff_Suc Suc_le_lessD)
    ultimately show ?thesis by simp
  qed
qed

lemma on_cpuD: "on_cpu me c s \<Longrightarrow> c < length (cpus s) \<and> apicid (cpus s ! c) = me"
  using find_cpu_Some [of me 0 "cpus s" c] by (simp add: on_cpu_def)

lemma map_apicid_update:
  "c < length ks \<Longrightarrow> apicid k = apicid (ks ! c) \<Longrightarrow> map apicid (ks[c := k]) = map apicid ks"
  by (simp add: map_update) (metis length_map list_update_id nth_map)

lemma find_cpu_update [simp]:
  "c < length ks \<Longrightarrow> apicid k = apicid (ks ! c) \<Longrightarrow> find_cpu a i (ks[c := k]) = find_cpu a i ks"
  by (rule find_cpu_cong) (rule map_apicid_update)

lemma and_not_and: "((x :: u32) AND NOT y) AND y = 0"
  by (rule bit_word_eqI) (auto simp: bit_simps)

lemma and_not_or: "(x :: u32) AND FL_IF \<noteq> 0 \<Longrightarrow> (x AND NOT FL_IF) OR FL_IF = x"
proof -
  assume nz: "x AND FL_IF \<noteq> 0"
  have fl: "FL_IF = 2 ^ 9" by (simp add: FL_IF_def)
  have b: "bit FL_IF n \<longleftrightarrow> n = 9" for n
    unfolding fl by (simp only: bit_exp_iff possible_bit_word) auto
  have "bit x 9"
  proof (rule ccontr)
    assume "\<not> bit x 9"
    then have "x AND FL_IF = 0" by (intro bit_word_eqI) (auto simp: bit_simps b)
    with nz show False by simp
  qed
  then show ?thesis by (intro bit_word_eqI) (auto simp: bit_simps b)
qed

lemma and_not_same: "(x :: u32) AND y = 0 \<Longrightarrow> x AND NOT y = x"
proof -
  assume z: "x AND y = 0"
  have "\<not> (bit x n \<and> bit y n)" for n
    using z by (metis bit_and_iff bit_0_eq bot_apply bot_bool_def)
  then show ?thesis by (intro bit_word_eqI) (auto simp: bit_simps)
qed

lemma mycpu_eq: "on_cpu me c s \<Longrightarrow> masked me s \<Longrightarrow> mycpu me s = Done c s"
  by (simp add: mycpu_def on_cpu_def masked_def)

text \<open>The state after \<^verbatim>\<open>pushcli\<close>.\<close>

definition pushed :: "u8 \<Rightarrow> nat \<Rightarrow> machine \<Rightarrow> machine" where
  "pushed me c s = s\<lparr>
     eflags := (eflags s)(me := eflags s me AND NOT FL_IF),
     cpus := (cpus s)[c := (cpus s ! c)\<lparr>
       intena := if ncli (cpus s ! c) = 0 then eflags s me AND FL_IF else intena (cpus s ! c),
       ncli := ncli (cpus s ! c) + 1\<rparr>]\<rparr>"

lemma pushcli_eq:
  assumes "on_cpu me c s"
  shows "pushcli me s = Done () (pushed me c s)"
proof -
  have "masked me (cli me s)" "on_cpu me c (cli me s)"
    using assms by (simp_all add: masked_def cli_def and_not_and on_cpu_def)
  moreover have "c < length (cpus s)" using on_cpuD [OF assms] by simp
  ultimately show ?thesis
    by (auto simp: pushcli_def Let_def mycpu_eq pushed_def set_cpu_def cli_def)
qed

lemma on_cpu_pushed [simp]: "on_cpu me c s \<Longrightarrow> on_cpu me c (pushed me c s)"
  using on_cpuD [of me c s] by (simp add: on_cpu_def pushed_def)

lemma masked_pushed [simp]: "masked me (pushed me c s)"
  by (simp add: masked_def pushed_def and_not_and)

lemma locks_pushed [simp]: "locks (pushed me c s) = locks s"
  by (simp add: pushed_def)

text \<open>Inside another lock, \<^verbatim>\<open>holding\<close> leaves the machine as it was.\<close>

lemma popcli_eq:
  assumes "on_cpu me c s" and "masked me s"
  shows "popcli me s =
    (let k = cpus s ! c; t = s\<lparr>cpus := (cpus s)[c := k\<lparr>ncli := ncli k - 1\<rparr>]\<rparr> in
     if ncli k \<le> 0 then Panic ''popcli''
     else if ncli k = 1 \<and> intena k \<noteq> 0 then Done () (sti me t) else Done () t)"
  using assms on_cpuD [OF assms(1)]
  by (auto simp: popcli_def Let_def mycpu_eq set_cpu_def masked_def)

lemma holding_nested:
  assumes on: "on_cpu me c s" and m: "masked me s" and n: "1 \<le> ncli (cpus s ! c)"
  shows "holding L me s = Done (locked (locks s L) \<noteq> 0 \<and> lcpu (locks s L) = Some c) s"
proof -
  have c: "c < length (cpus s)" using on_cpuD [OF on] by simp
  have "popcli me (pushed me c s) = Done () s"
    using c n m by (subst popcli_eq [OF on_cpu_pushed [OF on] masked_pushed])
      (auto simp: Let_def pushed_def masked_def and_not_same)
  then show ?thesis
    by (simp add: holding_def pushcli_eq [OF on] mycpu_eq [OF on_cpu_pushed [OF on] masked_pushed])
qed

lemma spinlock_upd [simp]:
  "l\<lparr>locked := a, lcpu := b\<rparr> = \<lparr>locked = a, lcpu = b\<rparr>"
  "l\<lparr>lcpu := b, locked := a\<rparr> = \<lparr>locked = a, lcpu = b\<rparr>"
  by (cases l, simp)+

lemma ncli_pushed [simp]:
  "c < length (cpus s) \<Longrightarrow> ncli (cpus (pushed me c s) ! c) = ncli (cpus s ! c) + 1"
  by (simp add: pushed_def)

lemma acquire_eq:
  assumes on: "on_cpu me c s" and n: "0 \<le> ncli (cpus s ! c)"
  shows "acquire L me s =
    (if locked (locks s L) = 0
     then Done () ((pushed me c s)\<lparr>locks := (locks s)(L := \<lparr>locked = 1, lcpu = Some c\<rparr>)\<rparr>)
     else if lcpu (locks s L) = Some c then Panic ''acquire'' else Diverge)"
proof -
  have c: "c < length (cpus s)" using on_cpuD [OF on] by simp
  let ?t = "(pushed me c s)\<lparr>locks := (locks s)(L := (locks s L)\<lparr>locked := 1\<rparr>)\<rparr>"
  have "on_cpu me c ?t" "masked me ?t"
    using on_cpu_pushed [OF on] masked_pushed [of me c s] by (simp_all add: on_cpu_def masked_def)
  then have "mycpu me ?t = Done c ?t" by (rule mycpu_eq)
  moreover have "holding L me (pushed me c s) =
      Done (locked (locks s L) \<noteq> 0 \<and> lcpu (locks s L) = Some c) (pushed me c s)"
    using holding_nested [OF on_cpu_pushed [OF on] masked_pushed, of L] c n by simp
  ultimately show ?thesis
    by (simp add: acquire_def pushcli_eq [OF on] xchg_locked_def)
qed

lemma release_eq:
  assumes on: "on_cpu me c s" and m: "masked me s" and n: "1 \<le> ncli (cpus s ! c)"
  shows "release L me s =
    (if locked (locks s L) \<noteq> 0 \<and> lcpu (locks s L) = Some c
     then (let k = cpus s ! c;
               t = s\<lparr>locks := (locks s)(L := \<lparr>locked = 0, lcpu = None\<rparr>),
                     cpus := (cpus s)[c := k\<lparr>ncli := ncli k - 1\<rparr>]\<rparr>
           in Done () (if ncli k = 1 \<and> intena k \<noteq> 0 then sti me t else t))
     else Panic ''release'')"
proof -
  let ?t = "s\<lparr>locks := (locks s)(L := \<lparr>locked = 0, lcpu = None\<rparr>)\<rparr>"
  have on': "on_cpu me c ?t" and m': "masked me ?t"
    using on m by (simp_all add: on_cpu_def masked_def)
  have "popcli me ?t =
     (let k = cpus s ! c;
          t = s\<lparr>locks := (locks s)(L := \<lparr>locked = 0, lcpu = None\<rparr>),
                cpus := (cpus s)[c := k\<lparr>ncli := ncli k - 1\<rparr>]\<rparr>
      in Done () (if ncli k = 1 \<and> intena k \<noteq> 0 then sti me t else t))"
    using n by (simp add: popcli_eq [OF on' m'] Let_def)
  then show ?thesis
    by (simp add: release_def holding_nested [OF on m n] Let_def)
qed

section \<open>The invariant of the locks\<close>

definition locks_of :: "nat \<Rightarrow> machine \<Rightarrow> lockid set" where
  "locks_of c s = {L. lcpu (locks s L) = Some c}"

definition spin_inv :: "machine \<Rightarrow> bool" where
  "spin_inv s \<longleftrightarrow>
     distinct (map apicid (cpus s)) \<and>
     (\<forall>L. (locked (locks s L) = 0 \<and> lcpu (locks s L) = None) \<or>
          (locked (locks s L) = 1 \<and> (\<exists>c < length (cpus s). lcpu (locks s L) = Some c))) \<and>
     (\<forall>c < length (cpus s). finite (locks_of c s) \<and>
        ncli (cpus s ! c) = int (card (locks_of c s)) \<and>
        (0 < ncli (cpus s ! c) \<longrightarrow> masked (apicid (cpus s ! c)) s))"

definition machine_init :: "u8 list \<Rightarrow> machine" where
  "machine_init ids = \<lparr>cpus = map (\<lambda>a. \<lparr>apicid = a, ncli = 0, intena = 0\<rparr>) ids,
     eflags = (\<lambda>_. 0), locks = (\<lambda>_. \<lparr>locked = 0, lcpu = None\<rparr>)\<rparr>"

text \<open>
  The steps of the machine: a CPU completes an \<^verbatim>\<open>acquire\<close> or a \<^verbatim>\<open>release\<close>, or changes
  its interrupt flag outside of every lock.
\<close>

inductive spin_step :: "machine \<Rightarrow> machine \<Rightarrow> bool" where
  acq: "acquire L me s = Done () t \<Longrightarrow> spin_step s t"
| rel: "release L me s = Done () t \<Longrightarrow> spin_step s t"
| on: "on_cpu me c s \<Longrightarrow> ncli (cpus s ! c) = 0 \<Longrightarrow> spin_step s (sti me s)"
| off: "on_cpu me c s \<Longrightarrow> ncli (cpus s ! c) = 0 \<Longrightarrow> spin_step s (cli me s)"

inductive spin_reachable :: "u8 list \<Rightarrow> machine \<Rightarrow> bool" for ids where
  start: "spin_reachable ids (machine_init ids)"
| step: "spin_reachable ids s \<Longrightarrow> spin_step s t \<Longrightarrow> spin_reachable ids t"

lemma spin_invD:
  assumes "spin_inv s"
  shows "distinct (map apicid (cpus s))"
    and "locked (locks s L) = 0 \<longleftrightarrow> lcpu (locks s L) = None"
    and "c < length (cpus s) \<Longrightarrow> finite (locks_of c s)"
    and "c < length (cpus s) \<Longrightarrow> ncli (cpus s ! c) = int (card (locks_of c s))"
    and "c < length (cpus s) \<Longrightarrow> 0 < ncli (cpus s ! c) \<Longrightarrow> masked (apicid (cpus s ! c)) s"
    and "lcpu (locks s L) = Some d \<Longrightarrow> d < length (cpus s) \<and> locked (locks s L) = 1"
proof -
  have a: "(locked (locks s L) = 0 \<and> lcpu (locks s L) = None) \<or>
          (locked (locks s L) = 1 \<and> (\<exists>c < length (cpus s). lcpu (locks s L) = Some c))"
    using assms by (simp add: spin_inv_def)
  then show "locked (locks s L) = 0 \<longleftrightarrow> lcpu (locks s L) = None" by auto
  from a show "lcpu (locks s L) = Some d \<Longrightarrow> d < length (cpus s) \<and> locked (locks s L) = 1" by auto
qed (use assms in \<open>auto simp: spin_inv_def\<close>)

lemma pushcli_on_cpu: "pushcli me s = Done u t \<Longrightarrow> \<exists>c. on_cpu me c s"
  by (auto simp: pushcli_def Let_def mycpu_def cli_def on_cpu_def split: if_splits option.splits)

lemma acquire_on_cpu: "acquire L me s = Done u t \<Longrightarrow> \<exists>c. on_cpu me c s"
  by (auto simp: acquire_def bind_Done_iff dest: pushcli_on_cpu)

lemma release_on_cpu: "release L me s = Done u t \<Longrightarrow> \<exists>c. on_cpu me c s"
  by (auto simp: release_def holding_def bind_Done_iff dest: pushcli_on_cpu)

lemma apicid_distinct:
  "distinct (map apicid ks) \<Longrightarrow> c < length ks \<Longrightarrow> d < length ks \<Longrightarrow> c \<noteq> d \<Longrightarrow> apicid (ks ! d) \<noteq> apicid (ks ! c)"
  by (auto simp: distinct_conv_nth)

lemma locks_of_upd:
  "locks_of d (s\<lparr>locks := (locks s)(L := l)\<rparr>) =
     (if lcpu l = Some d then insert L (locks_of d s) else locks_of d s - {L})"
  by (auto simp: locks_of_def)

lemma acquire_inv:
  assumes inv: "spin_inv s" and acq: "acquire L me s = Done u t" and on: "on_cpu me c s"
  shows "spin_inv t \<and> on_cpu me c t \<and> L \<notin> locks_of c s \<and> locks_of c t = insert L (locks_of c s)"
proof -
  note D = spin_invD [OF inv]
  have c: "c < length (cpus s)" "apicid (cpus s ! c) = me" using on_cpuD [OF on] by auto
  have free: "locked (locks s L) = 0"
    and t: "t = (pushed me c s)\<lparr>locks := (locks s)(L := \<lparr>locked = 1, lcpu = Some c\<rparr>)\<rparr>"
    using acq acquire_eq [OF on, of L] D(4) [OF c(1)] by (auto split: if_splits)
  have none: "lcpu (locks s L) = None" using free D(2) by simp
  have lo: "locks_of d t = (if d = c then insert L (locks_of c s) else locks_of d s)" for d
    using none by (auto simp: t locks_of_def)
  have notin: "L \<notin> locks_of d s" for d using none by (simp add: locks_of_def)
  have ap: "map apicid (cpus t) = map apicid (cpus s)"
    using c by (simp add: t pushed_def map_apicid_update)
  have len: "length (cpus t) = length (cpus s)" by (simp add: t pushed_def)
  have "finite (locks_of d t) \<and> ncli (cpus t ! d) = int (card (locks_of d t)) \<and>
        (0 < ncli (cpus t ! d) \<longrightarrow> masked (apicid (cpus t ! d)) t)" if d: "d < length (cpus s)" for d
  proof (cases "d = c")
    case True
    have "ncli (cpus t ! c) = ncli (cpus s ! c) + 1" "apicid (cpus t ! c) = me"
      using c by (simp_all add: t pushed_def)
    moreover have "masked me t" using masked_pushed [of me c s] by (simp add: t masked_def)
    ultimately show ?thesis using True D(3,4) [OF c(1)] notin by (simp add: lo)
  next
    case False
    then have "cpus t ! d = cpus s ! d" "eflags t (apicid (cpus s ! d)) = eflags s (apicid (cpus s ! d))"
      using c d apicid_distinct [OF D(1) c(1) d] by (auto simp: t pushed_def)
    then show ?thesis using False D(3-5) [OF d] by (simp add: lo masked_def)
  qed
  moreover have "(locked (locks t K) = 0 \<and> lcpu (locks t K) = None) \<or>
          (locked (locks t K) = 1 \<and> (\<exists>c < length (cpus t). lcpu (locks t K) = Some c))" for K
    using inv c(1) len by (auto simp: t spin_inv_def)
  ultimately have "spin_inv t" using D(1) ap len by (simp add: spin_inv_def)
  moreover have "on_cpu me c t"
    using on find_cpu_cong [OF ap] by (simp add: on_cpu_def)
  ultimately show ?thesis using lo notin by simp
qed

lemma holding_result:
  assumes on: "on_cpu me c s" and n: "0 \<le> ncli (cpus s ! c)"
  shows "\<exists>t. holding L me s = Done (locked (locks s L) \<noteq> 0 \<and> lcpu (locks s L) = Some c) t"
proof -
  have c: "c < length (cpus s)" using on_cpuD [OF on] by simp
  have "\<exists>t. popcli me (pushed me c s) = Done () t"
    using c n by (simp add: popcli_eq [OF on_cpu_pushed [OF on] masked_pushed] Let_def)
  then show ?thesis
    by (auto simp: holding_def pushcli_eq [OF on] mycpu_eq [OF on_cpu_pushed [OF on] masked_pushed])
qed

lemma release_free:
  assumes inv: "spin_inv s" and on: "on_cpu me c s" and "L \<notin> locks_of c s"
  shows "release L me s = Panic ''release''"
proof -
  have "0 \<le> ncli (cpus s ! c)" using spin_invD(4) [OF inv] on_cpuD [OF on] by simp
  then obtain t where "holding L me s = Done (locked (locks s L) \<noteq> 0 \<and> lcpu (locks s L) = Some c) t"
    using holding_result [OF on] by blast
  then show ?thesis using assms(3) by (simp add: release_def locks_of_def)
qed

lemma release_inv:
  assumes inv: "spin_inv s" and on: "on_cpu me c s" and L: "L \<in> locks_of c s"
  shows "\<exists>t. release L me s = Done () t \<and> spin_inv t \<and> on_cpu me c t \<and> locks_of c t = locks_of c s - {L}"
proof -
  note D = spin_invD [OF inv]
  have c: "c < length (cpus s)" "apicid (cpus s ! c) = me" using on_cpuD [OF on] by auto
  have own: "locked (locks s L) = 1" "lcpu (locks s L) = Some c"
    using L D(6) [of L c] by (auto simp: locks_of_def)
  have pos: "1 \<le> ncli (cpus s ! c)"
    using D(3,4) [OF c(1)] L by (metis card_0_eq empty_iff int_one_le_iff_zero_less not_gr_zero of_nat_0_less_iff)
  have m: "masked me s" using D(5) [OF c(1)] pos c(2) by simp
  define k where "k = cpus s ! c"
  define r where "r = s\<lparr>locks := (locks s)(L := \<lparr>locked = 0, lcpu = None\<rparr>),
                     cpus := (cpus s)[c := k\<lparr>ncli := ncli k - 1\<rparr>]\<rparr>"
  define t where "t = (if ncli k = 1 \<and> intena k \<noteq> 0 then sti me r else r)"
  have rel: "release L me s = Done () t"
    using own by (simp add: release_eq [OF on m pos] Let_def t_def r_def k_def)
  have lo: "locks_of d t = (if d = c then locks_of c s - {L} else locks_of d s)" for d
    using own by (auto simp: t_def r_def sti_def locks_of_def)
  have cpt: "cpus t = (cpus s)[c := k\<lparr>ncli := ncli k - 1\<rparr>]" by (simp add: t_def r_def sti_def)
  then have ap: "map apicid (cpus t) = map apicid (cpus s)" and len: "length (cpus t) = length (cpus s)"
    using c by (simp_all add: k_def map_apicid_update)
  have "finite (locks_of d t) \<and> ncli (cpus t ! d) = int (card (locks_of d t)) \<and>
        (0 < ncli (cpus t ! d) \<longrightarrow> masked (apicid (cpus t ! d)) t)" if d: "d < length (cpus s)" for d
  proof (cases "d = c")
    case True
    have "int (card (locks_of c s - {L})) = ncli k - 1"
      using D(4) [OF c(1)] card_Suc_Diff1 [OF D(3) [OF c(1)] L] by (simp add: k_def)
    moreover have "0 < ncli k - 1 \<Longrightarrow> masked me t" using m by (simp add: t_def r_def masked_def)
    ultimately show ?thesis using True D(3) [OF c(1)] c by (simp add: lo cpt k_def)
  next
    case False
    then have "cpus t ! d = cpus s ! d" "eflags t (apicid (cpus s ! d)) = eflags s (apicid (cpus s ! d))"
      using c d apicid_distinct [OF D(1) c(1) d] by (auto simp: cpt t_def r_def sti_def)
    then show ?thesis using False D(3-5) [OF d] by (simp add: lo masked_def)
  qed
  moreover have "(locked (locks t K) = 0 \<and> lcpu (locks t K) = None) \<or>
          (locked (locks t K) = 1 \<and> (\<exists>c < length (cpus t). lcpu (locks t K) = Some c))" for K
    using inv len by (auto simp: t_def r_def sti_def spin_inv_def)
  ultimately have "spin_inv t" using D(1) ap len by (simp add: spin_inv_def)
  moreover have "on_cpu me c t" using on find_cpu_cong [OF ap] by (simp add: on_cpu_def)
  ultimately show ?thesis using rel lo by auto
qed

interpretation cpulock: spin_contract "\<lambda>L. acquire L me" "\<lambda>L. release L me" "locks_of c"
  "\<lambda>s. spin_inv s \<and> on_cpu me c s" for me c
proof (unfold_locales, goal_cases)
  case (1 s L u t)
  then show ?case using acquire_inv by blast
next
  case (2 s L)
  then have "lcpu (locks s L) = Some c" "locked (locks s L) \<noteq> 0" "0 \<le> ncli (cpus s ! c)"
    using spin_invD(4,6) [of s] on_cpuD [of me c s] by (auto simp: locks_of_def)
  then show ?case using acquire_eq [of me c s L] 2 by simp
next
  case (3 s L)
  then show ?case using release_inv by blast
next
  case (4 s L)
  then show ?case using release_free by blast
qed

lemma eflags_inv:
  assumes inv: "spin_inv s" and on: "on_cpu me c s" and z: "ncli (cpus s ! c) = 0"
  shows "spin_inv (s\<lparr>eflags := (eflags s)(me := x)\<rparr>)"
proof -
  note D = spin_invD [OF inv]
  have c: "c < length (cpus s)" "apicid (cpus s ! c) = me" using on_cpuD [OF on] by auto
  have "masked (apicid (cpus s ! d)) (s\<lparr>eflags := (eflags s)(me := x)\<rparr>)"
    if "d < length (cpus s)" "0 < ncli (cpus s ! d)" for d
  proof -
    have "c \<noteq> d" using z that(2) by auto
    then have "apicid (cpus s ! d) \<noteq> me" using apicid_distinct [OF D(1) c(1) that(1)] c(2) by simp
    then show ?thesis using D(5) [OF that] by (simp add: masked_def)
  qed
  then show ?thesis using inv by (simp add: spin_inv_def locks_of_def)
qed

lemma spin_step_inv: "spin_step s t \<Longrightarrow> spin_inv s \<Longrightarrow> spin_inv t"
proof (induction rule: spin_step.induct)
  case (acq L me s t)
  then show ?case using acquire_on_cpu acquire_inv by blast
next
  case (rel L me s t)
  then obtain c where on: "on_cpu me c s" using release_on_cpu by blast
  have "L \<in> locks_of c s" using rel release_free [OF _ on] by fastforce
  then show ?case using release_inv [OF rel(2) on] rel(1) by force
next
  case (on me c s)
  then show ?case unfolding sti_def by (intro eflags_inv)
next
  case (off me c s)
  then show ?case unfolding cli_def by (intro eflags_inv)
qed

lemma machine_init_inv: "distinct ids \<Longrightarrow> spin_inv (machine_init ids)"
  by (auto simp: spin_inv_def machine_init_def locks_of_def comp_def)

lemma reachable_inv: "spin_reachable ids s \<Longrightarrow> distinct ids \<Longrightarrow> spin_inv s"
  by (induction rule: spin_reachable.induct) (auto intro: machine_init_inv spin_step_inv)

text \<open>
  The state a CPU of the machine presents to the rest of the kernel: the locks it holds, one
  entry each.
\<close>

definition cpu_rel :: "u8 \<Rightarrow> nat \<Rightarrow> machine \<Rightarrow> kbase \<Rightarrow> bool" where
  "cpu_rel me c s kb \<longleftrightarrow>
     spin_inv s \<and> on_cpu me c s \<and> set (held kb) = locks_of c s \<and> distinct (held kb)"

lemma cpu_rel_ncli: "cpu_rel me c s kb \<Longrightarrow> ncli (cpus s ! c) = int (length (held kb))"
  using spin_invD(4) [of s c] on_cpuD [of me c s] distinct_card [of "held kb"]
  by (auto simp: cpu_rel_def)

section \<open>Properties\<close>





text \<open>
  \<^verbatim>\<open>acquire\<close> followed by \<^verbatim>\<open>release\<close> of the same lock restores the lock table, the
  nesting depth and the interrupt flag of the CPU, whether it was nested in another critical
  section or not.
\<close>

theorem acquire_release_restores:
  assumes inv: "spin_inv s" and on: "on_cpu me c s"
    and acq: "acquire L me s = Done u t" and rel: "release L me t = Done v r"
  shows "locks r = locks s \<and> eflags r = eflags s \<and> ncli (cpus r ! c) = ncli (cpus s ! c)"
proof -
  note D = spin_invD [OF inv]
  have c: "c < length (cpus s)" "apicid (cpus s ! c) = me" using on_cpuD [OF on] by auto
  have n: "0 \<le> ncli (cpus s ! c)" using D(4) [OF c(1)] by simp
  have free: "locked (locks s L) = 0"
    and t: "t = (pushed me c s)\<lparr>locks := (locks s)(L := \<lparr>locked = 1, lcpu = Some c\<rparr>)\<rparr>"
    using acq acquire_eq [OF on n, of L] by (auto split: if_splits)
  from acquire_inv [OF inv acq on] have "spin_inv t" and on': "on_cpu me c t" by auto
  moreover have m: "masked me t" using masked_pushed [of me c s] by (simp add: t masked_def)
  moreover have n': "1 \<le> ncli (cpus t ! c)" using c n by (simp add: t)
  ultimately have r: "r = (let k = cpus t ! c;
               t = t\<lparr>locks := (locks t)(L := \<lparr>locked = 0, lcpu = None\<rparr>),
                     cpus := (cpus t)[c := k\<lparr>ncli := ncli k - 1\<rparr>]\<rparr>
           in if ncli k = 1 \<and> intena k \<noteq> 0 then sti me t else t)"
    using rel release_eq [OF on' m n', of L] by (auto simp: Let_def split: if_splits)
  have "\<lparr>locked = 0, lcpu = None\<rparr> = locks s L"
    using free D(2) [of L] by simp
  then have "locks r = locks s" by (auto simp: r t Let_def sti_def fun_eq_iff)
  moreover have "ncli (cpus r ! c) = ncli (cpus s ! c)"
    using c by (simp add: r t Let_def sti_def pushed_def)
  moreover have "eflags r = eflags s"
  proof (cases "ncli (cpus s ! c) = 0")
    case True
    then show ?thesis
      using c by (auto simp: r t Let_def sti_def pushed_def fun_eq_iff and_not_or and_not_same)
  next
    case False
    then have "masked me s" using D(5) [OF c(1)] n c(2) by simp
    then show ?thesis using c False n
      by (auto simp: r t Let_def sti_def pushed_def fun_eq_iff masked_def and_not_same)
  qed
  ultimately show ?thesis by simp
qed

theorem acquire_release_restores_witness:
  "\<exists>t r. acquire KMEM 3 (sti 3 (machine_init [0, 3])) = Done () t \<and> release KMEM 3 t = Done () r
     \<and> eflags r = eflags (sti 3 (machine_init [0, 3]))"
proof -
  let ?s = "sti 3 (machine_init [0, 3])"
  have inv: "spin_inv ?s" using spin_step_inv [OF spin_step.on [of 3 1]] machine_init_inv [of "[0, 3]"]
    by (simp add: on_cpu_def machine_init_def)
  have on: "on_cpu 3 1 ?s" by (simp add: on_cpu_def machine_init_def sti_def)
  have "locked (locks ?s KMEM) = 0" "0 \<le> ncli (cpus ?s ! 1)" by (simp_all add: machine_init_def sti_def)
  then obtain t where acq: "acquire KMEM 3 ?s = Done () t" using acquire_eq [OF on] by simp
  from acquire_inv [OF inv acq on] release_inv [of t 3 1 KMEM] obtain r where
    rel: "release KMEM 3 t = Done () r" by auto
  show ?thesis using acquire_release_restores [OF inv on acq rel] acq rel by blast
qed

text \<open>
  (C11) \<^verbatim>\<open>acquire\<close> and \<^verbatim>\<open>release\<close> implement the operations on the locks one CPU holds that
  the models of the other components use: they return when those return, with the same locks
  held afterwards, and panic when those panic.
\<close>

theorem spinlock_refines:
  assumes rel: "cpu_rel me c s kb"
  shows "(\<forall>t. acquire L me s = Done () t \<longrightarrow> (\<exists>kb'. lock L kb = Done () kb' \<and> cpu_rel me c t kb')) \<and>
    (\<forall>e. acquire L me s = Panic e \<longleftrightarrow> lock L kb = Panic e) \<and>
    (\<forall>kb'. unlock L kb = Done () kb' \<longrightarrow> (\<exists>t. release L me s = Done () t \<and> cpu_rel me c t kb')) \<and>
    (\<forall>e. unlock L kb = Panic e \<longleftrightarrow> release L me s = Panic e)"
proof -
  have inv: "spin_inv s" and on: "on_cpu me c s" and h: "set (held kb) = locks_of c s" "distinct (held kb)"
    using rel by (auto simp: cpu_rel_def)
  have n: "0 \<le> ncli (cpus s ! c)" using cpu_rel_ncli [OF rel] by simp
  have a1: "\<exists>kb'. lock L kb = Done () kb' \<and> cpu_rel me c t kb'" if "acquire L me s = Done () t" for t
    using acquire_inv [OF inv that on] h by (auto simp: cpu_rel_def lock_def)
  have own: "L \<in> locks_of c s \<longleftrightarrow> locked (locks s L) \<noteq> 0 \<and> lcpu (locks s L) = Some c"
    using spin_invD(2) [OF inv, of L] by (auto simp: locks_of_def)
  have a2: "acquire L me s = Panic e \<longleftrightarrow> lock L kb = Panic e" for e
    using acquire_eq [OF on n, of L] own h by (auto simp: lock_def)
  have r1: "\<exists>t. release L me s = Done () t \<and> cpu_rel me c t kb'" if "unlock L kb = Done () kb'" for kb'
    using that release_inv [OF inv on, of L] h by (auto simp: unlock_def cpu_rel_def split: if_splits)
  have r2: "unlock L kb = Panic e \<longleftrightarrow> release L me s = Panic e" for e
    using release_inv [OF inv on, of L] release_free [OF inv on, of L] h by (auto simp: unlock_def)
  show ?thesis using a1 a2 r1 r2 by blast
qed

theorem spinlock_refines_witness:
  "(\<exists>t. acquire KMEM 3 (machine_init [0, 3]) = Done () t \<and> lock KMEM \<lparr>held = [], clog = []\<rparr> = Done () \<lparr>held = [KMEM], clog = []\<rparr>
     \<and> cpu_rel 3 1 t \<lparr>held = [KMEM], clog = []\<rparr>)"
proof -
  have on: "on_cpu 3 1 (machine_init [0, 3])" by (simp add: on_cpu_def machine_init_def)
  have rel: "cpu_rel 3 1 (machine_init [0, 3]) \<lparr>held = [], clog = []\<rparr>"
    using on machine_init_inv [of "[0, 3]"] by (simp add: cpu_rel_def locks_of_def machine_init_def)
  obtain t where "acquire KMEM 3 (machine_init [0, 3]) = Done () t"
    using acquire_eq [OF on, of KMEM] by (auto simp: machine_init_def)
  then show ?thesis using spinlock_refines [OF rel, of KMEM] by (auto simp: lock_def)
qed

end
