(* ===== verification/CMem.thy ===== *)
theory CMem
  imports Prelude
begin

text \<open>
  Memory as the kernel addresses it, and \<^verbatim>\<open>string.c\<close>.

  Memory is a byte for every 32-bit address; the kernel sees physical memory at
  \<^verbatim>\<open>KERNBASE\<close> and above (the direct map), so address \<open>a\<close> holds the physical byte at
  \<open>a - KERNBASE\<close>. A C word access is \<open>load32\<close> or \<open>store32\<close>, little-endian as on x86.
  The byte loops of \<^verbatim>\<open>string.c\<close> follow the C code, pointer by pointer; the lemmas give what
  each loop leaves in memory in one equation.
\<close>

type_synonym mem = "u32 \<Rightarrow> u8"

section \<open>Word accesses\<close>

definition load32 :: "mem \<Rightarrow> u32 \<Rightarrow> u32" where
  "load32 m a = ucast (m a) OR push_bit 8 (ucast (m (a + 1)))
     OR push_bit 16 (ucast (m (a + 2))) OR push_bit 24 (ucast (m (a + 3)))"

definition store32 :: "mem \<Rightarrow> u32 \<Rightarrow> u32 \<Rightarrow> mem" where
  "store32 m a v = m(a := ucast v, a + 1 := ucast (drop_bit 8 v),
     a + 2 := ucast (drop_bit 16 v), a + 3 := ucast (drop_bit 24 v))"

lemma u32_neq_add [simp]:
  "(a :: u32) \<noteq> a + 1" "a \<noteq> a + 2" "a \<noteq> a + 3" "a + 1 \<noteq> a + 2" "a + 1 \<noteq> a + 3" "a + 2 \<noteq> a + 3"
  "a + 1 \<noteq> a" "a + 2 \<noteq> a" "a + 3 \<noteq> a" "a + 2 \<noteq> a + 1" "a + 3 \<noteq> a + 1" "a + 3 \<noteq> a + 2"
  by (simp_all add: add_left_cancel)

lemma bytes_of_u32:
  "ucast (ucast v :: u8) OR push_bit 8 (ucast (ucast (drop_bit 8 v) :: u8))
     OR push_bit 16 (ucast (ucast (drop_bit 16 v) :: u8))
     OR push_bit 24 (ucast (ucast (drop_bit 24 v) :: u8)) = (v :: u32)" (is "?l = v")
proof (rule bit_word_eqI)
  fix n
  assume "n < LENGTH(32)"
  then consider "n < 8" | "8 \<le> n" "n < 16" | "16 \<le> n" "n < 24" | "24 \<le> n" "n < 32"
    by force
  then show "bit ?l n = bit v n"
    by cases (auto simp: bit_simps)
qed

lemma load32_store32_same [simp]: "load32 (store32 m a v) a = v"
  by (simp add: load32_def store32_def bytes_of_u32)

text \<open>Two word accesses do not overlap when neither starts inside the other.\<close>

definition apart4 :: "u32 \<Rightarrow> u32 \<Rightarrow> bool" where
  "apart4 a b \<longleftrightarrow> 4 \<le> b - a \<and> 4 \<le> a - b"

lemma apart4_neq:
  assumes "apart4 a b" and "i < 4" and "j < 4"
  shows "a + of_nat i \<noteq> b + of_nat j"
proof
  assume eq: "a + of_nat i = b + of_nat j"
  show False
  proof (cases "i \<le> j")
    case True
    have "a - b = of_nat (j - i)"
      using eq True by (simp add: of_nat_diff algebra_simps)
    then have "unat (a - b) = j - i"
      using assms(3) by (simp add: unat_of_nat_u32)
    moreover have "4 \<le> unat (a - b)"
      using assms(1) by (simp add: apart4_def word_le_nat_alt)
    ultimately show False using assms by simp
  next
    case False
    have "b - a = of_nat (i - j)"
      using eq False by (simp add: of_nat_diff algebra_simps)
    then have "unat (b - a) = i - j"
      using assms(2) by (simp add: unat_of_nat_u32)
    moreover have "4 \<le> unat (b - a)"
      using assms(1) by (simp add: apart4_def word_le_nat_alt)
    ultimately show False using assms by simp
  qed
qed

lemma store32_other:
  assumes "\<And>i. i < 4 \<Longrightarrow> x \<noteq> a + of_nat i"
  shows "store32 m a v x = m x"
  using assms [of 0] assms [of 1] assms [of 2] assms [of 3] by (simp add: store32_def)

lemma load32_store32_apart: "apart4 a b \<Longrightarrow> load32 (store32 m a v) b = load32 m b"
proof -
  assume ap: "apart4 a b"
  have "store32 m a v (b + of_nat j) = m (b + of_nat j)" if "j < 4" for j
    by (rule store32_other) (use apart4_neq [OF ap _ that] in \<open>metis\<close>)
  from this [of 0] this [of 1] this [of 2] this [of 3] show ?thesis
    by (simp add: load32_def)
qed

lemma load32_cong:
  assumes "\<And>i. i < 4 \<Longrightarrow> m (a + of_nat i) = m' (a + of_nat i)"
  shows "load32 m a = load32 m' a"
  using assms [of 0] assms [of 1] assms [of 2] assms [of 3] by (simp add: load32_def)

section \<open>string.c\<close>

text \<open>The string instructions \<^verbatim>\<open>rep stosb\<close> and \<^verbatim>\<open>rep stosl\<close>.\<close>

primrec stosb :: "mem \<Rightarrow> u32 \<Rightarrow> u8 \<Rightarrow> nat \<Rightarrow> mem" where
  "stosb m a c 0 = m"
| "stosb m a c (Suc n) = stosb (m(a := c)) (a + 1) c n"

primrec stosl :: "mem \<Rightarrow> u32 \<Rightarrow> u32 \<Rightarrow> nat \<Rightarrow> mem" where
  "stosl m a v 0 = m"
| "stosl m a v (Suc n) = stosl (store32 m a v) (a + 4) v n"

definition memset :: "mem \<Rightarrow> u32 \<Rightarrow> u32 \<Rightarrow> u32 \<Rightarrow> mem" where
  "memset m dst c n =
     (if dst mod 4 = 0 \<and> n mod 4 = 0 then
        let c = c AND 0xFF
        in stosl m dst (push_bit 24 c OR push_bit 16 c OR push_bit 8 c OR c) (unat (n div 4))
      else stosb m dst (ucast c) (unat n))"

fun memcmp :: "mem \<Rightarrow> u32 \<Rightarrow> u32 \<Rightarrow> nat \<Rightarrow> int" where
  "memcmp m s1 s2 0 = 0"
| "memcmp m s1 s2 (Suc n) =
     (if m s1 \<noteq> m s2 then uint (m s1) - uint (m s2) else memcmp m (s1 + 1) (s2 + 1) n)"

primrec copy_up :: "mem \<Rightarrow> u32 \<Rightarrow> u32 \<Rightarrow> nat \<Rightarrow> mem" where
  "copy_up m d s 0 = m"
| "copy_up m d s (Suc n) = copy_up (m(d := m s)) (d + 1) (s + 1) n"

primrec copy_down :: "mem \<Rightarrow> u32 \<Rightarrow> u32 \<Rightarrow> nat \<Rightarrow> mem" where
  "copy_down m d s 0 = m"
| "copy_down m d s (Suc n) = copy_down (m(d - 1 := m (s - 1))) (d - 1) (s - 1) n"

definition memmove :: "mem \<Rightarrow> u32 \<Rightarrow> u32 \<Rightarrow> u32 \<Rightarrow> mem" where
  "memmove m dst src n =
     (if src < dst \<and> src + n > dst then copy_down m (dst + n) (src + n) (unat n)
      else copy_up m dst src (unat n))"

definition memcpy :: "mem \<Rightarrow> u32 \<Rightarrow> u32 \<Rightarrow> u32 \<Rightarrow> mem" where
  "memcpy m dst src n = memmove m dst src n"

fun strncmp :: "mem \<Rightarrow> u32 \<Rightarrow> u32 \<Rightarrow> nat \<Rightarrow> int" where
  "strncmp m p q 0 = 0"
| "strncmp m p q (Suc n) =
     (if m p \<noteq> 0 \<and> m p = m q then strncmp m (p + 1) (q + 1) n else uint (m p) - uint (m q))"

primrec strncpy_pad :: "mem \<Rightarrow> u32 \<Rightarrow> nat \<Rightarrow> mem" where
  "strncpy_pad m s 0 = m"
| "strncpy_pad m s (Suc n) = strncpy_pad (m(s := 0)) (s + 1) n"

primrec strncpy_copy :: "mem \<Rightarrow> u32 \<Rightarrow> u32 \<Rightarrow> nat \<Rightarrow> mem" where
  "strncpy_copy m s t 0 = m"
| "strncpy_copy m s t (Suc n) =
     (let c = m t; m = m(s := c)
      in if c \<noteq> 0 then strncpy_copy m (s + 1) (t + 1) n else strncpy_pad m (s + 1) n)"

definition strncpy :: "mem \<Rightarrow> u32 \<Rightarrow> u32 \<Rightarrow> int \<Rightarrow> mem" where
  "strncpy m s t n = strncpy_copy m s t (nat n)"

primrec safestrcpy_copy :: "mem \<Rightarrow> u32 \<Rightarrow> u32 \<Rightarrow> nat \<Rightarrow> mem" where
  "safestrcpy_copy m s t 0 = m(s := 0)"
| "safestrcpy_copy m s t (Suc n) =
     (let c = m t; m = m(s := c)
      in if c \<noteq> 0 then safestrcpy_copy m (s + 1) (t + 1) n else m(s + 1 := 0))"

definition safestrcpy :: "mem \<Rightarrow> u32 \<Rightarrow> u32 \<Rightarrow> int \<Rightarrow> mem" where
  "safestrcpy m s t n = (if n \<le> 0 then m else safestrcpy_copy m s t (nat (n - 1)))"

partial_function (option) strlen_from :: "mem \<Rightarrow> u32 \<Rightarrow> nat \<Rightarrow> nat option" where
  "strlen_from m s n = (if m (s + of_nat n) = 0 then Some n else strlen_from m s (Suc n))"

definition strlen :: "mem \<Rightarrow> u32 \<Rightarrow> nat option" where
  "strlen m s = strlen_from m s 0"

text \<open>
  The first \<open>n\<close> bytes at a pointer, a copy of a byte string to a pointer, and the C string that
  bytes start with.
\<close>

definition arr :: "mem \<Rightarrow> u32 \<Rightarrow> nat \<Rightarrow> bytes" where
  "arr m p n = map (\<lambda>i. m (p + of_nat i)) [0..<n]"

primrec store_bytes :: "mem \<Rightarrow> u32 \<Rightarrow> bytes \<Rightarrow> mem" where
  "store_bytes m a [] = m"
| "store_bytes m a (b # bs) = store_bytes (m(a := b)) (a + 1) bs"

definition cstr :: "bytes \<Rightarrow> bytes" where
  "cstr xs = takeWhile (\<lambda>c. c \<noteq> 0) xs"

definition disjoint_arr :: "u32 \<Rightarrow> u32 \<Rightarrow> nat \<Rightarrow> bool" where
  "disjoint_arr s t n \<longleftrightarrow> (\<forall>i<n. \<forall>j<n. s + of_nat i \<noteq> t + of_nat j)"

section \<open>What the loops leave in memory\<close>

lemma stosb_apply: "n \<le> 4294967296 \<Longrightarrow> stosb m a c n x = (if unat (x - a) < n then c else m x)"
proof (induction n arbitrary: m a)
  case 0
  then show ?case by simp
next
  case (Suc n)
  show ?case
  proof (cases "x = a")
    case True
    then show ?thesis
    proof -
      have "unat (a - (a + 1)) = 4294967295"
        by (simp add: unsigned_minus_1_eq_mask mask_eq_exp_minus_1)
      then show ?thesis using Suc True by simp
    qed
  next
    case False
    then have "x - a \<noteq> 0" by simp
    then have "unat (x - (a + 1)) = unat (x - a) - 1"
      by (metis diff_diff_add unat_minus_one)
    moreover have "unat (x - a) \<noteq> 0" using \<open>x - a \<noteq> 0\<close> by (simp add: unat_eq_zero)
    ultimately show ?thesis using Suc False by auto
  qed
qed

lemma u32_of_unat: "unat (w :: u32) = k \<Longrightarrow> w = of_nat k"
  by auto

lemma store32_apply:
  "store32 m a v x = (if unat (x - a) < 4 then ucast (drop_bit (8 * unat (x - a)) v) else m x)"
proof (cases "unat (x - a) < 4")
  case True
  then consider "unat (x - a) = 0" | "unat (x - a) = 1" | "unat (x - a) = 2" | "unat (x - a) = 3"
    by force
  then have "x - a = 0 \<or> x - a = 1 \<or> x - a = 2 \<or> x - a = 3"
    by cases (auto dest: u32_of_unat)
  then have "x = a \<or> x = a + 1 \<or> x = a + 2 \<or> x = a + 3" by (auto simp: algebra_simps)
  then show ?thesis by (auto simp: store32_def)
next
  case False
  then have "x \<noteq> a + of_nat i" if "i < 4" for i
    using that by (auto simp: unat_of_nat_u32)
  then show ?thesis using False by (simp add: store32_other)
qed

lemma stosl_apply:
  "4 * n \<le> 4294967296 \<Longrightarrow>
   stosl m a v n x = (if unat (x - a) < 4 * n then ucast (drop_bit (8 * (unat (x - a) mod 4)) v) else m x)"
proof (induction n arbitrary: m a)
  case 0
  then show ?case by simp
next
  case (Suc n)
  have IH: "stosl m a v (Suc n) x =
      (if unat (x - (a + 4)) < 4 * n then ucast (drop_bit (8 * (unat (x - (a + 4)) mod 4)) v)
       else if unat (x - a) < 4 then ucast (drop_bit (8 * unat (x - a)) v) else m x)"
    using Suc by (simp add: store32_apply)
  show ?case
  proof (cases "unat (x - a) < 4")
    case True
    have "unat ((x - a) - 4) = unat (x - a) + 4294967296 - 4"
      using True by (subst unat_sub_if') simp
    then have "\<not> unat (x - (a + 4)) < 4 * n"
      using Suc.prems by (simp add: diff_diff_add)
    moreover have "unat (x - a) mod 4 = unat (x - a)" "unat (x - a) < 4 * Suc n" using True by simp_all
    ultimately show ?thesis using True by (simp only: IH if_True if_False)
  next
    case False
    then have le: "4 \<le> x - a" by (simp add: word_le_nat_alt)
    have eq: "unat (x - (a + 4)) = unat (x - a) - 4"
      using unat_sub [OF le] by (simp add: diff_diff_add)
    have "(unat (x - a) - 4) mod 4 = unat (x - a) mod 4"
      using False by (simp add: le_mod_geq)
    moreover have "(unat (x - a) - 4 < 4 * n) = (unat (x - a) < 4 * Suc n)" using False by auto
    ultimately show ?thesis by (simp only: IH eq False if_False)
  qed
qed

lemma memset_byte: "k < 4 \<Longrightarrow>
  ucast (drop_bit (8 * k) (push_bit 24 (c AND 0xFF) OR push_bit 16 (c AND 0xFF) OR push_bit 8 (c AND 0xFF) OR (c AND 0xFF) :: u32)) = (ucast c :: u8)"
proof -
  assume "k < 4"
  then consider "k = 0" | "k = 1" | "k = 2" | "k = 3" by force
  moreover have "c AND 0xFF = take_bit 8 c"
    by (simp add: take_bit_eq_mask mask_eq_exp_minus_1)
  ultimately show ?thesis
    by cases (simp_all only:, (rule bit_word_eqI, auto simp: bit_simps)+)
qed

lemma memset_apply: "memset m dst c n x = (if x - dst < n then ucast c else m x)"
proof (cases "dst mod 4 = 0 \<and> n mod 4 = 0")
  case True
  have n4: "4 * unat (n div 4) = unat n"
  proof -
    have "unat n mod 4 = unat (n mod 4)" by (simp add: unat_mod)
    then have "unat n mod 4 = 0" using True by simp
    then show ?thesis by (simp add: unat_div) presburger
  qed
  define v where "v = (push_bit 24 (c AND 0xFF) OR push_bit 16 (c AND 0xFF) OR push_bit 8 (c AND 0xFF)
      OR (c AND 0xFF) :: u32)"
  have "memset m dst c n = stosl m dst v (unat (n div 4))"
    using True unfolding memset_def Let_def v_def by (simp only: if_True simp_thms)
  moreover have "ucast (drop_bit (8 * (unat (x - dst) mod 4)) v) = (ucast c :: u8)"
    unfolding v_def by (rule memset_byte) simp
  ultimately show ?thesis
    using n4 unat_u32_less [of n] by (simp add: stosl_apply word_less_nat_alt)
next
  case False
  then show ?thesis
    using unat_u32_less [of n] by (auto simp: memset_def stosb_apply word_less_nat_alt)
qed

lemma copy_up_apply:
  assumes "unat s + n \<le> 4294967296" and "unat d + n \<le> 4294967296" and "d \<le> s \<or> unat s + n \<le> unat d"
  shows "copy_up m d s n x = (if unat (x - d) < n then m (s + (x - d)) else m x)"
  using assms
proof (induction n arbitrary: m d s)
  case 0
  then show ?case by simp
next
  case (Suc n)
  show ?case
  proof (cases "n = 0")
    case True
    then show ?thesis by (auto simp: unat_eq_zero)
  next
    case False
    then have d1: "unat (d + 1) = unat d + 1" and s1: "unat (s + 1) = unat s + 1"
      using Suc.prems by (auto intro: unat_add_small [of _ 1, simplified])
    have IH: "copy_up (m(d := m s)) (d + 1) (s + 1) n x =
      (if unat (x - (d + 1)) < n then (m(d := m s)) (s + 1 + (x - (d + 1))) else (m(d := m s)) x)"
      by (rule Suc.IH) (use Suc.prems d1 s1 in \<open>auto simp: word_le_nat_alt\<close>)
    show ?thesis
    proof (cases "x = d")
      case True
      have "unat (d - (d + 1)) = 4294967295"
        by (simp add: unsigned_minus_1_eq_mask mask_eq_exp_minus_1)
      then show ?thesis using IH True Suc.prems by simp
    next
      case xd: False
      then have nz: "x - d \<noteq> 0" by simp
      then have m1: "unat (x - (d + 1)) = unat (x - d) - 1"
        by (metis diff_diff_add unat_minus_one)
      have nz': "unat (x - d) \<noteq> 0" using nz by (simp add: unat_eq_zero)
      have "s + 1 + (x - (d + 1)) = s + (x - d)" by simp
      moreover have "s + (x - d) \<noteq> d" if "unat (x - d) < Suc n"
      proof
        assume eq: "s + (x - d) = d"
        have "unat (s + (x - d)) = unat s + unat (x - d)"
          using that Suc.prems by (intro unat_add_small) simp
        then show False using eq that Suc.prems nz' by (auto simp: word_le_nat_alt)
      qed
      ultimately show ?thesis using IH xd m1 nz' by auto
    qed
  qed
qed

lemma copy_down_apply:
  assumes "unat s + n \<le> 4294967296" and "unat d + n \<le> 4294967296" and "s \<le> d \<or> unat d + n \<le> unat s"
  shows "copy_down m (d + of_nat n) (s + of_nat n) n x = (if unat (x - d) < n then m (s + (x - d)) else m x)"
  using assms
proof (induction n arbitrary: m)
  case 0
  then show ?case by simp
next
  case (Suc n)
  let ?m = "m(d + of_nat n := m (s + of_nat n))"
  have IH: "copy_down m (d + of_nat (Suc n)) (s + of_nat (Suc n)) (Suc n) x =
      (if unat (x - d) < n then ?m (s + (x - d)) else ?m x)"
  proof -
    have "copy_down m (d + of_nat (Suc n)) (s + of_nat (Suc n)) (Suc n) =
        copy_down ?m (d + of_nat n) (s + of_nat n) n"
      by simp
    moreover have "copy_down ?m (d + of_nat n) (s + of_nat n) n x =
        (if unat (x - d) < n then ?m (s + (x - d)) else ?m x)"
      by (rule Suc.IH) (use Suc.prems in auto)
    ultimately show ?thesis by (simp only:)
  qed
  have n: "unat (of_nat n :: u32) = n" using Suc.prems by (intro unat_of_nat_u32) simp
  show ?case
  proof (cases "unat (x - d) < n")
    case True
    have "unat (s + (x - d)) = unat s + unat (x - d)"
      using True Suc.prems by (intro unat_add_small) simp
    moreover have "unat (d + of_nat n) = unat d + n"
      using Suc.prems n by (subst unat_add_small) simp_all
    moreover have "unat s \<le> unat d \<or> unat d + Suc n \<le> unat s"
      using Suc.prems by (simp add: word_le_nat_alt)
    ultimately have "unat (s + (x - d)) \<noteq> unat (d + of_nat n)"
      using True by linarith
    then have "s + (x - d) \<noteq> d + of_nat n" by metis
    then show ?thesis using IH True by simp
  next
    case False
    show ?thesis
    proof (cases "x = d + of_nat n")
      case True
      then show ?thesis using IH n by simp
    next
      case xd: False
      then have "unat (x - d) \<noteq> n"
        by (metis diff_add_cancel add.commute u32_of_unat)
      then show ?thesis using IH False xd by simp
    qed
  qed
qed

lemma memmove_apply:
  assumes "unat src + unat n \<le> 4294967296" and "unat dst + unat n \<le> 4294967296"
  shows "memmove m dst src n x = (if x - dst < n then m (src + (x - dst)) else m x)"
proof (cases "src < dst \<and> src + n > dst")
  case True
  have "copy_down m (dst + of_nat (unat n)) (src + of_nat (unat n)) (unat n) x =
      (if unat (x - dst) < unat n then m (src + (x - dst)) else m x)"
    using assms True by (intro copy_down_apply) auto
  then show ?thesis using True by (simp add: memmove_def word_less_nat_alt)
next
  case False
  have "dst \<le> src \<or> unat src + unat n \<le> unat dst"
  proof (cases "unat src + unat n < 4294967296")
    case True
    then have "unat (src + n) = unat src + unat n" by (rule unat_add_small)
    then show ?thesis using False by (auto simp: word_le_nat_alt word_less_nat_alt)
  next
    case full: False
    then have "unat src + unat n = 4294967296" using assms by simp
    then show ?thesis using assms by (auto simp: word_le_nat_alt)
  qed
  then have "copy_up m dst src (unat n) x = (if unat (x - dst) < unat n then m (src + (x - dst)) else m x)"
    using assms by (intro copy_up_apply) auto
  then show ?thesis using False by (auto simp: memmove_def word_less_nat_alt)
qed

lemma length_arr [simp]: "length (arr m p n) = n"
  by (simp add: arr_def)

lemma nth_arr [simp]: "i < n \<Longrightarrow> arr m p n ! i = m (p + of_nat i)"
  by (simp add: arr_def)

lemma arr_0 [simp]: "arr m p 0 = []"
  by (simp add: arr_def)

lemma arr_Suc [simp]: "arr m p (Suc n) = m p # arr m (p + 1) n"
  by (simp add: arr_def upt_conv_Cons map_Suc_upt [symmetric] comp_def algebra_simps
      del: upt_Suc)

lemma cstr_Nil [simp]: "cstr [] = []"
  by (simp add: cstr_def)

lemma cstr_Cons [simp]: "cstr (c # cs) = (if c = 0 then [] else c # cstr cs)"
  by (simp add: cstr_def)

lemma arr_cong: "(\<And>i. i < n \<Longrightarrow> m (p + of_nat i) = m' (p + of_nat i)) \<Longrightarrow> arr m p n = arr m' p n"
  by (simp add: arr_def)

lemma strncmp_eq_0_iff: "strncmp m p q n = 0 \<longleftrightarrow> cstr (arr m p n) = cstr (arr m q n)"
proof (induction n arbitrary: p q)
  case 0
  then show ?case by simp
next
  case (Suc n)
  then show ?case by (auto simp: uint_0_iff dest: unsigned_word_eqI)
qed

lemma unat_diff_Suc:
  assumes "x \<noteq> (a :: u32)"
  shows "unat (x - a) = Suc (unat (x - (a + 1)))"
proof -
  have nz: "x - a \<noteq> 0" using assms by simp
  have "x - (a + 1) = x - a - 1" by simp
  then have "unat (x - (a + 1)) = unat (x - a) - 1"
    by (simp only: unat_minus_one [OF nz])
  moreover have "unat (x - a) \<noteq> 0" using assms by (simp add: unat_eq_zero)
  ultimately show ?thesis by simp
qed

lemma unat_self_minus_one: "unat (a - (a + 1) :: u32) = 4294967295"
  by (simp add: unsigned_minus_1_eq_mask mask_eq_exp_minus_1)

lemma strncpy_pad_apply:
  "n \<le> 4294967296 \<Longrightarrow> strncpy_pad m s n x = (if unat (x - s) < n then 0 else m x)"
proof -
  have "strncpy_pad m s n = stosb m s 0 n" by (induction n arbitrary: m s) auto
  then show "n \<le> 4294967296 \<Longrightarrow> ?thesis" by (simp add: stosb_apply)
qed

lemma disjoint_arr_Suc:
  assumes "disjoint_arr s t (Suc n)"
  shows "disjoint_arr (s + 1) (t + 1) n" and "i < Suc n \<Longrightarrow> t + of_nat i \<noteq> s"
    and "s \<noteq> t"
proof -
  have d: "s + of_nat i \<noteq> t + of_nat j" if "i < Suc n" "j < Suc n" for i j
    using assms that by (auto simp: disjoint_arr_def)
  have "s + 1 + of_nat i \<noteq> t + 1 + of_nat j" if "i < n" "j < n" for i j
    using d [of "Suc i" "Suc j"] that by (simp add: algebra_simps)
  then show "disjoint_arr (s + 1) (t + 1) n" by (simp add: disjoint_arr_def)
  show "i < Suc n \<Longrightarrow> t + of_nat i \<noteq> s" using d [of 0 i] by force
  show "s \<noteq> t" using d [of 0 0] by simp
qed

lemma strncpy_copy_apply:
  "n \<le> 4294967296 \<Longrightarrow> disjoint_arr s t n \<Longrightarrow>
   strncpy_copy m s t n x =
     (if unat (x - s) < n
      then (if unat (x - s) < length (cstr (arr m t n)) then m (t + (x - s)) else 0) else m x)"
proof (induction n arbitrary: m s t)
  case 0
  then show ?case by simp
next
  case (Suc n)
  note dj = disjoint_arr_Suc [OF Suc.prems(2)]
  have arr: "arr (m(s := m t)) (t + 1) n = arr m (t + 1) n"
  proof (rule arr_cong)
    fix i assume "i < n"
    then have "t + of_nat (Suc i) \<noteq> s" by (intro dj(2)) simp
    then show "(m(s := m t)) (t + 1 + of_nat i) = m (t + 1 + of_nat i)"
      by (simp add: algebra_simps)
  qed
  show ?case
  proof (cases "m t = 0")
    case True
    then show ?thesis
      using Suc.prems unat_diff_Suc [of x s] unat_self_minus_one [of s]
      by (cases "x = s") (auto simp: strncpy_pad_apply)
  next
    case False
    have IH: "strncpy_copy (m(s := m t)) (s + 1) (t + 1) n x =
        (if unat (x - (s + 1)) < n
         then (if unat (x - (s + 1)) < length (cstr (arr m (t + 1) n))
               then (m(s := m t)) (t + 1 + (x - (s + 1))) else 0) else (m(s := m t)) x)"
      using Suc.IH [OF _ dj(1), of "m(s := m t)"] Suc.prems(1) by (simp only: arr)
    show ?thesis
    proof (cases "x = s")
      case True
      then show ?thesis using IH Suc.prems False unat_self_minus_one [of s] by simp
    next
      case xs: False
      have t: "t + 1 + (x - (s + 1)) = t + (x - s)" by simp
      have "t + (x - s) \<noteq> s" if "unat (x - s) < Suc n"
        using dj(2) [OF that] by simp
      then show ?thesis using IH xs False unat_diff_Suc [OF xs] t by auto
    qed
  qed
qed

lemma strncpy_arr:
  assumes "0 \<le> n" and "n \<le> 4294967296" and "disjoint_arr s t (nat n)"
  shows "arr (strncpy m s t n) s (nat n) = take (nat n) (cstr (arr m t (nat n)) @ replicate (nat n) 0)"
proof (rule nth_equalityI)
  let ?c = "cstr (arr m t (nat n))"
  have len: "length ?c \<le> nat n" unfolding cstr_def by (rule order_trans [OF length_takeWhile_le]) simp
  show "length (arr (strncpy m s t n) s (nat n)) = length (take (nat n) (?c @ replicate (nat n) 0))"
    by simp
  fix i assume "i < length (arr (strncpy m s t n) s (nat n))"
  then have i: "i < nat n" by simp
  then have u: "unat (of_nat i :: u32) = i" using assms by (intro unat_of_nat_u32) simp
  have "arr (strncpy m s t n) s (nat n) ! i = (if i < length ?c then m (t + of_nat i) else 0)"
    using i u assms by (simp add: strncpy_def strncpy_copy_apply)
  also have "\<dots> = take (nat n) (?c @ replicate (nat n) 0) ! i"
    using i len by (auto simp: nth_append cstr_def takeWhile_nth)
  finally show "arr (strncpy m s t n) s (nat n) ! i = take (nat n) (?c @ replicate (nat n) 0) ! i" .
qed

lemma safestrcpy_copy_apply:
  "n < 4294967296 \<Longrightarrow> disjoint_arr s t (Suc n) \<Longrightarrow>
   (let l = length (cstr (arr m t n)) in
     (unat (x - s) < l \<longrightarrow> safestrcpy_copy m s t n x = m (t + (x - s))) \<and>
     (unat (x - s) = l \<longrightarrow> safestrcpy_copy m s t n x = 0) \<and>
     (n < unat (x - s) \<longrightarrow> safestrcpy_copy m s t n x = m x))"
proof (induction n arbitrary: m s t)
  case 0
  then show ?case by (auto simp: unat_eq_zero)
next
  case (Suc n)
  note dj = disjoint_arr_Suc [OF Suc.prems(2)]
  have arr: "arr (m(s := m t)) (t + 1) n = arr m (t + 1) n"
  proof (rule arr_cong)
    fix i assume "i < n"
    then have "t + of_nat (Suc i) \<noteq> s" by (intro dj(2)) simp
    then show "(m(s := m t)) (t + 1 + of_nat i) = m (t + 1 + of_nat i)"
      by (simp add: algebra_simps)
  qed
  show ?case
  proof (cases "m t = 0")
    case True
    have "unat (s + 1 - s) = 1" by simp
    with True show ?thesis
      by (auto simp: unat_eq_zero Let_def)
  next
    case False
    define l where "l = length (cstr (arr m (t + 1) n))"
    have IH: "(unat (x - (s + 1)) < l \<longrightarrow> safestrcpy_copy (m(s := m t)) (s + 1) (t + 1) n x
             = (m(s := m t)) (t + 1 + (x - (s + 1)))) \<and>
     (unat (x - (s + 1)) = l \<longrightarrow> safestrcpy_copy (m(s := m t)) (s + 1) (t + 1) n x = 0) \<and>
     (n < unat (x - (s + 1)) \<longrightarrow> safestrcpy_copy (m(s := m t)) (s + 1) (t + 1) n x = (m(s := m t)) x)"
      using Suc.IH [OF Suc_lessD [OF Suc.prems(1)] dj(1), of "m(s := m t)"]
      by (simp only: arr Let_def l_def)
    have ln: "l \<le> n" unfolding l_def cstr_def by (rule order_trans [OF length_takeWhile_le]) simp
    show ?thesis
    proof (cases "x = s")
      case True
      then show ?thesis using IH Suc.prems False unat_self_minus_one [of s] by (simp add: Let_def)
    next
      case xs: False
      have t: "t + 1 + (x - (s + 1)) = t + (x - s)" by simp
      have "t + (x - s) \<noteq> s" if "unat (x - s) < Suc (Suc n)"
        using dj(2) [OF that] by simp
      then show ?thesis using IH xs False unat_diff_Suc [OF xs] t ln
        by (auto simp: Let_def l_def [symmetric])
    qed
  qed
qed

lemma strlen_from_eq:
  "m (s + of_nat (n + k)) = 0 \<Longrightarrow> (\<And>i. i < k \<Longrightarrow> m (s + of_nat (n + i)) \<noteq> 0) \<Longrightarrow>
   strlen_from m s n = Some (n + k)"
proof (induction k arbitrary: n)
  case 0
  then show ?case by (simp add: strlen_from.simps)
next
  case (Suc k)
  have "m (s + of_nat (Suc n + k)) = 0" using Suc.prems(1) by (simp only: add_Suc_right add_Suc)
  moreover have "m (s + of_nat (Suc n + i)) \<noteq> 0" if "i < k" for i
    using Suc.prems(2) [of "Suc i"] that by (simp only: add_Suc_right add_Suc Suc_less_eq not_False_eq_True)
  ultimately have "strlen_from m s (Suc n) = Some (Suc n + k)"
    by (rule Suc.IH)
  moreover have "m (s + of_nat n) \<noteq> 0" using Suc.prems(2) [of 0] by simp
  ultimately show ?case by (simp add: strlen_from.simps [of m s n])
qed

lemma store_bytes_apply:
  "length bs \<le> 4294967296 \<Longrightarrow> store_bytes m a bs x = (if unat (x - a) < length bs then bs ! unat (x - a) else m x)"
proof (induction bs arbitrary: m a)
  case Nil
  then show ?case by simp
next
  case (Cons b bs)
  note IH = Cons.IH [of "m(a := b)" "a + 1"]
  show ?case
  proof (cases "x = a")
    case True
    then show ?thesis using IH Cons.prems unat_self_minus_one [of a] by (simp add: fun_upd_def)
  next
    case False
    then show ?thesis using IH Cons.prems unat_diff_Suc [OF False] by (simp add: fun_upd_def)
  qed
qed

end
