(* ===== verification/Mmu.thy ===== *)
theory Mmu
  imports CMem
begin

text \<open>
  The address layout of \<^verbatim>\<open>mmu.h\<close> and \<^verbatim>\<open>memlayout.h\<close>: page directory and page
  table indexes, rounding to pages, the address and the flags of a page table entry, the kernel's
  direct map, and the segment and gate descriptors with their bit fields. The lemmas read each
  macro as division and remainder on unsigned values.
\<close>

section \<open>memlayout.h and mmu.h\<close>

abbreviation (input) EXTMEM :: u32 where "EXTMEM \<equiv> 0x100000"
abbreviation (input) PHYSTOP :: u32 where "PHYSTOP \<equiv> 0xE000000"
abbreviation (input) DEVSPACE :: u32 where "DEVSPACE \<equiv> 0xFE000000"
abbreviation (input) KERNBASE :: u32 where "KERNBASE \<equiv> 0x80000000"
abbreviation (input) KERNLINK :: u32 where "KERNLINK \<equiv> 0x80100000"
abbreviation (input) PGSIZE :: u32 where "PGSIZE \<equiv> 4096"
abbreviation (input) PTE_P :: u32 where "PTE_P \<equiv> 0x001"
abbreviation (input) PTE_W :: u32 where "PTE_W \<equiv> 0x002"
abbreviation (input) PTE_U :: u32 where "PTE_U \<equiv> 0x004"

definition V2P :: "u32 \<Rightarrow> u32" where
  "V2P a = a - KERNBASE"

definition P2V :: "u32 \<Rightarrow> u32" where
  "P2V a = a + KERNBASE"

definition PDX :: "u32 \<Rightarrow> u32" where
  "PDX va = drop_bit 22 va AND 0x3FF"

definition PTX :: "u32 \<Rightarrow> u32" where
  "PTX va = drop_bit 12 va AND 0x3FF"

definition PGADDR :: "u32 \<Rightarrow> u32 \<Rightarrow> u32 \<Rightarrow> u32" where
  "PGADDR d t o' = push_bit 22 d OR push_bit 12 t OR o'"

definition PGROUNDUP :: "u32 \<Rightarrow> u32" where
  "PGROUNDUP sz = (sz + PGSIZE - 1) AND NOT (PGSIZE - 1)"

definition PGROUNDDOWN :: "u32 \<Rightarrow> u32" where
  "PGROUNDDOWN a = a AND NOT (PGSIZE - 1)"

definition PTE_ADDR :: "u32 \<Rightarrow> u32" where
  "PTE_ADDR pte = pte AND NOT 0xFFF"

definition PTE_FLAGS :: "u32 \<Rightarrow> u32" where
  "PTE_FLAGS pte = pte AND 0xFFF"

section \<open>Values of the macros\<close>

lemma and_FFF: "(a :: u32) AND 0xFFF = take_bit 12 a"
  by (simp add: take_bit_eq_mask mask_eq_exp_minus_1)

lemma and_3FF: "(a :: u32) AND 0x3FF = take_bit 10 a"
  by (simp add: take_bit_eq_mask mask_eq_exp_minus_1)

lemma and_not_FFF: "(a :: u32) AND NOT 0xFFF = push_bit 12 (drop_bit 12 a)"
proof -
  have "a AND NOT (mask 12) = push_bit 12 (drop_bit 12 a)"
    by (rule bit_word_eqI) (auto simp: bit_simps)
  moreover have "(mask 12 :: u32) = 0xFFF" by (simp add: mask_eq_exp_minus_1)
  ultimately show ?thesis by (simp only:)
qed

lemma unat_and_not_FFF: "unat ((a :: u32) AND NOT 0xFFF) = unat a div 4096 * 4096"
proof -
  have "unat a div 4096 * 4096 < 4294967296"
    using unat_u32_less [of a] by (meson div_times_less_eq_dividend le_less_trans)
  then show ?thesis
    by (simp only: and_not_FFF)
      (simp add: unsigned_push_bit_eq drop_bit_eq_div push_bit_eq_mult take_bit_nat_eq_self
        unat_word_ariths unat_div)
qed

lemma unat_PGROUNDDOWN [addr_simps]: "unat (PGROUNDDOWN a) = unat a div 4096 * 4096"
  using unat_and_not_FFF [of a] by (simp add: PGROUNDDOWN_def)

lemma unat_PTE_ADDR [addr_simps]: "unat (PTE_ADDR a) = unat a div 4096 * 4096"
  using unat_and_not_FFF [of a] by (simp add: PTE_ADDR_def)

lemma unat_PTE_FLAGS [addr_simps]: "unat (PTE_FLAGS a) = unat a mod 4096"
  by (simp add: PTE_FLAGS_def and_FFF unsigned_take_bit_eq take_bit_nat_def)

lemma unat_PDX [addr_simps]: "unat (PDX va) = unat va div 4194304"
proof -
  have "unat va div 4194304 < 1024" using unat_u32_less [of va] by simp
  then show ?thesis
    by (simp add: PDX_def and_3FF unsigned_take_bit_eq take_bit_nat_def drop_bit_eq_div unat_div)
qed

lemma unat_PTX [addr_simps]: "unat (PTX va) = unat va div 4096 mod 1024"
  by (simp add: PTX_def and_3FF unsigned_take_bit_eq take_bit_nat_def drop_bit_eq_div unat_div)

lemma unat_PGROUNDUP [addr_simps]:
  assumes "unat sz + 4095 < 4294967296"
  shows "unat (PGROUNDUP sz) = (unat sz + 4095) div 4096 * 4096"
proof -
  have "unat (sz + 4096 - 1) = unat sz + 4095"
    using unat_add_small [of sz 4095] assms by (simp add: add_diff_eq [symmetric])
  moreover have "PGROUNDUP sz = (sz + 4096 - 1) AND NOT 0xFFF"
    by (simp add: PGROUNDUP_def)
  ultimately show ?thesis by (simp only: unat_and_not_FFF)
qed

lemma PGROUNDDOWN_eq_PTE_ADDR: "PGROUNDDOWN a = PTE_ADDR a"
  by (simp add: PGROUNDDOWN_def PTE_ADDR_def)

lemma u32_eqI: "unat (a :: u32) = unat b \<Longrightarrow> a = b"
  by (rule unsigned_word_eqI)

definition aligned :: "u32 \<Rightarrow> bool" where
  "aligned a \<longleftrightarrow> a mod PGSIZE = 0"

lemma aligned_unat: "aligned a \<longleftrightarrow> unat a mod 4096 = 0"
proof -
  have "a mod 4096 = 0 \<longleftrightarrow> unat (a mod 4096) = 0" by (simp add: unat_eq_zero)
  then show ?thesis by (simp add: aligned_def unat_mod)
qed

lemma aligned_0 [simp]: "aligned 0"
  by (simp add: aligned_def)

lemma aligned_PTE_ADDR [simp]: "aligned (PTE_ADDR a)"
  by (simp add: aligned_unat addr_simps)

lemma aligned_PGROUNDDOWN [simp]: "aligned (PGROUNDDOWN a)"
  by (simp add: aligned_unat addr_simps)

lemma PTE_ADDR_id: "aligned a \<Longrightarrow> PTE_ADDR a = a"
  by (rule u32_eqI) (auto simp: aligned_unat addr_simps)

lemma aligned_page_bound: "aligned a \<Longrightarrow> unat a + 4096 \<le> 4294967296"
  using unat_u32_less [of a] by (auto simp: aligned_unat)

lemma unat_V2P: "KERNBASE \<le> v \<Longrightarrow> unat (V2P v) = unat v - 2147483648"
  unfolding V2P_def by (subst unat_sub) simp_all

lemma P2V_V2P [simp]: "P2V (V2P v) = v"
  by (simp add: P2V_def V2P_def)

lemma V2P_P2V [simp]: "V2P (P2V v) = v"
  by (simp add: P2V_def V2P_def)

lemma aligned_P2V [simp]: "aligned (P2V a) \<longleftrightarrow> aligned a"
proof -
  have "unat (P2V a) = (unat a + 2147483648) mod 4294967296"
    by (simp add: P2V_def unat_word_ariths)
  moreover have "(x mod 4294967296) mod 4096 = x mod 4096" for x :: nat
    by (rule mod_mod_cancel) simp
  moreover have "(unat a + 2147483648) mod 4096 = unat a mod 4096"
    using mod_add_right_eq [of "unat a" 2147483648 4096] by simp
  ultimately have "unat (P2V a) mod 4096 = unat a mod 4096" by simp
  then show ?thesis by (simp add: aligned_unat)
qed

lemma aligned_V2P [simp]: "aligned (V2P a) \<longleftrightarrow> aligned a"
  using aligned_P2V [of "V2P a"] by simp

text \<open>A page table entry: a page-aligned address and flags below it.\<close>

lemma PTE_ADDR_OR:
  assumes "aligned pa" and "fl < PGSIZE"
  shows "PTE_ADDR (pa OR fl) = pa" and "PTE_FLAGS (pa OR fl) = fl"
proof -
  have pa: "pa = push_bit 12 (drop_bit 12 pa)"
    using PTE_ADDR_id [OF assms(1)] and_not_FFF [of pa] by (simp add: PTE_ADDR_def)
  have fl: "fl = take_bit 12 fl"
  proof (rule u32_eqI)
    have "unat fl < 4096" using assms(2) by (simp add: word_less_nat_alt)
    then show "unat fl = unat (take_bit 12 fl)" by (simp add: unsigned_take_bit_eq take_bit_nat_def)
  qed
  have b1: "bit pa n \<Longrightarrow> 12 \<le> n" for n
    by (subst (asm) pa) (simp add: bit_simps)
  have b2: "bit fl n \<Longrightarrow> n < 12" for n
    by (subst (asm) fl) (simp add: bit_simps)
  show "PTE_ADDR (pa OR fl) = pa"
    unfolding PTE_ADDR_def and_not_FFF
  proof (rule bit_word_eqI)
    fix n
    assume "n < LENGTH(32)"
    then show "bit (push_bit 12 (drop_bit 12 (pa OR fl))) n = bit pa n"
      using b1 [of n] b2 [of n] by (cases "12 \<le> n") (auto simp: bit_simps)
  qed
  show "PTE_FLAGS (pa OR fl) = fl"
    unfolding PTE_FLAGS_def and_FFF by (rule bit_word_eqI) (auto simp: bit_simps dest: b1 b2)
qed

lemma PTE_ADDR_OR_FLAGS: "PTE_ADDR p OR PTE_FLAGS p = p"
  unfolding PTE_ADDR_def PTE_FLAGS_def and_not_FFF and_FFF
  by (rule bit_word_eqI) (auto simp: bit_simps)

lemma PGADDR_roundtrip: "PGADDR (PDX va) (PTX va) (PTE_FLAGS va) = va"
  unfolding PGADDR_def PDX_def PTX_def PTE_FLAGS_def and_FFF and_3FF
proof (rule bit_word_eqI)
  fix n
  assume "n < LENGTH(32)"
  then consider "n < 12" | "12 \<le> n" "n < 22" | "22 \<le> n" "n < 32" by force
  then show "bit (push_bit 22 (take_bit 10 (drop_bit 22 va)) OR push_bit 12 (take_bit 10 (drop_bit 12 va))
      OR take_bit 12 va) n = bit va n"
    by cases (auto simp: bit_simps)
qed

section \<open>The bytes of a page\<close>

definition in_page :: "u32 \<Rightarrow> u32 \<Rightarrow> bool" where
  "in_page p x \<longleftrightarrow> x - p < PGSIZE"

text \<open>A whole word inside a page.\<close>

definition in_page4 :: "u32 \<Rightarrow> u32 \<Rightarrow> bool" where
  "in_page4 p a \<longleftrightarrow> a - p \<le> 4092"

lemma in_page_iff: "aligned p \<Longrightarrow> in_page p x \<longleftrightarrow> PTE_ADDR x = p"
proof
  assume al: "aligned p" and "in_page p x"
  then have less: "unat (x - p) < 4096" by (simp add: in_page_def word_less_nat_alt)
  have "unat (p + (x - p)) = unat p + unat (x - p)"
    using less aligned_page_bound [OF al] by (intro unat_add_small) simp
  then have "unat x = unat p + unat (x - p)" by simp
  moreover obtain k where "unat p = k * 4096" using al by (auto simp: aligned_unat)
  ultimately have "unat (PTE_ADDR x) = unat p" using less by (simp add: addr_simps)
  then show "PTE_ADDR x = p" by (rule u32_eqI)
next
  assume "PTE_ADDR x = p"
  then have p: "unat p = unat x div 4096 * 4096" by (auto simp: addr_simps)
  then have le: "p \<le> x" by (simp add: word_le_nat_alt)
  have "unat (x - p) = unat x mod 4096"
    using unat_sub [OF le] p by (simp add: minus_div_mult_eq_mod)
  then show "in_page p x" by (simp add: in_page_def word_less_nat_alt)
qed

lemma in_page_disjoint: "aligned p \<Longrightarrow> aligned q \<Longrightarrow> in_page p x \<Longrightarrow> in_page q x \<Longrightarrow> p = q"
  by (simp add: in_page_iff)

lemma in_page4_byte:
  assumes "in_page4 p a" and "i < 4"
  shows "in_page p (a + of_nat i)"
proof -
  have "unat (a - p) \<le> 4092" using assms(1) by (simp add: in_page4_def word_le_nat_alt)
  moreover have i: "unat (of_nat i :: u32) = i" using assms(2) by (simp add: unat_of_nat_u32)
  ultimately have "unat (a - p + of_nat i) = unat (a - p) + i"
    using assms(2) by (subst unat_add_small) simp_all
  then have "unat (a + of_nat i - p) < 4096"
    using \<open>unat (a - p) \<le> 4092\<close> assms(2) by (simp add: add_diff_eq diff_add_eq)
  then show ?thesis by (simp add: in_page_def word_less_nat_alt)
qed

lemma in_page4_base [simp]: "in_page4 p p"
  by (simp add: in_page4_def)

lemma in_page4_entry: "unat i < 1024 \<Longrightarrow> in_page4 p (p + 4 * i)"
proof -
  assume "unat i < 1024"
  then have "unat (4 * i) = 4 * unat i" by (simp add: unat_word_ariths)
  then have "unat (4 * i) \<le> 4092" using \<open>unat i < 1024\<close> by simp
  then show ?thesis by (simp add: in_page4_def word_le_nat_alt)
qed

lemma load32_page_cong:
  "in_page4 p a \<Longrightarrow> (\<And>x. in_page p x \<Longrightarrow> m x = m' x) \<Longrightarrow> load32 m a = load32 m' a"
  by (rule load32_cong) (simp add: in_page4_byte)

lemma store32_frame: "in_page4 p a \<Longrightarrow> \<not> in_page p x \<Longrightarrow> store32 m a v x = m x"
  by (rule store32_other) (auto simp: in_page4_byte)

lemma memset_page: "memset m p c PGSIZE x = (if in_page p x then ucast c else m x)"
  by (simp add: memset_apply in_page_def)

lemma load32_other_page:
  "aligned p \<Longrightarrow> aligned q \<Longrightarrow> p \<noteq> q \<Longrightarrow> in_page4 q a \<Longrightarrow> (\<And>x. \<not> in_page p x \<Longrightarrow> m' x = m x) \<Longrightarrow>
   load32 m' a = load32 m a"
  by (rule load32_page_cong [of q]) (auto dest: in_page_disjoint)

lemma load32_zero_page: "in_page4 p a \<Longrightarrow> (\<And>x. in_page p x \<Longrightarrow> m x = 0) \<Longrightarrow> load32 m a = 0"
  using load32_page_cong [of p a m "\<lambda>_. 0"] by (simp add: load32_def)

end
