(* ===== verification/Kalloc.thy ===== *)
theory Kalloc
  imports Mmu Locks
begin

text \<open>
  \<^verbatim>\<open>kalloc.c\<close>: the allocator of 4096-byte physical pages. The free list runs through the
  free pages themselves: the first word of a free page is the address of the next one. \<open>kend\<close>
  is the linker's symbol \<^verbatim>\<open>end\<close>, the first address after the kernel image.

  \<open>kmem_inv s ps\<close> says that the free list of \<open>s\<close> is \<open>ps\<close>: pages the allocator may own, each
  once. The lemmas give the effect of each function on \<open>ps\<close> and on memory.
\<close>

record kmem = kbase +
  mem :: mem
  kend :: u32
  use_lock :: bool
  freelist :: u32

definition kfree :: "u32 \<Rightarrow> 'z kmem_scheme \<Rightarrow> ('z kmem_scheme, unit) outcome" where
  "kfree v s =
     (if v mod PGSIZE \<noteq> 0 \<or> v < kend s \<or> V2P v \<ge> PHYSTOP then Panic ''kfree''
      else let s = s\<lparr>mem := memset (mem s) v 1 PGSIZE\<rparr> in
        bind (if use_lock s then lock KMEM s else Done () s) (\<lambda>_ s.
        let s = s\<lparr>mem := store32 (mem s) v (freelist s)\<rparr>;
            s = s\<lparr>freelist := v\<rparr>
        in if use_lock s then unlock KMEM s else Done () s))"

definition kalloc :: "'z kmem_scheme \<Rightarrow> ('z kmem_scheme, u32) outcome" where
  "kalloc s =
     bind (if use_lock s then lock KMEM s else Done () s) (\<lambda>_ s.
     let r = freelist s;
         s = (if r \<noteq> 0 then s\<lparr>freelist := load32 (mem s) r\<rparr> else s)
     in bind (if use_lock s then unlock KMEM s else Done () s) (\<lambda>_ s. Done r s))"

definition page_ok :: "'z kmem_scheme \<Rightarrow> u32 \<Rightarrow> bool" where
  "page_ok s v \<longleftrightarrow> aligned v \<and> kend s \<le> v \<and> V2P v < PHYSTOP"

lemma kfree_page_ok: "kfree v s = Done u t \<Longrightarrow> page_ok s v"
  by (auto simp: kfree_def page_ok_def aligned_def not_less not_le split: if_splits)

lemma page_ok_bounds:
  assumes "page_ok s v"
  shows "2147483648 \<le> unat v" and "unat v + 4096 \<le> 2382364672" and "v \<noteq> 0" and "KERNBASE \<le> v"
proof -
  have v: "V2P v < PHYSTOP" "aligned v" using assms by (auto simp: page_ok_def)
  have p: "unat (V2P v) < 234881024" using v(1) by (simp add: word_less_nat_alt)
  have "v = V2P v + KERNBASE" by (simp add: V2P_def)
  then have u: "unat v = unat (V2P v) + 2147483648"
    using p unat_add_small [of "V2P v" KERNBASE] by simp
  then show "2147483648 \<le> unat v" by simp
  then show "v \<noteq> 0" by (auto simp: unat_0)
  have "unat v mod 4096 = 0" using v(2) by (simp add: aligned_unat)
  then show "unat v + 4096 \<le> 2382364672" using u p by (intro multiple_less) simp_all
  show "KERNBASE \<le> v" using u by (simp add: word_le_nat_alt)
qed

function freerange_loop :: "u32 \<Rightarrow> u32 \<Rightarrow> 'z kmem_scheme \<Rightarrow> ('z kmem_scheme, unit) outcome" where
  "freerange_loop p vend s =
     (if p + PGSIZE \<le> vend then bind (kfree p s) (\<lambda>_ s. freerange_loop (p + PGSIZE) vend s)
      else Done () s)"
  by pat_completeness auto
termination
proof (relation "measure (\<lambda>(p, _, _). 4294967296 - unat p)", goal_cases)
  case (2 p vend s u t)
  then have "unat p + 4096 \<le> 2382364672" using kfree_page_ok page_ok_bounds(2) by blast
  moreover from this have "unat (p + 4096) = unat p + 4096"
    using unat_add_small [of p 4096] by simp
  ultimately show ?case by simp
qed simp

declare freerange_loop.simps [simp del]

definition freerange :: "u32 \<Rightarrow> u32 \<Rightarrow> 'z kmem_scheme \<Rightarrow> ('z kmem_scheme, unit) outcome" where
  "freerange vstart vend s = freerange_loop (PGROUNDUP vstart) vend s"

definition kinit1 :: "u32 \<Rightarrow> u32 \<Rightarrow> 'z kmem_scheme \<Rightarrow> ('z kmem_scheme, unit) outcome" where
  "kinit1 vstart vend s = freerange vstart vend (s\<lparr>use_lock := False\<rparr>)"

definition kinit2 :: "u32 \<Rightarrow> u32 \<Rightarrow> 'z kmem_scheme \<Rightarrow> ('z kmem_scheme, unit) outcome" where
  "kinit2 vstart vend s =
     bind (freerange vstart vend s) (\<lambda>_ s. Done () (s\<lparr>use_lock := True\<rparr>))"

section \<open>The free list\<close>

primrec flist :: "mem \<Rightarrow> u32 \<Rightarrow> u32 list \<Rightarrow> bool" where
  "flist m p [] \<longleftrightarrow> p = 0"
| "flist m p (x # xs) \<longleftrightarrow> p = x \<and> x \<noteq> 0 \<and> flist m (load32 m x) xs"

definition kmem_inv :: "'z kmem_scheme \<Rightarrow> u32 list \<Rightarrow> bool" where
  "kmem_inv s ps \<longleftrightarrow>
     flist (mem s) (freelist s) ps \<and> distinct ps \<and> (\<forall>p \<in> set ps. page_ok s p) \<and>
     (use_lock s \<longrightarrow> KMEM \<notin> set (held s))"

lemma kfree_eq:
  assumes "page_ok s v" and "use_lock s \<longrightarrow> KMEM \<notin> set (held s)"
  shows "kfree v s = Done ()
    (s\<lparr>mem := store32 (memset (mem s) v 1 PGSIZE) v (freelist s), freelist := v\<rparr>)"
  using assms by (auto simp: kfree_def page_ok_def aligned_def lock_simps Let_def)

lemma kalloc_eq:
  assumes "use_lock s \<longrightarrow> KMEM \<notin> set (held s)"
  shows "kalloc s = Done (freelist s)
    (if freelist s \<noteq> 0 then s\<lparr>freelist := load32 (mem s) (freelist s)\<rparr> else s)"
  using assms by (auto simp: kalloc_def lock_simps Let_def)

lemma flist_cong: "(\<And>p. p \<in> set ps \<Longrightarrow> load32 m p = load32 m' p) \<Longrightarrow> flist m h ps = flist m' h ps"
  by (induction ps arbitrary: h) auto

lemma page_ok_upd [simp]:
  "page_ok (s\<lparr>mem := m\<rparr>) = page_ok s" "page_ok (s\<lparr>freelist := f\<rparr>) = page_ok s"
  "page_ok (s\<lparr>use_lock := b\<rparr>) = page_ok s"
  by (auto simp: page_ok_def fun_eq_iff)

lemma page_ok_aligned: "page_ok s v \<Longrightarrow> aligned v"
  by (simp add: page_ok_def)

text \<open>
  A free page pushed on the list, a page taken from it. Memory changes only inside the page that
  is freed.
\<close>

lemma kfree_ok:
  assumes inv: "kmem_inv s ps" and v: "page_ok s v" "v \<notin> set ps"
  obtains m where "kfree v s = Done () (s\<lparr>mem := m, freelist := v\<rparr>)"
    and "kmem_inv (s\<lparr>mem := m, freelist := v\<rparr>) (v # ps)"
    and "\<And>x. \<not> in_page v x \<Longrightarrow> m x = mem s x"
proof
  let ?m = "store32 (memset (mem s) v 1 PGSIZE) v (freelist s)"
  show "kfree v s = Done () (s\<lparr>mem := ?m, freelist := v\<rparr>)"
    using inv v by (intro kfree_eq) (auto simp: kmem_inv_def)
  show frame: "?m x = mem s x" if "\<not> in_page v x" for x
    using that by (simp add: store32_frame [OF in_page4_base] memset_page)
  have "load32 ?m p = load32 (mem s) p" if "p \<in> set ps" for p
  proof (rule load32_other_page [of v p])
    show "aligned v" "aligned p" "v \<noteq> p" using inv v that by (auto simp: kmem_inv_def page_ok_def)
  qed (simp_all add: frame)
  then have "flist ?m (freelist s) ps = flist (mem s) (freelist s) ps" by (rule flist_cong)
  then show "kmem_inv (s\<lparr>mem := ?m, freelist := v\<rparr>) (v # ps)"
    using inv v page_ok_bounds(3) [OF v(1)] by (auto simp: kmem_inv_def)
qed

lemma kalloc_empty: "kmem_inv s [] \<Longrightarrow> kalloc s = Done 0 s"
  by (simp add: kalloc_eq kmem_inv_def)

lemma kalloc_ok:
  assumes "kmem_inv s (p # ps)"
  shows "kalloc s = Done p (s\<lparr>freelist := load32 (mem s) p\<rparr>)"
    and "kmem_inv (s\<lparr>freelist := load32 (mem s) p\<rparr>) ps" and "page_ok s p" and "p \<noteq> 0" and "p \<notin> set ps"
  using assms by (auto simp: kalloc_eq kmem_inv_def)

section \<open>The contract of the page allocator\<close>

locale page_allocator =
  fixes alloc :: "'s \<Rightarrow> ('s, u32) outcome"
    and free :: "u32 \<Rightarrow> 's \<Rightarrow> ('s, unit) outcome"
    and pages :: "'s \<Rightarrow> u32 list \<Rightarrow> bool"
    and ok :: "'s \<Rightarrow> u32 \<Rightarrow> bool"
  assumes alloc_nil: "pages s [] \<Longrightarrow> alloc s = Done 0 s"
    and alloc_cons: "pages s (p # ps) \<Longrightarrow> \<exists>t. alloc s = Done p t \<and> pages t ps \<and> ok t = ok s"
    and free_ok: "pages s ps \<Longrightarrow> ok s p \<Longrightarrow> p \<notin> set ps \<Longrightarrow>
      \<exists>t. free p s = Done () t \<and> pages t (p # ps) \<and> ok t = ok s"
    and pages_ok: "pages s ps \<Longrightarrow> distinct ps \<and> (\<forall>p \<in> set ps. ok s p)"
begin

lemma many_alloc:
  "pages s ps \<Longrightarrow> n \<le> length ps \<Longrightarrow>
   \<exists>t. many alloc n s = Done (take n ps) t \<and> pages t (drop n ps) \<and> ok t = ok s"
proof (induction n arbitrary: s ps)
  case 0
  then show ?case by simp
next
  case (Suc n)
  then obtain p qs where ps: "ps = p # qs" by (cases ps) auto
  with Suc.prems obtain t where t: "alloc s = Done p t" "pages t qs" "ok t = ok s"
    using alloc_cons by blast
  from Suc.IH [OF t(2)] Suc.prems ps obtain t' where
    "many alloc n t = Done (take n qs) t'" "pages t' (drop n qs)" "ok t' = ok t" by auto
  then show ?case using t ps by simp
qed

lemma alloc_all_then_none:
  assumes "pages s ps"
  shows "\<exists>t. many alloc (length ps) s = Done ps t \<and> distinct ps \<and> (\<forall>p \<in> set ps. ok s p) \<and> alloc t = Done 0 t"
proof -
  from many_alloc [OF assms order_refl] obtain t where
    "many alloc (length ps) s = Done ps t" "pages t []" by auto
  then show ?thesis using pages_ok [OF assms] alloc_nil by blast
qed

lemma free_alloc:
  assumes "pages s ps" and "ok s p" and "p \<notin> set ps"
  shows "\<exists>t u. free p s = Done () t \<and> alloc t = Done p u \<and> pages u ps"
  using free_ok [OF assms] alloc_cons by blast

end

interpretation kpages: page_allocator kalloc kfree kmem_inv page_ok
proof (unfold_locales, goal_cases)
  case (1 s)
  then show ?case by (rule kalloc_empty)
next
  case (2 s p ps)
  then show ?case using kalloc_ok [OF 2] by auto
next
  case (3 s ps p)
  then obtain m where "kfree p s = Done () (s\<lparr>mem := m, freelist := p\<rparr>)"
    "kmem_inv (s\<lparr>mem := m, freelist := p\<rparr>) (p # ps)" by (rule kfree_ok)
  then show ?case by auto
next
  case (4 s ps)
  then show ?case by (simp add: kmem_inv_def)
qed

section \<open>Filling the free list\<close>

text \<open>The \<open>n\<close> pages from \<open>p\<close> on.\<close>

definition pages_from :: "u32 \<Rightarrow> nat \<Rightarrow> u32 list" where
  "pages_from p n = map (\<lambda>i. p + PGSIZE * of_nat i) [0..<n]"

lemma pages_from_0 [simp]: "pages_from p 0 = []"
  by (simp add: pages_from_def)

lemma pages_from_Suc: "pages_from p (Suc n) = p # pages_from (p + PGSIZE) n"
  by (simp add: pages_from_def upt_conv_Cons map_Suc_upt [symmetric] comp_def algebra_simps del: upt_Suc)

lemma aligned_add_page: "aligned p \<Longrightarrow> unat p + 4096 < 4294967296 \<Longrightarrow> aligned (p + PGSIZE)"
  using unat_add_small [of p 4096] by (simp add: aligned_unat)

lemma page_ok_intro:
  assumes "aligned p" and "kend s \<le> p" and "KERNBASE \<le> p" and "unat p < 2382364672"
  shows "page_ok s p"
  using assms unat_V2P [OF assms(3)] by (simp add: page_ok_def word_less_nat_alt)

lemma freerange_loop_ok:
  assumes "kmem_inv s ps" and "aligned p" and "kend s \<le> p" and "KERNBASE \<le> p"
    and "unat vend \<le> 2382364672" and "unat p + 4096 * n \<le> unat vend" and "unat vend < unat p + 4096 * Suc n"
    and "set (pages_from p n) \<inter> set ps = {}"
  shows "\<exists>t. freerange_loop p vend s = Done () t \<and> kmem_inv t (rev (pages_from p n) @ ps) \<and> page_ok t = page_ok s"
  using assms
proof (induction n arbitrary: p s ps)
  case 0
  then have "unat (p + 4096) = unat p + 4096"
    using unat_add_small [of p 4096] by simp
  then show ?case using 0 by (simp add: freerange_loop.simps [of p] word_le_nat_alt)
next
  case (Suc n)
  have pb: "unat p + 4096 \<le> 2382364672" using Suc.prems(5,6) by simp
  then have up: "unat (p + 4096) = unat p + 4096" using unat_add_small [of p 4096] by simp
  have ok: "page_ok s p" using Suc.prems pb by (intro page_ok_intro) auto
  have "p \<notin> set ps" using Suc.prems(8) by (auto simp: pages_from_Suc)
  with Suc.prems(1) ok obtain m where kf: "kfree p s = Done () (s\<lparr>mem := m, freelist := p\<rparr>)"
    and inv: "kmem_inv (s\<lparr>mem := m, freelist := p\<rparr>) (p # ps)" by (rule kfree_ok)
  have le: "p + 4096 \<le> vend" using Suc.prems(6) up by (simp add: word_le_nat_alt)
  have far: "p \<notin> set (pages_from (p + 4096) n)"
  proof
    assume "p \<in> set (pages_from (p + 4096) n)"
    then obtain i where i: "i < n" "p + 4096 * of_nat (Suc i) = p"
      by (auto simp: pages_from_def algebra_simps)
    then have "(of_nat (4096 * Suc i) :: u32) = of_nat 0" by simp
    moreover have "4096 * Suc i < 4294967296" using i(1) Suc.prems(5,6) by simp
    ultimately show False by (metis unat_of_nat_u32 nat.simps(3) mult_is_0 zero_neq_numeral of_nat_0 unat_0)
  qed
  have "\<exists>t. freerange_loop (p + 4096) vend (s\<lparr>mem := m, freelist := p\<rparr>) = Done () t \<and>
      kmem_inv t (rev (pages_from (p + 4096) n) @ p # ps) \<and>
      page_ok t = page_ok (s\<lparr>mem := m, freelist := p\<rparr>)"
  proof (rule Suc.IH [OF inv])
    show "aligned (p + 4096)" using Suc.prems(2) pb by (intro aligned_add_page) simp_all
    show "kend (s\<lparr>mem := m, freelist := p\<rparr>) \<le> p + 4096" "KERNBASE \<le> p + 4096"
      using Suc.prems(3,4) up by (simp_all add: word_le_nat_alt)
    show "set (pages_from (p + 4096) n) \<inter> set (p # ps) = {}"
      using far Suc.prems(8) by (auto simp: pages_from_Suc)
  qed (use Suc.prems up in simp_all)
  then show ?case using kf le by (simp add: freerange_loop.simps [of p] pages_from_Suc)
qed

section \<open>Properties\<close>

text \<open>
  (C12) \<^verbatim>\<open>freerange\<close> puts every whole page between its two addresses on the free list, each
  once and no other page, and does not panic when the range lies between the end of the kernel and
  \<^verbatim>\<open>PHYSTOP\<close>.
\<close>

theorem freerange_all_pages:
  assumes "kmem_inv s ps" and "kend s \<le> vstart" and "KERNBASE \<le> vstart"
    and "unat vstart \<le> 2382364672" and "unat vend \<le> 2382364672" and "PGROUNDUP vstart \<le> vend"
    and "set (pages_from (PGROUNDUP vstart) ((unat vend - unat (PGROUNDUP vstart)) div 4096)) \<inter> set ps = {}"
  shows "\<exists>t. freerange vstart vend s = Done () t \<and>
    kmem_inv t (rev (pages_from (PGROUNDUP vstart) ((unat vend - unat (PGROUNDUP vstart)) div 4096)) @ ps)"
proof -
  let ?p = "PGROUNDUP vstart" and ?n = "(unat vend - unat (PGROUNDUP vstart)) div 4096"
  have up: "unat ?p = (unat vstart + 4095) div 4096 * 4096" using assms(4) by (intro unat_PGROUNDUP) simp
  then have ge: "unat vstart \<le> unat ?p" by simp
  have al: "aligned ?p" using up by (simp add: aligned_unat)
  have "unat ?p \<le> unat vend" using assms(6) by (simp add: word_le_nat_alt)
  then have "unat ?p + 4096 * ?n \<le> unat vend" "unat vend < unat ?p + 4096 * Suc ?n" by simp_all
  moreover have "kend s \<le> ?p" "KERNBASE \<le> ?p" using assms(2,3) ge by (simp_all add: word_le_nat_alt)
  ultimately show ?thesis
    using freerange_loop_ok [OF assms(1) al, of vend ?n] assms(5,7) by (auto simp: freerange_def)
qed

definition kmem_example :: kmem where
  "kmem_example = \<lparr>held = [], clog = [], mem = (\<lambda>_. 0), kend = 0x80115000, use_lock = False, freelist = 0\<rparr>"

theorem freerange_all_pages_witness:
  "\<exists>t. freerange 0x80115123 0x80118000 kmem_example = Done () t \<and> kmem_inv t [0x80117000, 0x80116000]"
proof -
  have inv: "kmem_inv kmem_example []" by (simp add: kmem_inv_def kmem_example_def)
  have up: "PGROUNDUP 0x80115123 = 0x80116000" by (simp add: PGROUNDUP_def)
  have two: "pages_from 0x80116000 2 = [0x80116000, 0x80117000]"
    by (simp add: pages_from_def upt_conv_Cons numeral_2_eq_2)
  have "(unat (0x80118000 :: u32) - unat (PGROUNDUP 0x80115123)) div 4096 = 2" by (simp add: up)
  then show ?thesis
    using freerange_all_pages [OF inv, of "0x80115123" "0x80118000"]
    by (simp add: up two kmem_example_def word_le_nat_alt)
qed

text \<open>
  (C5) The allocator gives out every page of its free list, each once, and then returns 0 without
  changing its state: two allocations never return the same page.
\<close>

theorem kalloc_gives_each_page_once:
  assumes "kmem_inv s ps"
  shows "\<exists>t. many kalloc (length ps) s = Done ps t \<and> distinct ps \<and> (\<forall>p \<in> set ps. page_ok s p) \<and>
    kalloc t = Done 0 t"
  by (rule kpages.alloc_all_then_none [OF assms])

theorem kalloc_gives_each_page_once_witness:
  "\<exists>(s :: kmem) t. many kalloc 2 s = Done [0x80117000, 0x80116000] t \<and> kalloc t = Done 0 t"
proof -
  have inv: "kmem_inv kmem_example []" by (simp add: kmem_inv_def kmem_example_def)
  have "page_ok kmem_example 0x80116000" "page_ok kmem_example 0x80117000"
    by (simp_all add: page_ok_def aligned_def kmem_example_def V2P_def)
  then obtain m where "kmem_inv (kmem_example\<lparr>mem := m, freelist := 0x80116000\<rparr>) [0x80116000]"
    using kfree_ok [OF inv, of "0x80116000"] by auto
  then obtain m where "kmem_inv (kmem_example\<lparr>mem := m, freelist := 0x80117000\<rparr>) [0x80117000, 0x80116000]"
    using kfree_ok [of "kmem_example\<lparr>mem := m, freelist := 0x80116000\<rparr>" "[0x80116000]" "0x80117000"]
      \<open>page_ok kmem_example 0x80117000\<close> by auto
  from kalloc_gives_each_page_once [OF this] obtain t
    where "many kalloc (length [0x80117000 :: u32, 0x80116000]) (kmem_example\<lparr>mem := m, freelist := 0x80117000\<rparr>)
      = Done [0x80117000, 0x80116000] t" and "kalloc t = Done 0 t" by blast
  moreover have "length [0x80117000 :: u32, 0x80116000] = 2" by simp
  ultimately show ?thesis by (simp only:) blast
qed

end
