(* ===== verification/Segments.thy ===== *)
theory Segments
  imports Mmu
begin

text \<open>
  The segment and gate descriptors of \<^verbatim>\<open>mmu.h\<close>: the bit fields of the two structs, the
  macros that fill them, and the task state of which the kernel uses three fields. The lemmas
  read the base, the limit and the offset back from the fields.
\<close>

record segdesc =
  sd_lim_15_0 :: u16
  sd_base_15_0 :: u16
  sd_base_23_16 :: u8
  sd_type :: "4 word"
  sd_s :: "1 word"
  sd_dpl :: "2 word"
  sd_p :: "1 word"
  sd_lim_19_16 :: "4 word"
  sd_avl :: "1 word"
  sd_rsv1 :: "1 word"
  sd_db :: "1 word"
  sd_g :: "1 word"
  sd_base_31_24 :: u8

definition SEG :: "4 word \<Rightarrow> u32 \<Rightarrow> u32 \<Rightarrow> 2 word \<Rightarrow> segdesc" where
  "SEG ty base lim dpl =
     \<lparr>sd_lim_15_0 = ucast (drop_bit 12 lim AND 0xFFFF), sd_base_15_0 = ucast (base AND 0xFFFF),
      sd_base_23_16 = ucast (drop_bit 16 base AND 0xFF), sd_type = ty, sd_s = 1, sd_dpl = dpl, sd_p = 1,
      sd_lim_19_16 = ucast (drop_bit 28 lim), sd_avl = 0, sd_rsv1 = 0, sd_db = 1, sd_g = 1,
      sd_base_31_24 = ucast (drop_bit 24 base)\<rparr>"

definition SEG16 :: "4 word \<Rightarrow> u32 \<Rightarrow> u32 \<Rightarrow> 2 word \<Rightarrow> segdesc" where
  "SEG16 ty base lim dpl =
     \<lparr>sd_lim_15_0 = ucast (lim AND 0xFFFF), sd_base_15_0 = ucast (base AND 0xFFFF),
      sd_base_23_16 = ucast (drop_bit 16 base AND 0xFF), sd_type = ty, sd_s = 1, sd_dpl = dpl, sd_p = 1,
      sd_lim_19_16 = ucast (drop_bit 16 lim), sd_avl = 0, sd_rsv1 = 0, sd_db = 1, sd_g = 0,
      sd_base_31_24 = ucast (drop_bit 24 base)\<rparr>"

abbreviation (input) SEG_KCODE :: nat where "SEG_KCODE \<equiv> 1"
abbreviation (input) SEG_KDATA :: nat where "SEG_KDATA \<equiv> 2"
abbreviation (input) SEG_UCODE :: nat where "SEG_UCODE \<equiv> 3"
abbreviation (input) SEG_UDATA :: nat where "SEG_UDATA \<equiv> 4"
abbreviation (input) SEG_TSS :: nat where "SEG_TSS \<equiv> 5"
abbreviation (input) NSEGS :: nat where "NSEGS \<equiv> 6"
abbreviation (input) DPL_USER :: "2 word" where "DPL_USER \<equiv> 3"
abbreviation (input) STA_X :: "4 word" where "STA_X \<equiv> 0x8"
abbreviation (input) STA_W :: "4 word" where "STA_W \<equiv> 0x2"
abbreviation (input) STA_R :: "4 word" where "STA_R \<equiv> 0x2"
abbreviation (input) STS_T32A :: "4 word" where "STS_T32A \<equiv> 0x9"
abbreviation (input) STS_IG32 :: "4 word" where "STS_IG32 \<equiv> 0xE"
abbreviation (input) STS_TG32 :: "4 word" where "STS_TG32 \<equiv> 0xF"

record taskstate =
  ts_esp0 :: u32
  ts_ss0 :: u16
  ts_iomb :: u16

record gatedesc =
  gd_off_15_0 :: u16
  gd_cs :: u16
  gd_args :: "5 word"
  gd_rsv1 :: "3 word"
  gd_type :: "4 word"
  gd_s :: "1 word"
  gd_dpl :: "2 word"
  gd_p :: "1 word"
  gd_off_31_16 :: u16

definition SETGATE :: "bool \<Rightarrow> u16 \<Rightarrow> u32 \<Rightarrow> 2 word \<Rightarrow> gatedesc" where
  "SETGATE istrap sel off d =
     \<lparr>gd_off_15_0 = ucast (off AND 0xFFFF), gd_cs = sel, gd_args = 0, gd_rsv1 = 0,
      gd_type = (if istrap then STS_TG32 else STS_IG32), gd_s = 0, gd_dpl = d, gd_p = 1,
      gd_off_31_16 = ucast (drop_bit 16 off)\<rparr>"

section \<open>What the processor reads from a descriptor\<close>

definition seg_base :: "segdesc \<Rightarrow> u32" where
  "seg_base d = ucast (sd_base_15_0 d) OR push_bit 16 (ucast (sd_base_23_16 d))
     OR push_bit 24 (ucast (sd_base_31_24 d))"

definition seg_limit :: "segdesc \<Rightarrow> u32" where
  "seg_limit d =
     (let l = ucast (sd_lim_15_0 d) OR push_bit 16 (ucast (sd_lim_19_16 d)) in
      if sd_g d = 1 then push_bit 12 l OR 0xFFF else l)"

definition gate_offset :: "gatedesc \<Rightarrow> u32" where
  "gate_offset g = ucast (gd_off_15_0 g) OR push_bit 16 (ucast (gd_off_31_16 g))"

lemma and_FFFF: "(a :: u32) AND 0xFFFF = take_bit 16 a"
  by (simp add: take_bit_eq_mask mask_eq_exp_minus_1)

lemma and_FF: "(a :: u32) AND 0xFF = take_bit 8 a"
  by (simp add: take_bit_eq_mask mask_eq_exp_minus_1)

lemma ucast_split16: "ucast (ucast (take_bit 16 a) :: u16) OR push_bit 16 (ucast (ucast (drop_bit 16 a) :: u16)) = (a :: u32)"
proof (rule bit_word_eqI)
  fix n
  assume "n < LENGTH(32)"
  then show "bit (ucast (ucast (take_bit 16 a) :: u16) OR push_bit 16 (ucast (ucast (drop_bit 16 a) :: u16)) :: u32) n = bit a n"
    by (cases "n < 16") (auto simp: bit_simps)
qed

lemma gate_offset_SETGATE: "gate_offset (SETGATE istrap sel off d) = off"
  by (simp add: gate_offset_def SETGATE_def and_FFFF ucast_split16)

lemma ucast_split24:
  "ucast (ucast (take_bit 16 b) :: u16) OR push_bit 16 (ucast (ucast (take_bit 8 (drop_bit 16 b)) :: u8))
     OR push_bit 24 (ucast (ucast (drop_bit 24 b) :: u8)) = (b :: u32)"
proof (rule bit_word_eqI)
  fix n
  assume "n < LENGTH(32)"
  then consider "n < 16" | "16 \<le> n" "n < 24" | "24 \<le> n" "n < 32" by force
  then show "bit (ucast (ucast (take_bit 16 b) :: u16)
       OR push_bit 16 (ucast (ucast (take_bit 8 (drop_bit 16 b)) :: u8))
       OR push_bit 24 (ucast (ucast (drop_bit 24 b) :: u8)) :: u32) n = bit b n"
    by cases (auto simp: bit_simps)
qed

lemma seg_base_SEG: "seg_base (SEG ty base lim dpl) = base"
  by (simp add: seg_base_def SEG_def and_FFFF and_FF ucast_split24)

lemma seg_base_SEG16: "seg_base (SEG16 ty base lim dpl) = base"
  by (simp add: seg_base_def SEG16_def and_FFFF and_FF ucast_split24)

lemma split_limit:
  "ucast (ucast (take_bit 16 l) :: u16) OR push_bit 16 (ucast (ucast (drop_bit 16 l) :: 4 word)) = take_bit 20 (l :: u32)"
proof (rule bit_word_eqI)
  fix n
  assume "n < LENGTH(32)"
  then consider "n < 16" | "16 \<le> n" "n < 20" | "20 \<le> n" "n < 32" by force
  then show "bit (ucast (ucast (take_bit 16 l) :: u16) OR push_bit 16 (ucast (ucast (drop_bit 16 l) :: 4 word)) :: u32) n
      = bit (take_bit 20 l) n"
    by cases (auto simp: bit_simps)
qed

lemma seg_limit_SEG: "seg_limit (SEG ty base lim dpl) = lim OR 0xFFF"
proof -
  have "ucast (ucast (take_bit 16 (drop_bit 12 lim)) :: u16) OR push_bit 16 (ucast (ucast (drop_bit 28 lim) :: 4 word))
      = take_bit 20 (drop_bit 12 lim)"
    using split_limit [of "drop_bit 12 lim"] by simp
  moreover have "take_bit 20 (drop_bit 12 lim) = drop_bit 12 lim"
    by (rule bit_word_eqI) (auto simp: bit_simps dest: bit_imp_le_length)
  moreover have "push_bit 12 (drop_bit 12 lim) OR 0xFFF = lim OR 0xFFF"
  proof -
    have m: "(0xFFF :: u32) = mask 12" by (simp add: mask_eq_exp_minus_1)
    show ?thesis unfolding m by (rule bit_word_eqI) (auto simp: bit_simps)
  qed
  ultimately show ?thesis by (simp add: seg_limit_def SEG_def and_FFFF Let_def)
qed

lemma seg_limit_SEG16: "lim < 0x100000 \<Longrightarrow> seg_limit (SEG16 ty base lim dpl) = lim"
proof -
  assume "lim < 0x100000"
  then have "take_bit 20 lim = lim"
    by (simp add: take_bit_eq_mod word_less_nat_alt word_mod_less_divisor mod_word_self [symmetric]
        unat_mod word_arith_nat_mod)
  then show ?thesis using split_limit [of lim] by (simp add: seg_limit_def SEG16_def and_FFFF)
qed

end
