(* ===== verification/Vm.thy ===== *)
theory Vm
  imports Kalloc Segments
begin

text \<open>
  \<^verbatim>\<open>vm.c\<close>: page tables. A page directory and its page tables are pages of memory, and a
  function here takes the kernel address of a page directory. Memory is indexed by kernel
  address. \<open>kdata\<close> is the linker's symbol \<^verbatim>\<open>data\<close>; \<open>cr3\<close>, \<open>tr\<close>, \<open>gdt\<close> and
  \<open>ts\<close> are the page table register, the task register, the descriptor table and the task state
  of the CPU, and \<open>tsaddr\<close> is the address of the latter.

  A loop over pages gets \<open>NPAGES\<close> steps, as many as there are pages in the address space.
  \<^verbatim>\<open>loaduvm\<close> reads a file and is with the file system.
\<close>

record vmst = kmem +
  kpgdir :: u32
  cr3 :: u32
  kdata :: u32
  gdt :: "segdesc list"
  ts :: taskstate
  tsaddr :: u32
  tr :: u16

abbreviation (input) NPAGES :: nat where "NPAGES \<equiv> 1048576"
abbreviation (input) NPDENTRIES :: nat where "NPDENTRIES \<equiv> 1024"
abbreviation (input) KSTACKSIZE :: u32 where "KSTACKSIZE \<equiv> 4096"

section \<open>The MMU\<close>

text \<open>The page table entry the processor finds for an address, 0 when there is no page table.\<close>

definition pde_of :: "mem \<Rightarrow> u32 \<Rightarrow> u32 \<Rightarrow> u32" where
  "pde_of m pgdir va = load32 m (pgdir + 4 * PDX va)"

definition pte_of :: "mem \<Rightarrow> u32 \<Rightarrow> u32 \<Rightarrow> u32" where
  "pte_of m pgdir va =
     (let pde = pde_of m pgdir va in
      if pde AND PTE_P = 0 then 0 else load32 m (P2V (PTE_ADDR pde) + 4 * PTX va))"

definition xlate :: "mem \<Rightarrow> u32 \<Rightarrow> u32 \<Rightarrow> u32 option" where
  "xlate m pgdir va =
     (let pte = pte_of m pgdir va in
      if pte AND PTE_P = 0 then None else Some (P2V (PTE_ADDR pte) + PTE_FLAGS va))"

text \<open>
  A load by the kernel. Kernel addresses are in the direct map; an address below is translated
  by the current page table.
\<close>

definition kread8 :: "u32 \<Rightarrow> 'z vmst_scheme \<Rightarrow> ('z vmst_scheme, u8) outcome" where
  "kread8 a s =
     (if KERNBASE \<le> a then Done (mem s a) s
      else case xlate (mem s) (P2V (cr3 s)) a of None \<Rightarrow> Fault a | Some k \<Rightarrow> Done (mem s k) s)"

definition kread32 :: "u32 \<Rightarrow> 'z vmst_scheme \<Rightarrow> ('z vmst_scheme, u32) outcome" where
  "kread32 a s =
     bind (kread8 a s) (\<lambda>b0 s. bind (kread8 (a + 1) s) (\<lambda>b1 s.
     bind (kread8 (a + 2) s) (\<lambda>b2 s. bind (kread8 (a + 3) s) (\<lambda>b3 s.
     Done (ucast b0 OR push_bit 8 (ucast b1) OR push_bit 16 (ucast b2) OR push_bit 24 (ucast b3)) s))))"

text \<open>
  A store by the kernel. The kernel runs with \<^verbatim>\<open>CR0_WP\<close> set, so it faults on a page without
  \<^verbatim>\<open>PTE_W\<close>, as user code does.
\<close>

definition kwrite8 :: "u32 \<Rightarrow> u8 \<Rightarrow> 'z vmst_scheme \<Rightarrow> ('z vmst_scheme, unit) outcome" where
  "kwrite8 a v s =
     (if KERNBASE \<le> a then Done () (s\<lparr>mem := (mem s)(a := v)\<rparr>)
      else case xlate (mem s) (P2V (cr3 s)) a of
        None \<Rightarrow> Fault a
      | Some k \<Rightarrow> if pte_of (mem s) (P2V (cr3 s)) a AND PTE_W = 0 then Fault a
          else Done () (s\<lparr>mem := (mem s)(k := v)\<rparr>))"

definition kwrite32 :: "u32 \<Rightarrow> u32 \<Rightarrow> 'z vmst_scheme \<Rightarrow> ('z vmst_scheme, unit) outcome" where
  "kwrite32 a v s =
     bind (kwrite8 a (ucast v) s) (\<lambda>_ s. bind (kwrite8 (a + 1) (ucast (drop_bit 8 v)) s) (\<lambda>_ s.
     bind (kwrite8 (a + 2) (ucast (drop_bit 16 v)) s) (\<lambda>_ s. kwrite8 (a + 3) (ucast (drop_bit 24 v)) s)))"

primrec kwrite_bytes :: "u32 \<Rightarrow> bytes \<Rightarrow> 'z vmst_scheme \<Rightarrow> ('z vmst_scheme, unit) outcome" where
  "kwrite_bytes a [] s = Done () s"
| "kwrite_bytes a (b # bs) s = bind (kwrite8 a b s) (\<lambda>_ s. kwrite_bytes (a + 1) bs s)"

primrec kread_bytes :: "u32 \<Rightarrow> nat \<Rightarrow> 'z vmst_scheme \<Rightarrow> ('z vmst_scheme, bytes) outcome" where
  "kread_bytes a 0 s = Done [] s"
| "kread_bytes a (Suc n) s = bind (kread8 a s) (\<lambda>b s. bind (kread_bytes (a + 1) n s) (\<lambda>bs s. Done (b # bs) s))"

section \<open>vm.c\<close>

definition seginit :: "'z vmst_scheme \<Rightarrow> 'z vmst_scheme" where
  "seginit s = s\<lparr>gdt := (gdt s)
     [SEG_KCODE := SEG (STA_X OR STA_R) 0 0xFFFFFFFF 0,
      SEG_KDATA := SEG STA_W 0 0xFFFFFFFF 0,
      SEG_UCODE := SEG (STA_X OR STA_R) 0 0xFFFFFFFF DPL_USER,
      SEG_UDATA := SEG STA_W 0 0xFFFFFFFF DPL_USER]\<rparr>"

definition walkpgdir :: "u32 \<Rightarrow> u32 \<Rightarrow> bool \<Rightarrow> 'z kmem_scheme \<Rightarrow> ('z kmem_scheme, u32) outcome" where
  "walkpgdir pgdir va alloc s =
     (let pde = pgdir + 4 * PDX va in
      if load32 (mem s) pde AND PTE_P \<noteq> 0 then
        let pgtab = P2V (PTE_ADDR (load32 (mem s) pde)) in Done (pgtab + 4 * PTX va) s
      else if \<not> alloc then Done 0 s
      else bind (kalloc s) (\<lambda>pgtab s.
        if pgtab = 0 then Done 0 s
        else let s = s\<lparr>mem := memset (mem s) pgtab 0 PGSIZE\<rparr>;
                 s = s\<lparr>mem := store32 (mem s) pde (V2P pgtab OR PTE_P OR PTE_W OR PTE_U)\<rparr>
             in Done (pgtab + 4 * PTX va) s))"

fun mappages_loop :: "nat \<Rightarrow> u32 \<Rightarrow> u32 \<Rightarrow> u32 \<Rightarrow> u32 \<Rightarrow> u32 \<Rightarrow> 'z kmem_scheme \<Rightarrow> ('z kmem_scheme, int) outcome" where
  "mappages_loop n pgdir a lst pa perm s =
     (if n = 0 then Diverge
      else bind (walkpgdir pgdir a True s) (\<lambda>pte s.
        if pte = 0 then Done (-1) s
        else if load32 (mem s) pte AND PTE_P \<noteq> 0 then Panic ''remap''
        else let s = s\<lparr>mem := store32 (mem s) pte (pa OR perm OR PTE_P)\<rparr> in
          if a = lst then Done 0 s
          else mappages_loop (n - 1) pgdir (a + PGSIZE) lst (pa + PGSIZE) perm s))"

definition mappages :: "u32 \<Rightarrow> u32 \<Rightarrow> u32 \<Rightarrow> u32 \<Rightarrow> u32 \<Rightarrow> 'z kmem_scheme \<Rightarrow> ('z kmem_scheme, int) outcome" where
  "mappages pgdir va sz pa perm s =
     (let a = PGROUNDDOWN va; lst = PGROUNDDOWN (va + sz - 1)
      in mappages_loop NPAGES pgdir a lst pa perm s)"

fun deallocuvm_loop :: "nat \<Rightarrow> u32 \<Rightarrow> u32 \<Rightarrow> u32 \<Rightarrow> 'z kmem_scheme \<Rightarrow> ('z kmem_scheme, unit) outcome" where
  "deallocuvm_loop n pgdir a oldsz s =
     (if n = 0 then Diverge
      else if a < oldsz then
        bind (walkpgdir pgdir a False s) (\<lambda>pte s.
        if pte = 0 then
          let a = PGADDR (PDX a + 1) 0 0 - PGSIZE in deallocuvm_loop (n - 1) pgdir (a + PGSIZE) oldsz s
        else if load32 (mem s) pte AND PTE_P \<noteq> 0 then
          let pa = PTE_ADDR (load32 (mem s) pte) in
          if pa = 0 then Panic ''kfree''
          else bind (kfree (P2V pa) s) (\<lambda>_ s.
            let s = s\<lparr>mem := store32 (mem s) pte 0\<rparr> in deallocuvm_loop (n - 1) pgdir (a + PGSIZE) oldsz s)
        else deallocuvm_loop (n - 1) pgdir (a + PGSIZE) oldsz s)
      else Done () s)"

definition deallocuvm :: "u32 \<Rightarrow> u32 \<Rightarrow> u32 \<Rightarrow> 'z kmem_scheme \<Rightarrow> ('z kmem_scheme, u32) outcome" where
  "deallocuvm pgdir oldsz newsz s =
     (if newsz \<ge> oldsz then Done oldsz s
      else bind (deallocuvm_loop (NPAGES + 1) pgdir (PGROUNDUP newsz) oldsz s) (\<lambda>_ s. Done newsz s))"

fun freevm_loop :: "u32 \<Rightarrow> nat list \<Rightarrow> 'z kmem_scheme \<Rightarrow> ('z kmem_scheme, unit) outcome" where
  "freevm_loop pgdir [] s = Done () s"
| "freevm_loop pgdir (i # is) s =
     (let pde = load32 (mem s) (pgdir + 4 * of_nat i) in
      if pde AND PTE_P \<noteq> 0 then bind (kfree (P2V (PTE_ADDR pde)) s) (\<lambda>_ s. freevm_loop pgdir is s)
      else freevm_loop pgdir is s)"

definition freevm :: "u32 \<Rightarrow> 'z kmem_scheme \<Rightarrow> ('z kmem_scheme, unit) outcome" where
  "freevm pgdir s =
     (if pgdir = 0 then Panic ''freevm: no pgdir''
      else bind (deallocuvm pgdir KERNBASE 0 s) (\<lambda>_ s.
        bind (freevm_loop pgdir [0..<NPDENTRIES] s) (\<lambda>_ s. kfree pgdir s)))"

text \<open>The kernel's part of every page table: virtual address, physical range, permission.\<close>

definition kmap :: "u32 \<Rightarrow> (u32 \<times> u32 \<times> u32 \<times> u32) list" where
  "kmap data =
     [(KERNBASE, 0, EXTMEM, PTE_W),
      (KERNLINK, V2P KERNLINK, V2P data, 0),
      (data, V2P data, PHYSTOP, PTE_W),
      (DEVSPACE, DEVSPACE, 0, PTE_W)]"

fun setupkvm_loop :: "u32 \<Rightarrow> (u32 \<times> u32 \<times> u32 \<times> u32) list \<Rightarrow> 'z kmem_scheme \<Rightarrow> ('z kmem_scheme, u32) outcome" where
  "setupkvm_loop pgdir [] s = Done pgdir s"
| "setupkvm_loop pgdir ((virt, phys_start, phys_end, perm) # ks) s =
     bind (mappages pgdir virt (phys_end - phys_start) phys_start perm s) (\<lambda>r s.
     if r < 0 then bind (freevm pgdir s) (\<lambda>_ s. Done 0 s) else setupkvm_loop pgdir ks s)"

definition setupkvm :: "'z vmst_scheme \<Rightarrow> ('z vmst_scheme, u32) outcome" where
  "setupkvm s =
     bind (kalloc s) (\<lambda>pgdir s.
     if pgdir = 0 then Done 0 s
     else let s = s\<lparr>mem := memset (mem s) pgdir 0 PGSIZE\<rparr> in
       if P2V PHYSTOP > DEVSPACE then Panic ''PHYSTOP too high''
       else setupkvm_loop pgdir (kmap (kdata s)) s)"

definition switchkvm :: "'z vmst_scheme \<Rightarrow> 'z vmst_scheme" where
  "switchkvm s = s\<lparr>cr3 := V2P (kpgdir s)\<rparr>"

definition kvmalloc :: "'z vmst_scheme \<Rightarrow> ('z vmst_scheme, unit) outcome" where
  "kvmalloc s = bind (setupkvm s) (\<lambda>p s. Done () (switchkvm (s\<lparr>kpgdir := p\<rparr>)))"

text \<open>
  The process is given by its kernel stack and its page directory, and no process by \<open>None\<close>. Interrupts
  are off between \<^verbatim>\<open>pushcli\<close> and \<^verbatim>\<open>popcli\<close>, which restore them.
\<close>

definition switchuvm :: "(u32 \<times> u32) option \<Rightarrow> 'z vmst_scheme \<Rightarrow> ('z vmst_scheme, unit) outcome" where
  "switchuvm p s =
     (case p of None \<Rightarrow> Panic ''switchuvm: no process''
      | Some (kstack, pgdir) \<Rightarrow>
        if kstack = 0 then Panic ''switchuvm: no kstack''
        else if pgdir = 0 then Panic ''switchuvm: no pgdir''
        else let s = s\<lparr>gdt := (gdt s)[SEG_TSS := SEG16 STS_T32A (tsaddr s) (104 - 1) 0]\<rparr>;
                 s = s\<lparr>gdt := (gdt s)[SEG_TSS := (gdt s ! SEG_TSS)\<lparr>sd_s := 0\<rparr>]\<rparr>;
                 s = s\<lparr>ts := (ts s)\<lparr>ts_ss0 := of_nat (SEG_KDATA * 8)\<rparr>\<rparr>;
                 s = s\<lparr>ts := (ts s)\<lparr>ts_esp0 := kstack + KSTACKSIZE\<rparr>\<rparr>;
                 s = s\<lparr>ts := (ts s)\<lparr>ts_iomb := 0xFFFF\<rparr>\<rparr>;
                 s = s\<lparr>tr := of_nat (SEG_TSS * 8)\<rparr>
             in Done () (s\<lparr>cr3 := V2P pgdir\<rparr>))"

definition inituvm :: "u32 \<Rightarrow> bytes \<Rightarrow> 'z kmem_scheme \<Rightarrow> ('z kmem_scheme, unit) outcome" where
  "inituvm pgdir init s =
     (if length init \<ge> 4096 then Panic ''inituvm: more than a page''
      else bind (kalloc s) (\<lambda>pg s.
        if pg = 0 then Fault 0
        else let s = s\<lparr>mem := memset (mem s) pg 0 PGSIZE\<rparr> in
          bind (mappages pgdir 0 PGSIZE (V2P pg) (PTE_W OR PTE_U) s) (\<lambda>_ s.
          Done () (s\<lparr>mem := store_bytes (mem s) pg init\<rparr>))))"

fun allocuvm_loop :: "nat \<Rightarrow> u32 \<Rightarrow> u32 \<Rightarrow> u32 \<Rightarrow> u32 \<Rightarrow> 'z kmem_scheme \<Rightarrow> ('z kmem_scheme, u32) outcome" where
  "allocuvm_loop n pgdir a oldsz newsz s =
     (if n = 0 then Diverge
      else if a < newsz then
        bind (kalloc s) (\<lambda>pg s.
        if pg = 0 then
          bind (deallocuvm pgdir newsz oldsz (klog ''allocuvm out of memory'' s)) (\<lambda>_ s. Done 0 s)
        else let s = s\<lparr>mem := memset (mem s) pg 0 PGSIZE\<rparr> in
          bind (mappages pgdir a PGSIZE (V2P pg) (PTE_W OR PTE_U) s) (\<lambda>r s.
          if r < 0 then
            bind (deallocuvm pgdir newsz oldsz (klog ''allocuvm out of memory (2)'' s)) (\<lambda>_ s.
            bind (kfree pg s) (\<lambda>_ s. Done 0 s))
          else allocuvm_loop (n - 1) pgdir (a + PGSIZE) oldsz newsz s))
      else Done newsz s)"

definition allocuvm :: "u32 \<Rightarrow> u32 \<Rightarrow> u32 \<Rightarrow> 'z kmem_scheme \<Rightarrow> ('z kmem_scheme, u32) outcome" where
  "allocuvm pgdir oldsz newsz s =
     (if newsz \<ge> KERNBASE then Done 0 s
      else if newsz < oldsz then Done oldsz s
      else allocuvm_loop (NPAGES + 1) pgdir (PGROUNDUP oldsz) oldsz newsz s)"

definition clearpteu :: "u32 \<Rightarrow> u32 \<Rightarrow> 'z kmem_scheme \<Rightarrow> ('z kmem_scheme, unit) outcome" where
  "clearpteu pgdir uva s =
     bind (walkpgdir pgdir uva False s) (\<lambda>pte s.
     if pte = 0 then Panic ''clearpteu''
     else Done () (s\<lparr>mem := store32 (mem s) pte (load32 (mem s) pte AND NOT PTE_U)\<rparr>))"

fun copyuvm_loop :: "nat \<Rightarrow> u32 \<Rightarrow> u32 \<Rightarrow> u32 \<Rightarrow> u32 \<Rightarrow> 'z kmem_scheme \<Rightarrow> ('z kmem_scheme, u32) outcome" where
  "copyuvm_loop n pgdir d i sz s =
     (if n = 0 then Diverge
      else if i < sz then
        bind (walkpgdir pgdir i False s) (\<lambda>pte s.
        if pte = 0 then Panic ''copyuvm: pte should exist''
        else if load32 (mem s) pte AND PTE_P = 0 then Panic ''copyuvm: page not present''
        else let pa = PTE_ADDR (load32 (mem s) pte); flags = PTE_FLAGS (load32 (mem s) pte) in
          bind (kalloc s) (\<lambda>pg s.
          if pg = 0 then bind (freevm d s) (\<lambda>_ s. Done 0 s)
          else let s = s\<lparr>mem := memmove (mem s) pg (P2V pa) PGSIZE\<rparr> in
            bind (mappages d i PGSIZE (V2P pg) flags s) (\<lambda>r s.
            if r < 0 then bind (kfree pg s) (\<lambda>_ s. bind (freevm d s) (\<lambda>_ s. Done 0 s))
            else copyuvm_loop (n - 1) pgdir d (i + PGSIZE) sz s)))
      else Done d s)"

definition copyuvm :: "u32 \<Rightarrow> u32 \<Rightarrow> 'z vmst_scheme \<Rightarrow> ('z vmst_scheme, u32) outcome" where
  "copyuvm pgdir sz s =
     bind (setupkvm s) (\<lambda>d s.
     if d = 0 then Done 0 s else copyuvm_loop (NPAGES + 1) pgdir d PGSIZE sz s)"

definition uva2ka :: "u32 \<Rightarrow> u32 \<Rightarrow> 'z vmst_scheme \<Rightarrow> ('z vmst_scheme, u32) outcome" where
  "uva2ka pgdir uva s =
     bind (walkpgdir pgdir uva False s) (\<lambda>pte s.
     bind (kread32 pte s) (\<lambda>v s.
     if v AND PTE_P = 0 then Done 0 s
     else if v AND PTE_U = 0 then Done 0 s
     else Done (P2V (PTE_ADDR v)) s))"

text \<open>The source of \<^verbatim>\<open>copyout\<close>, a pointer and a length, is the list of the bytes it copies.\<close>

function copyout :: "u32 \<Rightarrow> u32 \<Rightarrow> bytes \<Rightarrow> 'z vmst_scheme \<Rightarrow> ('z vmst_scheme, int) outcome" where
  "copyout pgdir va buf s =
     (if buf = [] then Done 0 s
      else let va0 = PGROUNDDOWN va in
        bind (uva2ka pgdir va0 s) (\<lambda>pa0 s.
        if pa0 = 0 then Done (-1) s
        else let n = unat (PGSIZE - (va - va0));
                 n = (if n > length buf then length buf else n);
                 s = s\<lparr>mem := store_bytes (mem s) (pa0 + (va - va0)) (take n buf)\<rparr>
             in copyout pgdir (va0 + PGSIZE) (drop n buf) s))"
  by pat_completeness auto
termination
proof (relation "measure (\<lambda>(_, _, buf, _). length buf)", goal_cases)
  case (2 pgdir va buf s va0 pa0 t n n' u)
  have "in_page va0 va" using 2(2) by (simp add: in_page_iff PGROUNDDOWN_eq_PTE_ADDR)
  then have "unat (va - va0) < 4096" by (simp add: in_page_def word_less_nat_alt)
  then have "unat (PGSIZE - (va - va0)) = 4096 - unat (va - va0)"
    by (subst unat_minus_le) (simp_all add: word_le_nat_alt)
  then have "0 < n" using 2(5) \<open>unat (va - va0) < 4096\<close> by simp
  then show ?case using 2(1,6) by auto
qed simp

declare copyout.simps [simp del]

fun mprotect_check :: "nat \<Rightarrow> u32 \<Rightarrow> u32 \<Rightarrow> 'z vmst_scheme \<Rightarrow> ('z vmst_scheme, bool) outcome" where
  "mprotect_check n pgdir addr s =
     (if n = 0 then Done True s
      else bind (uva2ka pgdir addr s) (\<lambda>ka s.
        if sint ka mod 4096 \<noteq> 0 then Done False s else mprotect_check (n - 1) pgdir addr s))"

fun mprotect_loop :: "nat \<Rightarrow> u32 \<Rightarrow> u32 \<Rightarrow> (u32 \<Rightarrow> u32) \<Rightarrow> 'z vmst_scheme \<Rightarrow> ('z vmst_scheme, int) outcome" where
  "mprotect_loop n pgdir addr f s =
     (if n = 0 then Done 0 (s\<lparr>cr3 := V2P pgdir\<rparr>)
      else bind (walkpgdir pgdir addr False s) (\<lambda>x s.
        if x \<noteq> 0 then
          if load32 (mem s) x AND PTE_P \<noteq> 0 \<and> load32 (mem s) x AND PTE_U \<noteq> 0 then
            let s = s\<lparr>mem := store32 (mem s) x (f (load32 (mem s) x))\<rparr>
            in mprotect_loop (n - 1) pgdir (addr + PGSIZE) f s
          else Done (-1) s
        else Done (-1) s))"

text \<open>\<open>pgdir\<close> is the page directory of the current process, and \<open>len\<close> a C \<^verbatim>\<open>int\<close>.\<close>

definition mprotect :: "u32 \<Rightarrow> u32 \<Rightarrow> int \<Rightarrow> 'z vmst_scheme \<Rightarrow> ('z vmst_scheme, int) outcome" where
  "mprotect pgdir addr len s =
     (if len < 1 then Done (-1) s
      else bind (mprotect_check (nat len) pgdir addr s) (\<lambda>ok s.
        if \<not> ok then Done (-1) s
        else mprotect_loop (nat len) pgdir addr (\<lambda>x. x AND NOT PTE_W) s))"

definition munprotect :: "u32 \<Rightarrow> u32 \<Rightarrow> int \<Rightarrow> 'z vmst_scheme \<Rightarrow> ('z vmst_scheme, int) outcome" where
  "munprotect pgdir addr len s =
     (if len < 1 then Done (-1) s
      else bind (mprotect_check (nat len) pgdir addr s) (\<lambda>ok s.
        if \<not> ok then Done (-1) s
        else mprotect_loop (nat len) pgdir addr (\<lambda>x. x OR PTE_W) s))"

declare mappages_loop.simps [simp del] deallocuvm_loop.simps [simp del] allocuvm_loop.simps [simp del]
  copyuvm_loop.simps [simp del] mprotect_check.simps [simp del] mprotect_loop.simps [simp del]

end
