(* ===== verification/Vm_Tables.thy ===== *)
theory Vm_Tables
  imports Vm
begin

text \<open>
  What the page table functions of \<open>Vm\<close> do to the map from addresses to page table entries.
  \<open>pt_pages\<close> are the pages a page directory is made of. \<open>pt_inv s pd ps\<close> says that they are
  pages the allocator may own, all different and none of them on the free list \<open>ps\<close>.
  \<open>pt_step\<close> is what every function that only extends a page table keeps: it takes pages from the
  free list and changes no byte outside of the table and of the pages it took.
\<close>

section \<open>Entries\<close>

lemma pres_iff: "(e :: u32) AND 1 = 0 \<longleftrightarrow> even e"
  by (simp add: and_one_eq even_iff_mod_2_eq_zero)

lemma entry_apart:
  assumes "unat i < 1024" and "unat j < 1024" and "i \<noteq> (j :: u32)"
  shows "apart4 (p + 4 * i) (p + 4 * j)"
proof -
  have *: "4 \<le> 4 * b - 4 * a \<and> 4 \<le> 4 * a - 4 * b" if "unat a < unat b" "unat b < 1024" for a b :: u32
  proof -
    have u: "unat (4 * a) = 4 * unat a" "unat (4 * b) = 4 * unat b"
      using that by (simp_all add: unat_word_ariths)
    then have d: "unat (4 * b - 4 * a) = 4 * (unat b - unat a)"
      using that by (subst unat_minus_le) (simp_all add: word_le_nat_alt)
    have "4 \<le> unat (4 * a - 4 * b)"
    proof (rule ccontr)
      assume "\<not> ?thesis"
      then have "unat ((4 * a - 4 * b) + (4 * b - 4 * a)) = unat (4 * a - 4 * b) + unat (4 * b - 4 * a)"
        using d that by (intro unat_add_small) simp
      then show False using d that by simp
    qed
    then show ?thesis using d that by (simp add: word_le_nat_alt)
  qed
  have "unat i \<noteq> unat j" using assms(3) u32_eqI by blast
  then show ?thesis using * [of i j] * [of j i] assms(1,2) by (cases "unat i < unat j") (auto simp: apart4_def)
qed


lemma unat_PDX_less [simp]: "unat (PDX va) < 1024"
  using unat_u32_less [of va] by (simp add: unat_PDX)

lemma unat_PTX_less [simp]: "unat (PTX va) < 1024"
  by (simp add: unat_PTX)

lemma same_page_iff: "PTE_ADDR va = PTE_ADDR vb \<longleftrightarrow> PDX va = PDX vb \<and> PTX va = PTX vb"
proof
  assume "PTE_ADDR va = PTE_ADDR vb"
  then have "unat va div 4096 * 4096 = unat vb div 4096 * 4096" by (metis unat_PTE_ADDR)
  then have d: "unat va div 4096 = unat vb div 4096" by simp
  have "unat va div 4194304 = unat va div 4096 div 1024" "unat vb div 4194304 = unat vb div 4096 div 1024"
    by (simp_all add: div_mult2_eq [symmetric])
  then show "PDX va = PDX vb \<and> PTX va = PTX vb" using d by (simp add: u32_eqI unat_PDX unat_PTX)
next
  assume "PDX va = PDX vb \<and> PTX va = PTX vb"
  then have "unat va div 4194304 = unat vb div 4194304" "unat va div 4096 mod 1024 = unat vb div 4096 mod 1024"
    by (metis unat_PDX, metis unat_PTX)
  moreover have "unat x div 4194304 = unat x div 4096 div 1024" for x :: u32
    by (simp add: div_mult2_eq [symmetric])
  ultimately have "unat va div 4096 = unat vb div 4096"
    by (metis div_mult_mod_eq)
  then show "PTE_ADDR va = PTE_ADDR vb" by (intro u32_eqI) (simp add: unat_PTE_ADDR)
qed

section \<open>The pages of a page table\<close>

definition ptab :: "mem \<Rightarrow> u32 \<Rightarrow> u32 \<Rightarrow> u32 option" where
  "ptab m pd i =
     (let e = load32 m (pd + 4 * i) in if e AND PTE_P = 0 then None else Some (P2V (PTE_ADDR e)))"

definition pt_pages :: "mem \<Rightarrow> u32 \<Rightarrow> u32 set" where
  "pt_pages m pd = insert pd {t. \<exists>i. unat i < 1024 \<and> ptab m pd i = Some t}"

definition pt_inv :: "'z kmem_scheme \<Rightarrow> u32 \<Rightarrow> u32 list \<Rightarrow> bool" where
  "pt_inv s pd ps \<longleftrightarrow>
     kmem_inv s ps \<and> (\<forall>p \<in> pt_pages (mem s) pd. page_ok s p \<and> p \<notin> set ps) \<and>
     (\<forall>i. unat i < 1024 \<longrightarrow> ptab (mem s) pd i \<noteq> Some pd) \<and>
     (\<forall>i j t. unat i < 1024 \<longrightarrow> unat j < 1024 \<longrightarrow> ptab (mem s) pd i = Some t \<longrightarrow> ptab (mem s) pd j = Some t
        \<longrightarrow> i = j)"

lemma pt_pagesI: "ptab m pd i = Some t \<Longrightarrow> unat i < 1024 \<Longrightarrow> t \<in> pt_pages m pd"
  by (auto simp: pt_pages_def)

lemma pt_pages_pd [simp]: "pd \<in> pt_pages m pd"
  by (simp add: pt_pages_def)

lemma pt_invD:
  assumes "pt_inv s pd ps"
  shows "kmem_inv s ps" and "page_ok s pd" and "pd \<notin> set ps"
    and "unat i < 1024 \<Longrightarrow> ptab (mem s) pd i = Some t \<Longrightarrow> page_ok s t \<and> t \<notin> set ps \<and> t \<noteq> pd"
    and "unat i < 1024 \<Longrightarrow> unat j < 1024 \<Longrightarrow> ptab (mem s) pd i = Some t \<Longrightarrow> ptab (mem s) pd j = Some t \<Longrightarrow> i = j"
  using assms by (auto simp: pt_inv_def pt_pages_def)

lemma pte_of_ptab:
  "pte_of m pd va = (case ptab m pd (PDX va) of None \<Rightarrow> 0 | Some t \<Rightarrow> load32 m (t + 4 * PTX va))"
  by (simp add: pte_of_def pde_of_def ptab_def Let_def)

lemma pte_of_entry: "ptab m pd (PDX va) = Some t \<Longrightarrow> load32 m (t + 4 * PTX va) = pte_of m pd va"
  by (simp add: pte_of_ptab)

lemma walkpgdir_False:
  "walkpgdir pd va False s =
     Done (case ptab (mem s) pd (PDX va) of None \<Rightarrow> 0 | Some t \<Rightarrow> t + 4 * PTX va) s"
  by (simp add: walkpgdir_def ptab_def Let_def)

lemma ptab_cong:
  "aligned pd \<Longrightarrow> unat i < 1024 \<Longrightarrow> (\<And>x. in_page pd x \<Longrightarrow> m x = m' x) \<Longrightarrow> ptab m pd i = ptab m' pd i"
  using load32_page_cong [OF in_page4_entry, of i pd m m'] by (simp add: ptab_def)

lemma pt_pages_cong:
  "aligned pd \<Longrightarrow> (\<And>x. in_page pd x \<Longrightarrow> m x = m' x) \<Longrightarrow> pt_pages m pd = pt_pages m' pd"
  unfolding pt_pages_def by (metis (no_types, lifting) ptab_cong)

lemma pte_of_cong:
  assumes "aligned pd" and "\<And>x. in_page pd x \<Longrightarrow> m x = m' x"
    and "\<And>t x. ptab m pd (PDX va) = Some t \<Longrightarrow> in_page t x \<Longrightarrow> m x = m' x"
  shows "pte_of m pd va = pte_of m' pd va"
proof -
  have "ptab m pd (PDX va) = ptab m' pd (PDX va)" using assms(1,2) by (intro ptab_cong) simp_all
  moreover have "load32 m (t + 4 * PTX va) = load32 m' (t + 4 * PTX va)" if "ptab m pd (PDX va) = Some t" for t
    using assms(3) [OF that] by (intro load32_page_cong [OF in_page4_entry]) simp_all
  ultimately show ?thesis by (simp add: pte_of_ptab split: option.split)
qed

text \<open>A change outside of the pages of a page table.\<close>

lemma pt_inv_frame:
  assumes "pt_inv s pd ps" and "kmem_inv t qs" and "page_ok t = page_ok s"
    and "\<And>p x. p \<in> pt_pages (mem s) pd \<Longrightarrow> in_page p x \<Longrightarrow> mem t x = mem s x"
    and "pt_pages (mem s) pd \<inter> set qs = {}"
  shows "pt_inv t pd qs" and "pt_pages (mem t) pd = pt_pages (mem s) pd"
    and "pte_of (mem t) pd va = pte_of (mem s) pd va"
proof -
  have al: "aligned pd" using pt_invD(2) [OF assms(1)] page_ok_aligned by blast
  have same: "mem s x = mem t x" if "in_page pd x" for x
    using assms(4) [of pd x] that by (simp add: pt_pages_def)
  note tab = ptab_cong [OF al _ same]
  show pp: "pt_pages (mem t) pd = pt_pages (mem s) pd" using pt_pages_cong [OF al same] by simp
  show "pt_inv t pd qs"
    using assms(1,2,3,5) tab pp unfolding pt_inv_def by (auto simp: disjoint_iff)
  show "pte_of (mem t) pd va = pte_of (mem s) pd va"
  proof (rule pte_of_cong [OF al same, symmetric])
    fix p x
    assume "ptab (mem s) pd (PDX va) = Some p" "in_page p x"
    then show "mem s x = mem t x" using assms(4) [of p x] pt_pagesI [of "mem s" pd "PDX va" p] by simp
  qed
qed

section \<open>Extending a page table\<close>

text \<open>Two states that differ in memory, in the free list and in the messages only.\<close>

definition ksame :: "'z kmem_scheme \<Rightarrow> 'z kmem_scheme \<Rightarrow> bool" where
  "ksame s t \<longleftrightarrow> t\<lparr>clog := clog s, mem := mem s, freelist := freelist s\<rparr> = s"

lemma ksame_refl [simp]: "ksame s s"
  by (simp add: ksame_def)

lemma ksame_trans [trans]: "ksame s t \<Longrightarrow> ksame t u \<Longrightarrow> ksame s u"
proof -
  assume st: "ksame s t" and tu: "ksame t u"
  have "u\<lparr>clog := clog s, mem := mem s, freelist := freelist s\<rparr> =
      (u\<lparr>clog := clog t, mem := mem t, freelist := freelist t\<rparr>)\<lparr>clog := clog s, mem := mem s, freelist := freelist s\<rparr>"
    by simp
  also have "\<dots> = t\<lparr>clog := clog s, mem := mem s, freelist := freelist s\<rparr>"
    using tu by (simp only: ksame_def)
  also have "\<dots> = s" using st by (simp only: ksame_def)
  finally show ?thesis by (simp only: ksame_def)
qed

lemma ksame_upd [simp]:
  "ksame s (t\<lparr>mem := m\<rparr>) = ksame s t" "ksame s (t\<lparr>freelist := f\<rparr>) = ksame s t" "ksame s (klog msg t) = ksame s t"
  by (simp_all add: ksame_def klog_def)

lemma ksameD:
  assumes "ksame s t"
  shows "held t = held s" and "kend t = kend s" and "use_lock t = use_lock s" and "page_ok t = page_ok s"
    and "kmem.more t = kmem.more s"
proof -
  have e: "t\<lparr>clog := clog s, mem := mem s, freelist := freelist s\<rparr> = s" using assms by (simp add: ksame_def)
  show "held t = held s" using arg_cong [OF e, of held] by simp
  show k: "kend t = kend s" using arg_cong [OF e, of kend] by simp
  show "use_lock t = use_lock s" using arg_cong [OF e, of use_lock] by simp
  show "page_ok t = page_ok s" by (simp add: page_ok_def fun_eq_iff k)
  show "kmem.more t = kmem.more s" using arg_cong [OF e, of kmem.more] by simp
qed

lemma kmem_inv_klog [simp]: "kmem_inv (klog msg s) ps = kmem_inv s ps"
  by (simp add: kmem_inv_def klog_def page_ok_def)

lemma kmem_inv_frame:
  assumes "kmem_inv s ps" and "\<And>p x. p \<in> set ps \<Longrightarrow> in_page p x \<Longrightarrow> m x = mem s x"
  shows "kmem_inv (s\<lparr>mem := m\<rparr>) ps"
proof -
  have "load32 m p = load32 (mem s) p" if "p \<in> set ps" for p
    using assms(2) [OF that] by (intro load32_page_cong [OF in_page4_base])
  then have "flist m (freelist s) ps = flist (mem s) (freelist s) ps" by (rule flist_cong)
  then show ?thesis using assms(1) by (simp add: kmem_inv_def)
qed

definition pt_step :: "'z kmem_scheme \<Rightarrow> u32 \<Rightarrow> u32 list \<Rightarrow> 'z kmem_scheme \<Rightarrow> u32 list \<Rightarrow> bool" where
  "pt_step s pd ps t qs \<longleftrightarrow>
     ksame s t \<and> pt_inv t pd qs \<and> set qs \<subseteq> set ps \<and> pt_pages (mem s) pd \<subseteq> pt_pages (mem t) pd \<and>
     pt_pages (mem t) pd \<union> set qs = pt_pages (mem s) pd \<union> set ps \<and>
     (\<forall>x. (\<forall>p \<in> pt_pages (mem t) pd. \<not> in_page p x) \<longrightarrow> mem t x = mem s x)"

lemma pt_step_refl: "pt_inv s pd ps \<Longrightarrow> pt_step s pd ps s ps"
  by (simp add: pt_step_def)

lemma pt_step_trans:
  assumes "pt_step s pd ps t qs" and "pt_step t pd qs u rs"
  shows "pt_step s pd ps u rs"
proof -
  have "mem u x = mem s x" if "\<forall>p \<in> pt_pages (mem u) pd. \<not> in_page p x" for x
    using assms that unfolding pt_step_def by (metis subsetD)
  then show ?thesis using assms ksame_trans unfolding pt_step_def by blast
qed

text \<open>Writing the entry of an address that has a page table.\<close>

lemma ptab_store_entry:
  assumes "aligned pd" "aligned p" "p \<noteq> pd" "in_page4 p a" "unat i < 1024"
  shows "ptab (store32 m a v) pd i = ptab m pd i"
proof (rule ptab_cong [symmetric])
  fix x
  assume "in_page pd x"
  then have "\<not> in_page p x" using assms(1-3) in_page_disjoint by blast
  then show "m x = store32 m a v x" by (simp add: store32_frame [OF assms(4)])
qed (use assms in simp_all)

lemma set_pte:
  assumes inv: "pt_inv s pd ps" and tab: "ptab (mem s) pd (PDX va) = Some p"
  shows "pt_step s pd ps (s\<lparr>mem := store32 (mem s) (p + 4 * PTX va) v\<rparr>) ps" (is "pt_step _ _ _ ?t _")
    and "pte_of (store32 (mem s) (p + 4 * PTX va) v) pd vb =
      (if PTE_ADDR vb = PTE_ADDR va then v else pte_of (mem s) pd vb)"
    and "\<And>i. unat i < 1024 \<Longrightarrow> ptab (store32 (mem s) (p + 4 * PTX va) v) pd i = ptab (mem s) pd i"
proof -
  let ?m = "store32 (mem s) (p + 4 * PTX va) v"
  note D = pt_invD [OF inv]
  have p: "page_ok s p" "p \<notin> set ps" "p \<noteq> pd" using D(4) [OF _ tab] by auto
  have al: "aligned pd" "aligned p" using D(2) p(1) page_ok_aligned by auto
  have e4: "in_page4 p (p + 4 * PTX va)" by (rule in_page4_entry) simp
  note frame = store32_frame [OF e4]
  show tabs: "ptab ?m pd i = ptab (mem s) pd i" if "unat i < 1024" for i
    by (rule ptab_store_entry [OF al p(3) e4 that])
  then have pp: "pt_pages ?m pd = pt_pages (mem s) pd" by (auto simp: pt_pages_def)
  have kin: "kmem_inv (s\<lparr>mem := ?m\<rparr>) ps"
  proof (rule kmem_inv_frame [OF D(1)])
    fix q x
    assume "q \<in> set ps" "in_page q x"
    moreover from this have "aligned q" using D(1) by (auto simp: kmem_inv_def page_ok_def)
    ultimately have "\<not> in_page p x" using p(2) al(2) in_page_disjoint by blast
    then show "?m x = mem s x" by (rule frame)
  qed
  have "pt_inv (s\<lparr>mem := ?m\<rparr>) pd ps"
    using inv kin tabs pp unfolding pt_inv_def by auto
  moreover have "?m x = mem s x" if "\<forall>q \<in> pt_pages ?m pd. \<not> in_page q x" for x
    using that pp pt_pagesI [OF tab] frame by auto
  ultimately show "pt_step s pd ps (s\<lparr>mem := ?m\<rparr>) ps" by (simp add: pt_step_def pp)
  show "pte_of ?m pd vb = (if PTE_ADDR vb = PTE_ADDR va then v else pte_of (mem s) pd vb)"
  proof (cases "ptab (mem s) pd (PDX vb)")
    case None
    then have "PDX vb \<noteq> PDX va" using tab by auto
    then show ?thesis using None tabs by (simp add: pte_of_ptab same_page_iff)
  next
    case (Some q)
    show ?thesis
    proof (cases "q = p")
      case True
      then have "PDX vb = PDX va" using D(5) [OF _ _ Some] tab by simp
      then show ?thesis using True Some tabs load32_store32_apart [OF entry_apart, of "PTX va" "PTX vb" "mem s" p v]
        by (simp add: pte_of_ptab same_page_iff)
    next
      case False
      then have "PDX vb \<noteq> PDX va" using Some tab by auto
      moreover have "load32 ?m (q + 4 * PTX vb) = load32 (mem s) (q + 4 * PTX vb)"
        using D(4) [OF _ Some] False al page_ok_aligned frame
        by (intro load32_other_page [of p q] in_page4_entry) auto
      ultimately show ?thesis using Some tabs by (simp add: pte_of_ptab same_page_iff)
    qed
  qed
qed

text \<open>A page taken from the free list becomes a page table.\<close>

lemma entry_kernel:
  assumes "page_ok s p" and "unat i < 1024"
  shows "p + 4 * i \<noteq> 0" and "KERNBASE \<le> p + 4 * i" and "unat (p + 4 * i) = unat p + 4 * unat i"
proof -
  have i: "unat (4 * i) = 4 * unat i" using assms(2) by (simp add: unat_word_ariths)
  then show u: "unat (p + 4 * i) = unat p + 4 * unat i"
    using page_ok_bounds [OF assms(1)] assms(2) by (subst unat_add_small) simp_all
  show "p + 4 * i \<noteq> 0" using u page_ok_bounds(1) [OF assms(1)] by auto
  show "KERNBASE \<le> p + 4 * i" using u page_ok_bounds(1) [OF assms(1)] by (simp add: word_le_nat_alt)
qed

lemma PTE_ADDR_new: "aligned p \<Longrightarrow> P2V (PTE_ADDR (V2P p OR 7)) = p"
  using PTE_ADDR_OR(1) [of "V2P p" 7] by simp

lemma new_ptab:
  assumes al: "aligned pd" "aligned p" "p \<noteq> pd" and i: "unat i < 1024"
    and m': "m' = store32 (memset m p 0 PGSIZE) (pd + 4 * i) (V2P p OR 7)"
  shows "ptab m' pd i = Some p" and "unat j < 1024 \<Longrightarrow> j \<noteq> i \<Longrightarrow> ptab m' pd j = ptab m pd j"
    and "unat j < 1024 \<Longrightarrow> load32 m' (p + 4 * j) = 0"
    and "\<not> in_page p x \<Longrightarrow> \<not> in_page pd x \<Longrightarrow> m' x = m x"
proof -
  have e4: "in_page4 pd (pd + 4 * i)" by (rule in_page4_entry [OF i])
  show "ptab m' pd i = Some p"
    using PTE_ADDR_new [OF al(2)] by (simp add: m' ptab_def pres_iff even_or_iff)
  show "\<not> in_page p x \<Longrightarrow> \<not> in_page pd x \<Longrightarrow> m' x = m x"
    by (simp add: m' store32_frame [OF e4] memset_page)
  show "load32 m' (p + 4 * j) = 0" if "unat j < 1024"
  proof (rule load32_zero_page [OF in_page4_entry [OF that]])
    fix x
    assume "in_page p x"
    moreover from this have "\<not> in_page pd x" using in_page_disjoint [OF al(1,2)] al(3) by blast
    ultimately show "m' x = 0" by (simp add: m' store32_frame [OF e4] memset_page)
  qed
  show "ptab m' pd j = ptab m pd j" if j: "unat j < 1024" "j \<noteq> i"
  proof -
    have "load32 m' (pd + 4 * j) = load32 (memset m p 0 PGSIZE) (pd + 4 * j)"
      using entry_apart [OF i j(1)] j(2) unfolding m' by (intro load32_store32_apart) auto
    also have "\<dots> = load32 m (pd + 4 * j)"
      using al by (intro load32_other_page [of p pd] in_page4_entry [OF j(1)]) (auto simp: memset_page)
    finally show ?thesis by (simp add: ptab_def)
  qed
qed

lemma new_table:
  assumes inv: "pt_inv s pd (p # qs)" and i: "unat i < 1024" and none: "ptab (mem s) pd i = None"
    and m': "m' = store32 (memset (mem s) p 0 PGSIZE) (pd + 4 * i) (V2P p OR 7)"
  shows "pt_step s pd (p # qs) (s\<lparr>freelist := load32 (mem s) p, mem := m'\<rparr>) qs"
    and "pte_of m' pd vb = pte_of (mem s) pd vb" and "ptab m' pd i = Some p"
proof -
  note D = pt_invD [OF inv]
  note K = kalloc_ok [OF D(1)]
  have al: "aligned pd" "aligned p" using D(2) K(3) page_ok_aligned by auto
  have ne: "p \<noteq> pd" using D(3) by auto
  note N = new_ptab [OF al ne i m']
  show "ptab m' pd i = Some p" by (rule N(1))
  have old: "ptab m' pd j = Some t \<longleftrightarrow> (if j = i then t = p else ptab (mem s) pd j = Some t)" if "unat j < 1024" for j t
    using N(1) N(2) [OF that] by auto
  then have "t \<in> pt_pages m' pd \<longleftrightarrow> t = p \<or> t \<in> pt_pages (mem s) pd" for t
    unfolding pt_pages_def using i none by (auto 4 3 split: if_splits)
  then have pp: "pt_pages m' pd = insert p (pt_pages (mem s) pd)" by auto
  have kin: "kmem_inv (s\<lparr>freelist := load32 (mem s) p, mem := m'\<rparr>) qs"
  proof (rule kmem_inv_frame [OF K(2)])
    fix q x
    assume q: "q \<in> set qs" "in_page q x"
    then have "aligned q" "q \<noteq> p" "q \<noteq> pd" using D(1,3) K(5) by (auto simp: kmem_inv_def page_ok_def)
    then show "m' x = mem (s\<lparr>freelist := load32 (mem s) p\<rparr>) x"
      using N(4) in_page_disjoint q(2) al by auto
  qed
  have "pt_inv (s\<lparr>freelist := load32 (mem s) p, mem := m'\<rparr>) pd qs"
    unfolding pt_inv_def
  proof (intro conjI kin allI impI)
    show "\<forall>q \<in> pt_pages (mem (s\<lparr>freelist := load32 (mem s) p, mem := m'\<rparr>)) pd.
        page_ok (s\<lparr>freelist := load32 (mem s) p, mem := m'\<rparr>) q \<and> q \<notin> set qs"
      using inv K(3,5) by (auto simp: pp pt_inv_def)
    fix j k :: u32 and t
    assume "unat j < 1024"
    then show "ptab (mem (s\<lparr>freelist := load32 (mem s) p, mem := m'\<rparr>)) pd j \<noteq> Some pd"
      using D(4) [of j pd] old [of j pd] ne by auto
    assume k: "unat k < 1024" "ptab (mem (s\<lparr>freelist := load32 (mem s) p, mem := m'\<rparr>)) pd j = Some t"
      "ptab (mem (s\<lparr>freelist := load32 (mem s) p, mem := m'\<rparr>)) pd k = Some t"
    then show "j = k"
      using \<open>unat j < 1024\<close> old [of j t] old [of k t] D(4) [of j t] D(4) [of k t] D(5) [of j k t]
      by (auto split: if_splits)
  qed
  then show "pt_step s pd (p # qs) (s\<lparr>freelist := load32 (mem s) p, mem := m'\<rparr>) qs"
    using N(4) pp by (auto simp: pt_step_def)
  show "pte_of m' pd vb = pte_of (mem s) pd vb"
  proof (cases "PDX vb = i")
    case True
    then show ?thesis using N(1) N(3) [of "PTX vb"] none by (simp add: pte_of_ptab)
  next
    case False
    have "load32 m' (t + 4 * PTX vb) = load32 (mem s) (t + 4 * PTX vb)" if t: "ptab (mem s) pd (PDX vb) = Some t" for t
    proof (rule load32_page_cong [OF in_page4_entry])
      fix x
      assume "in_page t x"
      moreover have "aligned t" "t \<noteq> pd" "t \<noteq> p" using D(4) [OF _ t] page_ok_aligned by auto
      ultimately show "m' x = mem s x" using N(4) [of x] in_page_disjoint al by blast
    qed simp
    then show ?thesis using N(2) [of "PDX vb"] False by (simp add: pte_of_ptab split: option.split)
  qed
qed

lemma walk_alloc:
  assumes inv: "pt_inv s pd ps"
  obtains (empty) "ptab (mem s) pd (PDX va) = None" and "ps = []" and "walkpgdir pd va True s = Done 0 s"
  | (found) t qs p where "walkpgdir pd va True s = Done (p + 4 * PTX va) t" and "p + 4 * PTX va \<noteq> 0"
      and "ptab (mem t) pd (PDX va) = Some p" and "pt_step s pd ps t qs"
      and "\<And>vb. pte_of (mem t) pd vb = pte_of (mem s) pd vb"
proof (cases "ptab (mem s) pd (PDX va)")
  case (Some p)
  moreover from this have "walkpgdir pd va True s = Done (p + 4 * PTX va) s"
    by (auto simp: walkpgdir_def ptab_def Let_def split: if_splits)
  moreover have "page_ok s p" using pt_invD(4) [OF inv _ Some] by simp
  ultimately show thesis
    using found [of p s ps] entry_kernel(1) [of s p "PTX va"] pt_step_refl [OF inv] by simp
next
  case None
  then have abs: "load32 (mem s) (pd + 4 * PDX va) AND 1 = 0"
    by (simp add: ptab_def Let_def split: if_splits)
  note D = pt_invD [OF inv]
  show thesis
  proof (cases ps)
    case Nil
    then show thesis using empty None abs kalloc_empty [of s] D(1) by (simp add: walkpgdir_def)
  next
    case (Cons p qs)
    note K = kalloc_ok [OF D(1) [unfolded Cons]]
    note N = new_table [OF inv [unfolded Cons] _ None refl, simplified]
    have "walkpgdir pd va True s = Done (p + 4 * PTX va)
        (s\<lparr>freelist := load32 (mem s) p, mem := store32 (memset (mem s) p 0 PGSIZE) (pd + 4 * PDX va) (V2P p OR 7)\<rparr>)"
      using abs K(1,4) by (simp add: walkpgdir_def Let_def)
    then show thesis
      using found [OF _ entry_kernel(1) [OF K(3)]] N by (simp add: Cons)
  qed
qed

section \<open>Mapping a range\<close>

text \<open>The entries after \<open>k\<close> pages from \<open>a\<close> on have been mapped to physical pages from \<open>pa\<close> on.\<close>

definition mapped :: "u32 \<Rightarrow> nat \<Rightarrow> u32 \<Rightarrow> u32 \<Rightarrow> (u32 \<Rightarrow> u32) \<Rightarrow> u32 \<Rightarrow> u32" where
  "mapped a k pa perm f va =
     (if unat a \<le> unat va \<and> unat va < unat a + 4096 * k then (pa + PTE_ADDR (va - a)) OR perm OR PTE_P
      else f va)"

lemma mapped_0 [simp]: "mapped a 0 pa perm f = f"
  by (rule ext) (auto simp: mapped_def)

lemma page_range: "aligned a \<Longrightarrow> PTE_ADDR va = a \<longleftrightarrow> unat a \<le> unat va \<and> unat va < unat a + 4096"
proof -
  assume "aligned a"
  then obtain q where q: "unat a = 4096 * q" by (auto simp: aligned_unat)
  have "PTE_ADDR va = a \<longleftrightarrow> unat (PTE_ADDR va) = unat a" using u32_eqI by auto
  also have "\<dots> \<longleftrightarrow> unat va div 4096 = q" using q by (simp add: unat_PTE_ADDR)
  also have "\<dots> \<longleftrightarrow> 4096 * q \<le> unat va \<and> unat va < 4096 * q + 4096" by auto
  finally show ?thesis using q by simp
qed

lemma PTE_ADDR_minus_page: "4096 \<le> unat d \<Longrightarrow> PTE_ADDR (d - 4096) = PTE_ADDR d - 4096"
proof (rule u32_eqI)
  assume d: "4096 \<le> unat d"
  then obtain r where r: "unat d = r + 4096" using le_Suc_ex by (metis add.commute)
  have a: "unat (d - 4096) = r" using d r by (subst unat_minus_le) (simp_all add: word_le_nat_alt)
  have "unat (PTE_ADDR d - 4096) = unat (PTE_ADDR d) - 4096"
    using r by (subst unat_minus_le) (simp_all add: word_le_nat_alt unat_PTE_ADDR)
  then show "unat (PTE_ADDR (d - 4096)) = unat (PTE_ADDR d - 4096)"
    using a r div_add_self2 [of 4096 r] by (simp add: unat_PTE_ADDR)
qed

lemma mapped_Suc:
  assumes al: "aligned a" and fits: "unat a + 4096 * Suc k \<le> 4294967296"
  shows "mapped a (Suc k) pa perm f =
    mapped (a + PGSIZE) k (pa + PGSIZE) perm (\<lambda>va. if PTE_ADDR va = a then pa OR perm OR PTE_P else f va)"
proof
  fix va
  show "mapped a (Suc k) pa perm f va =
    mapped (a + PGSIZE) k (pa + PGSIZE) perm (\<lambda>va. if PTE_ADDR va = a then pa OR perm OR PTE_P else f va) va"
  proof (cases "PTE_ADDR va = a")
    case True
    then have r: "unat a \<le> unat va" "unat va < unat a + 4096" using page_range [OF al] by auto
    then have "unat (va - a) < 4096" by (subst unat_minus_le) (auto simp: word_le_nat_alt)
    then have z: "PTE_ADDR (va - a) = 0" by (intro u32_eqI) (simp add: unat_PTE_ADDR)
    have "k \<noteq> 0 \<Longrightarrow> unat (a + 4096) = unat a + 4096"
      using fits unat_add_small [of a 4096] by simp
    then have "\<not> (unat (a + 4096) \<le> unat va \<and> unat va < unat (a + 4096) + 4096 * k)"
      using r by (cases "k = 0") auto
    then show ?thesis using True r z by (auto simp: mapped_def)
  next
    case False
    then have far: "\<not> (unat a \<le> unat va \<and> unat va < unat a + 4096)" using page_range [OF al] by simp
    show ?thesis
    proof (cases "k = 0")
      case True
      then show ?thesis using far False by (auto simp: mapped_def)
    next
      case k: False
      then have u: "unat (a + 4096) = unat a + 4096" using fits unat_add_small [of a 4096] by simp
      have "pa + PTE_ADDR (va - a) = pa + 4096 + PTE_ADDR (va - (a + 4096))" if "unat a + 4096 \<le> unat va"
      proof -
        have "unat (va - a) = unat va - unat a" using that by (subst unat_minus_le) (auto simp: word_le_nat_alt)
        then have "4096 \<le> unat (va - a)" using that by simp
        then have "PTE_ADDR (va - (a + 4096)) = PTE_ADDR (va - a) - 4096"
          using PTE_ADDR_minus_page [of "va - a"] by (simp add: diff_diff_eq)
        then show ?thesis by simp
      qed
      moreover have "unat a \<le> unat va \<and> unat va < unat a + 4096 * Suc k \<longleftrightarrow>
          unat (a + 4096) \<le> unat va \<and> unat va < unat (a + 4096) + 4096 * k"
        using far u by auto
      ultimately show ?thesis using False u by (auto simp: mapped_def add.assoc)
    qed
  qed
qed

lemma map_one:
  assumes inv: "pt_inv s pd ps" and al: "aligned a" and free: "pte_of (mem s) pd a AND 1 = 0" and n: "0 < n"
  obtains (empty) "ps = []" and "mappages_loop n pd a lst pa perm s = Done (-1) s"
  | (found) t qs where "pt_step s pd ps t qs"
      and "pte_of (mem t) pd = (\<lambda>va. if PTE_ADDR va = a then pa OR perm OR PTE_P else pte_of (mem s) pd va)"
      and "mappages_loop n pd a lst pa perm s =
        (if a = lst then Done 0 t else mappages_loop (n - 1) pd (a + PGSIZE) lst (pa + PGSIZE) perm t)"
proof (rule walk_alloc [OF inv, of a])
  assume "ps = []" "walkpgdir pd a True s = Done 0 s"
  then show thesis using empty n by (simp add: mappages_loop.simps)
next
  fix t qs p
  assume W: "walkpgdir pd a True s = Done (p + 4 * PTX a) t" "p + 4 * PTX a \<noteq> 0"
    "ptab (mem t) pd (PDX a) = Some p" "pt_step s pd ps t qs" "\<And>vb. pte_of (mem t) pd vb = pte_of (mem s) pd vb"
  let ?t = "t\<lparr>mem := store32 (mem t) (p + 4 * PTX a) (pa OR perm OR 1)\<rparr>"
  have e: "load32 (mem t) (p + 4 * PTX a) = pte_of (mem s) pd a" using pte_of_entry [OF W(3)] W(5) by simp
  have tinv: "pt_inv t pd qs" using W(4) by (simp add: pt_step_def)
  note S = set_pte [OF tinv W(3), of "pa OR perm OR 1"]
  show thesis
  proof (rule found)
    show "pt_step s pd ps ?t qs" by (rule pt_step_trans [OF W(4) S(1)])
    show "pte_of (mem ?t) pd = (\<lambda>va. if PTE_ADDR va = a then pa OR perm OR 1 else pte_of (mem s) pd va)"
      using S(2) W(5) PTE_ADDR_id [OF al] by (simp add: fun_eq_iff)
    show "mappages_loop n pd a lst pa perm s =
        (if a = lst then Done 0 ?t else mappages_loop (n - 1) pd (a + 4096) lst (pa + 4096) perm ?t)"
      using n free W(1,2) e by (subst mappages_loop.simps) simp
  qed
qed

lemma mappages_loop_ok:
  assumes "pt_inv s pd ps" and "aligned a" and "unat a + 4096 * Suc k \<le> 4294967296"
    and "lst = a + PGSIZE * of_nat k" and "k < n"
    and "\<And>va. unat a \<le> unat va \<Longrightarrow> unat va < unat a + 4096 * Suc k \<Longrightarrow> pte_of (mem s) pd va AND 1 = 0"
  shows "\<exists>r t qs j. mappages_loop n pd a lst pa perm s = Done r t \<and> pt_step s pd ps t qs \<and>
    (\<forall>va. pte_of (mem t) pd va = mapped a j pa perm (pte_of (mem s) pd) va) \<and>
    (r = 0 \<and> j = Suc k \<or> r = -1 \<and> qs = [] \<and> j \<le> k)"
  using assms
proof (induction k arbitrary: a pa s ps n)
  case 0
  have "pte_of (mem s) pd a AND 1 = 0" "0 < n" using "0.prems" by simp_all
  note step = map_one [OF "0.prems"(1,2) this, of lst pa perm]
  show ?case
  proof (rule step)
    assume "ps = []" "mappages_loop n pd a lst pa perm s = Done (-1) s"
    then show ?thesis using pt_step_refl [OF "0.prems"(1)]
      by (intro exI [of _ "-1"] exI [of _ s] exI [of _ "[]"] exI [of _ 0]) simp
  next
    fix t qs
    assume T: "pt_step s pd ps t qs"
      "pte_of (mem t) pd = (\<lambda>va. if PTE_ADDR va = a then pa OR perm OR 1 else pte_of (mem s) pd va)"
      "mappages_loop n pd a lst pa perm s =
        (if a = lst then Done 0 t else mappages_loop (n - 1) pd (a + 4096) lst (pa + 4096) perm t)"
    then show ?thesis using "0.prems"(4) mapped_Suc [OF "0.prems"(2,3), of pa perm "pte_of (mem s) pd"]
      by (intro exI [of _ 0] exI [of _ t] exI [of _ qs] exI [of _ "Suc 0"]) simp
  qed
next
  case (Suc k)
  have u: "unat (a + 4096) = unat a + 4096" using Suc.prems(3) unat_add_small [of a 4096] by simp
  have "4096 * Suc k < 4294967296" using Suc.prems(3) by simp
  then have nl: "a \<noteq> lst" using Suc.prems(4) u32_add_of_nat_eq_iff [of 0 "4096 * Suc k" a] by auto
  have "pte_of (mem s) pd a AND 1 = 0" "0 < n" using Suc.prems by simp_all
  note step = map_one [OF Suc.prems(1,2) this, of lst pa perm]
  show ?case
  proof (rule step)
    assume "ps = []" "mappages_loop n pd a lst pa perm s = Done (-1) s"
    then show ?thesis using pt_step_refl [OF Suc.prems(1)]
      by (intro exI [of _ "-1"] exI [of _ s] exI [of _ "[]"] exI [of _ 0]) simp
  next
    fix t qs
    assume T: "pt_step s pd ps t qs"
      "pte_of (mem t) pd = (\<lambda>va. if PTE_ADDR va = a then pa OR perm OR 1 else pte_of (mem s) pd va)"
      "mappages_loop n pd a lst pa perm s =
        (if a = lst then Done 0 t else mappages_loop (n - 1) pd (a + 4096) lst (pa + 4096) perm t)"
    have "\<exists>r v rs j. mappages_loop (n - 1) pd (a + 4096) lst (pa + 4096) perm t = Done r v \<and> pt_step t pd qs v rs \<and>
      (\<forall>va. pte_of (mem v) pd va = mapped (a + 4096) j (pa + 4096) perm (pte_of (mem t) pd) va) \<and>
      (r = 0 \<and> j = Suc k \<or> r = -1 \<and> rs = [] \<and> j \<le> k)"
    proof (rule Suc.IH)
      show "pt_inv t pd qs" using T(1) by (simp add: pt_step_def)
      show "aligned (a + 4096)" using Suc.prems(2,3) by (intro aligned_add_page) simp_all
      show "lst = a + 4096 + 4096 * of_nat k" using Suc.prems(4) by (simp add: algebra_simps)
      fix va :: u32
      assume "unat (a + 4096) \<le> unat va" "unat va < unat (a + 4096) + 4096 * Suc k"
      then show "pte_of (mem t) pd va AND 1 = 0"
        using Suc.prems(6) [of va] u page_range [OF Suc.prems(2), of va] by (simp add: T(2))
    qed (use Suc.prems u in simp_all)
    then obtain r v rs j where R: "mappages_loop (n - 1) pd (a + 4096) lst (pa + 4096) perm t = Done r v"
      "pt_step t pd qs v rs" "\<And>va. pte_of (mem v) pd va = mapped (a + 4096) j (pa + 4096) perm (pte_of (mem t) pd) va"
      "r = 0 \<and> j = Suc k \<or> r = -1 \<and> rs = [] \<and> j \<le> k" by blast
    moreover have "pte_of (mem v) pd va = mapped a (Suc j) pa perm (pte_of (mem s) pd) va" for va
      using R(3) [of va] R(4) Suc.prems(2,3) mapped_Suc [of a j pa perm "pte_of (mem s) pd"] T(2) by auto
    ultimately show ?thesis using nl T(3) pt_step_trans [OF T(1) R(2)]
      by (intro exI [of _ r] exI [of _ v] exI [of _ rs] exI [of _ "Suc j"]) auto
  qed
qed

lemma mappages_ok:
  assumes inv: "pt_inv s pd ps" and al: "aligned va" and sz: "unat sz = 4096 * Suc k"
    and fits: "unat va + 4096 * Suc k \<le> 4294967296"
    and free: "\<And>vb. unat va \<le> unat vb \<Longrightarrow> unat vb < unat va + 4096 * Suc k \<Longrightarrow> pte_of (mem s) pd vb AND 1 = 0"
  shows "\<exists>r t qs j. mappages pd va sz pa perm s = Done r t \<and> pt_step s pd ps t qs \<and>
    (\<forall>vb. pte_of (mem t) pd vb = mapped va j pa perm (pte_of (mem s) pd) vb) \<and>
    (r = 0 \<and> j = Suc k \<or> r = -1 \<and> qs = [] \<and> j \<le> k)"
proof -
  have "sz = of_nat (4096 * Suc k)" using sz by (intro u32_of_unat)
  then have e: "va + sz - 1 = va + (of_nat (4096 * k + 4095) :: u32)" by (simp add: algebra_simps)
  have "unat (of_nat (4096 * k + 4095) :: u32) = 4096 * k + 4095" using fits by (intro unat_of_nat_u32) simp
  then have "unat (va + sz - 1) = unat va + 4096 * k + 4095"
    unfolding e using fits by (subst unat_add_small) simp_all
  moreover obtain q where q: "unat va = 4096 * q" using al by (auto simp: aligned_unat)
  moreover have "(4096 * q + 4096 * k + 4095) div 4096 = q + k" by presburger
  ultimately have "unat (PGROUNDDOWN (va + sz - 1)) = unat va + 4096 * k"
    by (simp add: unat_PGROUNDDOWN)
  moreover have "unat (va + 4096 * of_nat k) = unat va + 4096 * k"
  proof -
    have "unat (of_nat (4096 * k) :: u32) = 4096 * k" using fits by (intro unat_of_nat_u32) simp
    then show ?thesis using fits unat_add_small [of va "of_nat (4096 * k)"] by simp
  qed
  ultimately have l: "PGROUNDDOWN (va + sz - 1) = va + 4096 * of_nat k" by (intro u32_eqI) simp
  have k: "k < 1048576" using fits by simp
  have "PGROUNDDOWN va = va" using PTE_ADDR_id [OF al] by (simp add: PGROUNDDOWN_eq_PTE_ADDR)
  then show ?thesis
    using mappages_loop_ok [OF inv al fits l k free, of pa perm] by (simp add: mappages_def Let_def)
qed

end
