(* ===== verification/Protect.thy ===== *)
theory Protect
  imports Vm_Tables
begin

text \<open>
  Page protection: what \<^verbatim>\<open>uva2ka\<close>, \<^verbatim>\<open>mprotect\<close> and \<^verbatim>\<open>munprotect\<close> do to the
  page table entries of the current process. \<open>user_page\<close> is the test both make on an entry. A call
  changes the write bit of the leading pages of its range that pass the test, which is the whole
  range when it succeeds, and nothing else.
\<close>

definition user_page :: "mem \<Rightarrow> u32 \<Rightarrow> u32 \<Rightarrow> bool" where
  "user_page m pd va \<longleftrightarrow> pte_of m pd va AND PTE_P \<noteq> 0 \<and> pte_of m pd va AND PTE_U \<noteq> 0"

lemma user_page_ptab: "user_page m pd va \<Longrightarrow> \<exists>t. ptab m pd (PDX va) = Some t"
  by (cases "ptab m pd (PDX va)") (auto simp: user_page_def pte_of_ptab)

lemma kread32_kernel:
  assumes "KERNBASE \<le> a" and "unat a + 3 < 4294967296"
  shows "kread32 a s = Done (load32 (mem s) a) s"
proof -
  have "unat (a + 1) = unat a + 1" "unat (a + 2) = unat a + 2" "unat (a + 3) = unat a + 3"
    using assms(2) unat_add_small [of a 1] unat_add_small [of a 2] unat_add_small [of a 3] by simp_all
  then have "KERNBASE \<le> a + 1" "KERNBASE \<le> a + 2" "KERNBASE \<le> a + 3"
    using assms(1) by (simp_all add: word_le_nat_alt)
  then show ?thesis using assms(1) by (simp add: kread32_def kread8_def load32_def)
qed

lemma uva2ka_eq:
  assumes "pt_inv s pd ps" and "ptab (mem s) pd (PDX va) \<noteq> None"
  shows "uva2ka pd va s =
    Done (if user_page (mem s) pd va then P2V (PTE_ADDR (pte_of (mem s) pd va)) else 0) s"
proof -
  obtain t where t: "ptab (mem s) pd (PDX va) = Some t" using assms(2) by auto
  have ok: "page_ok s t" using pt_invD(4) [OF assms(1) _ t] by simp
  have "unat (t + 4 * PTX va) + 3 < 4294967296"
    using page_ok_bounds(2) [OF ok] entry_kernel(3) [OF ok, of "PTX va"] unat_PTX_less [of va] by linarith
  then show ?thesis
    using t entry_kernel(2) [OF ok, of "PTX va"] pte_of_entry [OF t]
    by (simp add: uva2ka_def walkpgdir_False kread32_kernel user_page_def)
qed

lemma uva2ka_unmapped:
  assumes "ptab (mem s) pd (PDX va) = None" and "xlate (mem s) (P2V (cr3 s)) 0 = None"
  shows "uva2ka pd va s = Fault 0"
  using assms by (simp add: uva2ka_def walkpgdir_False kread32_def kread8_def)

lemma aligned_sint: "aligned (a :: u32) \<Longrightarrow> sint a mod 4096 = 0"
proof -
  assume "aligned a"
  then have "int (unat a mod 4096) = 0" by (simp add: aligned_unat)
  then have "uint a mod 4096 = 0" by (simp add: zmod_int)
  then have "take_bit 12 (uint a) = 0" by (simp add: take_bit_eq_mod)
  moreover have "uint a = take_bit 32 (sint a)" using uint_sint [of a] by simp
  ultimately have "take_bit 12 (sint a) = 0" by (simp add: take_bit_take_bit)
  then show ?thesis by (simp add: take_bit_eq_mod)
qed

lemma mprotect_check_True:
  assumes "pt_inv s pd ps" and "ptab (mem s) pd (PDX va) \<noteq> None"
  shows "mprotect_check n pd va s = Done True s"
proof (induction n)
  case 0
  then show ?case by (simp add: mprotect_check.simps)
next
  case (Suc n)
  have "aligned (if user_page (mem s) pd va then P2V (PTE_ADDR (pte_of (mem s) pd va)) else 0)" by simp
  then show ?case using Suc aligned_sint
    by (subst mprotect_check.simps) (simp add: uva2ka_eq [OF assms])
qed

text \<open>A step that takes no page from the free list.\<close>

lemma pt_step_same:
  assumes "pt_step s pd ps t ps" and "pt_inv s pd ps"
  shows "pt_inv t pd ps" and "(\<forall>p \<in> pt_pages (mem s) pd. \<not> in_page p x) \<Longrightarrow> mem t x = mem s x"
proof -
  have "pt_pages (mem t) pd \<inter> set ps = {}" "pt_pages (mem s) pd \<inter> set ps = {}"
    using assms by (auto simp: pt_step_def pt_inv_def)
  moreover have "pt_pages (mem t) pd \<union> set ps = pt_pages (mem s) pd \<union> set ps"
    using assms(1) by (simp add: pt_step_def)
  ultimately have "pt_pages (mem t) pd = pt_pages (mem s) pd" by blast
  then show "pt_inv t pd ps" "(\<forall>p \<in> pt_pages (mem s) pd. \<not> in_page p x) \<Longrightarrow> mem t x = mem s x"
    using assms by (auto simp: pt_step_def)
qed

lemma PGROUNDDOWN_add_page: "PGROUNDDOWN (va + PGSIZE) = PGROUNDDOWN va + PGSIZE"
proof -
  have "unat (PTE_ADDR va + 4096) mod 4096 = (unat (PTE_ADDR va) + 4096) mod 4294967296 mod 4096"
    by (simp add: unat_word_ariths)
  also have "\<dots> = (unat (PTE_ADDR va) + 4096) mod 4096" by (rule mod_mod_cancel) simp
  also have "\<dots> = 0" by (simp add: unat_PTE_ADDR)
  finally have al: "aligned (PTE_ADDR va + 4096)" by (simp add: aligned_unat)
  have "in_page (PTE_ADDR va) va" by (simp add: in_page_iff)
  then have "in_page (PTE_ADDR va + 4096) (va + 4096)" by (simp add: in_page_def)
  then show ?thesis using in_page_iff [OF al] by (simp add: PGROUNDDOWN_eq_PTE_ADDR)
qed

section \<open>The loop over the pages\<close>

text \<open>Number of leading pages of a range that are present user pages.\<close>

fun user_run :: "mem \<Rightarrow> u32 \<Rightarrow> u32 \<Rightarrow> nat \<Rightarrow> nat" where
  "user_run m pd va 0 = 0"
| "user_run m pd va (Suc n) = (if user_page m pd va then Suc (user_run m pd (va + PGSIZE) n) else 0)"

definition in_run :: "u32 \<Rightarrow> nat \<Rightarrow> u32 \<Rightarrow> bool" where
  "in_run va k x \<longleftrightarrow> (\<exists>i<k. PTE_ADDR x = PTE_ADDR (va + PGSIZE * of_nat i))"

lemma in_run_0 [simp]: "\<not> in_run va 0 x"
  by (simp add: in_run_def)

lemma in_run_Suc: "in_run va (Suc k) x \<longleftrightarrow> PTE_ADDR x = PTE_ADDR va \<or> in_run (va + PGSIZE) k x"
  unfolding in_run_def by (auto simp: less_Suc_eq_0_disj algebra_simps)

lemma user_run_le: "user_run m pd va n \<le> n"
  by (induction n arbitrary: va) auto

lemma user_run_cong: "(\<And>x. user_page m pd x = user_page m' pd x) \<Longrightarrow> user_run m pd va n = user_run m' pd va n"
  by (induction n arbitrary: va) auto

lemma user_run_full_iff: "user_run m pd va n = n \<longleftrightarrow> (\<forall>i<n. user_page m pd (va + PGSIZE * of_nat i))"
proof (induction n arbitrary: va)
  case 0
  then show ?case by simp
next
  case (Suc n)
  show ?case using Suc [of "va + 4096"] by (auto simp: less_Suc_eq_0_disj algebra_simps)
qed

lemma pte_of_same_page: "PTE_ADDR va = PTE_ADDR vb \<Longrightarrow> pte_of m pd va = pte_of m pd vb"
  by (auto simp: same_page_iff pte_of_ptab split: option.split)

locale pte_update =
  fixes f :: "u32 \<Rightarrow> u32"
  assumes idem: "f (f x) = f x"
    and keeps_P: "f x AND PTE_P = x AND PTE_P"
    and keeps_U: "f x AND PTE_U = x AND PTE_U"
begin

lemma loop:
  assumes "pt_inv s pd ps"
  shows "\<exists>m. mprotect_loop n pd va f s =
      (if user_run (mem s) pd va n = n then Done 0 (s\<lparr>mem := m, cr3 := V2P pd\<rparr>) else Done (-1) (s\<lparr>mem := m\<rparr>)) \<and>
    pt_step s pd ps (s\<lparr>mem := m\<rparr>) ps \<and>
    (\<forall>x. pte_of m pd x = (if in_run va (user_run (mem s) pd va n) x then f (pte_of (mem s) pd x) else pte_of (mem s) pd x))"
  using assms
proof (induction n arbitrary: va s)
  case 0
  then show ?case using pt_step_refl by (intro exI [of _ "mem s"]) (simp add: mprotect_loop.simps)
next
  case (Suc n)
  show ?case
  proof (cases "user_page (mem s) pd va")
    case False
    have "load32 (mem s) (t + 4 * PTX va) = pte_of (mem s) pd va" if "ptab (mem s) pd (PDX va) = Some t" for t
      using pte_of_entry [OF that] .
    then have "mprotect_loop (Suc n) pd va f s = Done (-1) s"
      using False by (subst mprotect_loop.simps) (auto simp: walkpgdir_False user_page_def split: option.split)
    then show ?thesis using False pt_step_refl [OF Suc.prems] by (intro exI [of _ "mem s"]) simp
  next
    case True
    then obtain t where t: "ptab (mem s) pd (PDX va) = Some t" using user_page_ptab by blast
    define m1 where "m1 = store32 (mem s) (t + 4 * PTX va) (f (pte_of (mem s) pd va))"
    note S = set_pte [OF Suc.prems t, of "f (pte_of (mem s) pd va)", folded m1_def]
    have p1: "pte_of m1 pd x = (if PTE_ADDR x = PTE_ADDR va then f (pte_of (mem s) pd x) else pte_of (mem s) pd x)" for x
      using S(2) [of x] pte_of_same_page [of x va] by auto
    have "user_page m1 pd x = user_page (mem s) pd x" for x
      using p1 [of x] keeps_P keeps_U by (simp add: user_page_def)
    then have run: "user_run m1 pd (va + 4096) n = user_run (mem s) pd (va + 4096) n" by (rule user_run_cong)
    have "page_ok s t" using pt_invD(4) [OF Suc.prems _ t] by simp
    then have step: "mprotect_loop (Suc n) pd va f s = mprotect_loop n pd (va + 4096) f (s\<lparr>mem := m1\<rparr>)"
      using True t entry_kernel(1) [of s t "PTX va"] pte_of_entry [OF t]
      by (subst mprotect_loop.simps) (simp add: walkpgdir_False user_page_def m1_def)
    have "pt_inv (s\<lparr>mem := m1\<rparr>) pd ps" using S(1) by (simp add: pt_step_def)
    from Suc.IH [OF this, of "va + 4096"] obtain m where M:
      "mprotect_loop n pd (va + 4096) f (s\<lparr>mem := m1\<rparr>) =
        (if user_run (mem (s\<lparr>mem := m1\<rparr>)) pd (va + 4096) n = n then Done 0 (s\<lparr>mem := m1, mem := m, cr3 := V2P pd\<rparr>)
         else Done (-1) (s\<lparr>mem := m1, mem := m\<rparr>))"
      "pt_step (s\<lparr>mem := m1\<rparr>) pd ps (s\<lparr>mem := m1, mem := m\<rparr>) ps"
      "\<forall>x. pte_of m pd x = (if in_run (va + 4096) (user_run (mem (s\<lparr>mem := m1\<rparr>)) pd (va + 4096) n) x
         then f (pte_of (mem (s\<lparr>mem := m1\<rparr>)) pd x) else pte_of (mem (s\<lparr>mem := m1\<rparr>)) pd x)"
      by blast
    have "pte_of m pd x = (if in_run va (user_run (mem s) pd va (Suc n)) x then f (pte_of (mem s) pd x) else pte_of (mem s) pd x)" for x
      using M(3) p1 [of x] True idem by (simp add: in_run_Suc run)
    then show ?thesis using step M(1) True pt_step_trans [OF S(1) M(2)] by (intro exI [of _ m]) (simp add: run)
  qed
qed

end

lemma and_word_keep: "(a :: u32) AND b = 0 \<Longrightarrow> (x AND NOT b) AND a = x AND a \<and> (x OR b) AND a = x AND a"
proof -
  assume z: "a AND b = 0"
  have "\<not> (bit a n \<and> bit b n)" for n using arg_cong [OF z, of "\<lambda>w. bit w n"] by (simp add: bit_simps)
  then show ?thesis by (auto intro!: bit_word_eqI simp: bit_simps)
qed

interpretation clearW: pte_update "\<lambda>x. x AND NOT PTE_W"
  using and_word_keep [of 1 2] and_word_keep [of 4 2] by unfold_locales (simp_all add: and.assoc)

interpretation setW: pte_update "\<lambda>x. x OR PTE_W"
  using and_word_keep [of 1 2] and_word_keep [of 4 2] by unfold_locales (simp_all add: or.assoc)

lemma mprotect_eq:
  assumes "pt_inv s pd ps" and "ptab (mem s) pd (PDX va) \<noteq> None" and "1 \<le> len"
  shows "mprotect pd va len s = mprotect_loop (nat len) pd va (\<lambda>x. x AND NOT PTE_W) s"
    and "munprotect pd va len s = mprotect_loop (nat len) pd va (\<lambda>x. x OR PTE_W) s"
  using assms(3) mprotect_check_True [OF assms(1,2)] by (simp_all add: mprotect_def munprotect_def)

lemma pt_inv_cr3 [simp]: "pt_inv (s\<lparr>cr3 := c\<rparr>) pd ps = pt_inv s pd ps"
  by (simp add: pt_inv_def kmem_inv_def page_ok_def)

lemma clear_set_bit: "(x :: u32) AND 2 \<noteq> 0 \<Longrightarrow> (x AND NOT 2) OR 2 = x"
proof -
  assume "x AND 2 \<noteq> 0"
  then have "bit x 1" using bit_word_eqI [of "x AND 2" 0] by (auto simp: bit_simps)
  then show ?thesis by (intro bit_word_eqI) (auto simp: bit_simps)
qed

section \<open>Properties\<close>

text \<open>
  (C6) \<^verbatim>\<open>mprotect\<close> clears the write bit of exactly the leading pages of its range that are
  present user pages. It returns 0 and reloads the page table register when that is the whole
  range, and -1 otherwise. No other entry and no byte outside of the page table changes.
\<close>

theorem mprotect_exact:
  assumes "pt_inv s pd ps" and "ptab (mem s) pd (PDX va) \<noteq> None" and "1 \<le> len"
  shows "\<exists>m. mprotect pd va len s =
      (if user_run (mem s) pd va (nat len) = nat len then Done 0 (s\<lparr>mem := m, cr3 := V2P pd\<rparr>)
       else Done (-1) (s\<lparr>mem := m\<rparr>)) \<and>
    pt_inv (s\<lparr>mem := m\<rparr>) pd ps \<and>
    (\<forall>x. pte_of m pd x = (if in_run va (user_run (mem s) pd va (nat len)) x
       then pte_of (mem s) pd x AND NOT PTE_W else pte_of (mem s) pd x)) \<and>
    (\<forall>x. (\<forall>p \<in> pt_pages (mem s) pd. \<not> in_page p x) \<longrightarrow> m x = mem s x)"
proof -
  obtain m where m: "mprotect_loop (nat len) pd va (\<lambda>x. x AND NOT PTE_W) s =
      (if user_run (mem s) pd va (nat len) = nat len then Done 0 (s\<lparr>mem := m, cr3 := V2P pd\<rparr>)
       else Done (-1) (s\<lparr>mem := m\<rparr>))"
    "pt_step s pd ps (s\<lparr>mem := m\<rparr>) ps"
    "\<forall>x. pte_of m pd x = (if in_run va (user_run (mem s) pd va (nat len)) x
       then pte_of (mem s) pd x AND NOT PTE_W else pte_of (mem s) pd x)"
    using clearW.loop [OF assms(1), of "nat len" va] by blast
  then show ?thesis using mprotect_eq(1) [OF assms] pt_step_same [OF m(2) assms(1)] by auto
qed

text \<open>A process with one page table and one writable user page at address \<^verbatim>\<open>0x1000\<close>.\<close>

definition vm_example :: vmst where
  "vm_example = \<lparr>held = [], clog = [], mem = (\<lambda>_. 0), kend = 0x80115000, use_lock = False, freelist = 0x80201000,
     kpgdir = 0, cr3 = 0x200000, kdata = 0x80108000, gdt = replicate 6 (SEG 0 0 0 0),
     ts = \<lparr>ts_esp0 = 0, ts_ss0 = 0, ts_iomb = 0\<rparr>, tsaddr = 0x80112000, tr = 0\<rparr>"

lemma load32_zero: "load32 (\<lambda>_. 0) a = 0"
  by (simp add: load32_def)

lemma vm_example_inv: "pt_inv vm_example 0x80200000 [0x80201000]"
proof -
  have "kmem_inv vm_example [0x80201000]"
    by (simp add: kmem_inv_def vm_example_def load32_zero page_ok_def aligned_def V2P_def)
  moreover have "ptab (\<lambda>_. 0) pd i = None" for pd i by (simp add: ptab_def load32_zero)
  ultimately show ?thesis
    by (simp add: pt_inv_def pt_pages_def vm_example_def page_ok_def aligned_def V2P_def)
qed

lemma vm_example_mapped:
  "\<exists>s :: vmst. pt_inv s 0x80200000 [] \<and> ptab (mem s) 0x80200000 (PDX 0x1000) \<noteq> None \<and>
    pte_of (mem s) 0x80200000 0x1000 = 0x202007"
proof -
  have none: "ptab (mem vm_example) 0x80200000 (PDX 0x1000) = None"
    by (simp add: vm_example_def ptab_def load32_zero)
  note N = new_table [OF vm_example_inv _ none refl, simplified]
  let ?m = "store32 (memset (mem vm_example) 0x80201000 0 PGSIZE) (0x80200000 + 4 * PDX 0x1000) (V2P 0x80201000 OR 7)"
  let ?s = "vm_example\<lparr>freelist := load32 (mem vm_example) 0x80201000, mem := ?m\<rparr>"
  have i: "pt_inv ?s 0x80200000 []" and t: "ptab (mem ?s) 0x80200000 (PDX 0x1000) = Some 0x80201000"
    using N by (simp_all add: pt_step_def)
  note S = set_pte [OF i t, where v = "0x202007"]
  show ?thesis using S(1) S(2) [of "0x1000"] S(3) [OF unat_PDX_less [of "0x1000"]] t
    by (intro exI [of _ "?s\<lparr>mem := store32 (mem ?s) (0x80201000 + 4 * PTX 0x1000) 0x202007\<rparr>"])
      (simp add: pt_step_def)
qed

theorem mprotect_exact_witness:
  "\<exists>(s :: vmst) m. user_page (mem s) 0x80200000 0x1000 \<and>
     mprotect 0x80200000 0x1000 1 s = Done 0 (s\<lparr>mem := m, cr3 := 0x200000\<rparr>) \<and>
     pte_of m 0x80200000 0x1000 = 0x202005"
proof -
  obtain s :: vmst where s: "pt_inv s 0x80200000 []" "ptab (mem s) 0x80200000 (PDX 0x1000) \<noteq> None"
    "pte_of (mem s) 0x80200000 0x1000 = 0x202007" using vm_example_mapped by blast
  have u: "user_page (mem s) 0x80200000 0x1000" using s(3) by (simp add: user_page_def)
  then have r: "user_run (mem s) 0x80200000 0x1000 1 = 1" by simp
  have "in_run 0x1000 1 0x1000" by (simp add: in_run_def)
  moreover obtain m where "mprotect 0x80200000 0x1000 1 s = Done 0 (s\<lparr>mem := m, cr3 := 0x200000\<rparr>)"
    and "\<forall>x. pte_of m 0x80200000 x = (if in_run 0x1000 1 x then pte_of (mem s) 0x80200000 x AND NOT PTE_W
      else pte_of (mem s) 0x80200000 x)"
    using mprotect_exact [OF s(1,2), of 1] r by (auto simp: V2P_def)
  ultimately show ?thesis using u s(3) by (intro exI [of _ s] exI [of _ m]) simp
qed

text \<open>
  (C13) \<^verbatim>\<open>munprotect\<close> on a range that \<^verbatim>\<open>mprotect\<close> has just protected returns 0 and gives
  every page its old entry back, when the pages were writable before.
\<close>

theorem munprotect_undoes:
  assumes inv: "pt_inv s pd ps" and tab: "ptab (mem s) pd (PDX va) \<noteq> None" and len: "1 \<le> len"
    and full: "\<forall>i < nat len. user_page (mem s) pd (va + PGSIZE * of_nat i)"
    and wr: "\<forall>x. in_run va (nat len) x \<longrightarrow> pte_of (mem s) pd x AND PTE_W \<noteq> 0"
  shows "\<exists>m m'. mprotect pd va len s = Done 0 (s\<lparr>mem := m, cr3 := V2P pd\<rparr>) \<and>
    munprotect pd va len (s\<lparr>mem := m, cr3 := V2P pd\<rparr>) = Done 0 (s\<lparr>mem := m', cr3 := V2P pd\<rparr>) \<and>
    (\<forall>x. pte_of m' pd x = pte_of (mem s) pd x)"
proof -
  have run: "user_run (mem s) pd va (nat len) = nat len" using full by (simp add: user_run_full_iff)
  obtain m where m: "mprotect_loop (nat len) pd va (\<lambda>x. x AND NOT PTE_W) s = Done 0 (s\<lparr>mem := m, cr3 := V2P pd\<rparr>)"
    "pt_step s pd ps (s\<lparr>mem := m\<rparr>) ps"
    "\<And>x. pte_of m pd x = (if in_run va (nat len) x then pte_of (mem s) pd x AND NOT PTE_W else pte_of (mem s) pd x)"
    using clearW.loop [OF inv, of "nat len" va] run by auto
  let ?t = "s\<lparr>mem := m, cr3 := V2P pd\<rparr>"
  have it: "pt_inv ?t pd ps" using m(2) by (simp add: pt_step_def)
  have up: "user_page m pd x = user_page (mem s) pd x" for x
    using m(3) [of x] clearW.keeps_P clearW.keeps_U by (simp add: user_page_def)
  then have "user_run (mem ?t) pd va (nat len) = nat len" using run user_run_cong [of m pd "mem s"] by simp
  then obtain m' where m': "mprotect_loop (nat len) pd va (\<lambda>x. x OR PTE_W) ?t = Done 0 (s\<lparr>mem := m', cr3 := V2P pd\<rparr>)"
    "\<And>x. pte_of m' pd x = (if in_run va (nat len) x then pte_of m pd x OR PTE_W else pte_of m pd x)"
    using setW.loop [OF it, of "nat len" va] by auto
  have "user_page m pd va" using full [rule_format, of 0] len up by simp
  then have "ptab (mem ?t) pd (PDX va) \<noteq> None" using user_page_ptab by fastforce
  then have "munprotect pd va len ?t = Done 0 (s\<lparr>mem := m', cr3 := V2P pd\<rparr>)"
    using mprotect_eq(2) [OF it _ len] m'(1) by simp
  moreover have "pte_of m' pd x = pte_of (mem s) pd x" for x
    using wr m(3) [of x] m'(2) [of x] clear_set_bit [of "pte_of (mem s) pd x"] by auto
  ultimately show ?thesis using mprotect_eq(1) [OF inv tab len] m(1) by auto
qed

theorem munprotect_undoes_witness:
  "\<exists>(s :: vmst) m m'. mprotect 0x80200000 0x1000 1 s = Done 0 (s\<lparr>mem := m, cr3 := 0x200000\<rparr>) \<and>
     munprotect 0x80200000 0x1000 1 (s\<lparr>mem := m, cr3 := 0x200000\<rparr>) = Done 0 (s\<lparr>mem := m', cr3 := 0x200000\<rparr>) \<and>
     pte_of m' 0x80200000 0x1000 = 0x202007"
proof -
  obtain s :: vmst where s: "pt_inv s 0x80200000 []" "ptab (mem s) 0x80200000 (PDX 0x1000) \<noteq> None"
    "pte_of (mem s) 0x80200000 0x1000 = 0x202007" using vm_example_mapped by blast
  have "\<forall>i < nat 1. user_page (mem s) 0x80200000 (0x1000 + 4096 * of_nat i)" using s(3) by (simp add: user_page_def)
  moreover have "\<forall>x. in_run 0x1000 (nat 1) x \<longrightarrow> pte_of (mem s) 0x80200000 x AND 2 \<noteq> 0"
  proof (intro allI impI)
    fix x
    assume "in_run 0x1000 (nat 1) x"
    then have "pte_of (mem s) 0x80200000 x = 0x202007" using s(3) pte_of_same_page [of x "0x1000"] by (simp add: in_run_def)
    then show "pte_of (mem s) 0x80200000 x AND 2 \<noteq> 0" by simp
  qed
  ultimately obtain m m' where "mprotect 0x80200000 0x1000 1 s = Done 0 (s\<lparr>mem := m, cr3 := V2P 0x80200000\<rparr>)"
    "munprotect 0x80200000 0x1000 1 (s\<lparr>mem := m, cr3 := V2P 0x80200000\<rparr>) = Done 0 (s\<lparr>mem := m', cr3 := V2P 0x80200000\<rparr>)"
    "\<forall>x. pte_of m' 0x80200000 x = pte_of (mem s) 0x80200000 x"
    using munprotect_undoes [OF s(1,2), of 1] by auto
  then show ?thesis using s(3) by (intro exI [of _ s] exI [of _ m] exI [of _ m']) (simp add: V2P_def)
qed

text \<open>
  (C14) Both calls treat an unaligned address as the address of its page: the test that is meant to
  reject an address that is not page aligned looks at the address of the page frame, which is
  always aligned.
\<close>

theorem mprotect_ignores_alignment:
  "mprotect pd va len s = mprotect pd (PGROUNDDOWN va) len s \<and>
   munprotect pd va len s = munprotect pd (PGROUNDDOWN va) len s"
proof -
  have walk: "walkpgdir pd (PGROUNDDOWN va) b s = walkpgdir pd va b s" for va b and s :: "'a vmst_scheme"
  proof -
    have "PTE_ADDR (PGROUNDDOWN va) = PTE_ADDR va" by (simp add: PGROUNDDOWN_eq_PTE_ADDR PTE_ADDR_id)
    then have "PDX (PGROUNDDOWN va) = PDX va" "PTX (PGROUNDDOWN va) = PTX va" by (simp_all add: same_page_iff)
    then show ?thesis by (simp only: walkpgdir_def)
  qed
  have check: "mprotect_check n pd (PGROUNDDOWN va) s = mprotect_check n pd va s" for n and s :: "'a vmst_scheme"
  proof (induction n arbitrary: s)
    case 0
    then show ?case by (simp add: mprotect_check.simps)
  next
    case (Suc n)
    then show ?case by (simp add: mprotect_check.simps [of "Suc n"] uva2ka_def walk cong: if_cong)
  qed
  have loop: "mprotect_loop n pd (PGROUNDDOWN va) f s = mprotect_loop n pd va f s" for n va f and s :: "'a vmst_scheme"
  proof (induction n arbitrary: va s)
    case 0
    then show ?case by (simp add: mprotect_loop.simps)
  next
    case (Suc n)
    have "mprotect_loop n pd (PGROUNDDOWN va + 4096) f t = mprotect_loop n pd (va + 4096) f t" for t :: "'a vmst_scheme"
      using Suc [of "va + 4096"] by (simp add: PGROUNDDOWN_add_page)
    then show ?case by (simp add: mprotect_loop.simps [of "Suc n"] walk Let_def cong: if_cong)
  qed
  show ?thesis by (simp add: mprotect_def munprotect_def check loop cong: if_cong)
qed

end
