(* ===== verification/Proc.thy ===== *)
theory Proc
  imports Vm
begin

text \<open>
  The process table of \<^verbatim>\<open>proc.c\<close>, with everything in it that does not need the file system:
  allocation of a process, sleeping and waking, the two-level priority scheduler, and the calls
  \<^verbatim>\<open>kill\<close>, \<^verbatim>\<open>settickets\<close> and \<^verbatim>\<open>getpinfo\<close>. A process is named by its index in the
  table. \<open>curproc\<close> is \<^verbatim>\<open>mycpu()->proc\<close>; \<open>forkret\<close> and \<open>trapret\<close> are the addresses of the
  two labels. The trap frame and the saved context of a process lie on its kernel stack, at the
  addresses \<open>p_tf\<close> and \<open>p_context\<close>.

  \<^verbatim>\<open>swtch\<close> out of a process is the outcome \<open>Swtch\<close>. What a function does after the process is
  scheduled again is a definition of its own, \<open>sleep_wake\<close> and \<open>yield_back\<close>. In the scheduler,
  \<open>run p\<close> is what happens on this CPU between \<^verbatim>\<open>swtch\<close> to the process \<open>p\<close> and the
  \<^verbatim>\<open>swtch\<close> back.
\<close>

datatype procstate = UNUSED | EMBRYO | SLEEPING | RUNNABLE | RUNNING | ZOMBIE

text \<open>The addresses on which the kernel sleeps.\<close>

datatype chan =
    PROC nat | TICKS | BUFCH nat | BUFLOCK nat | INODELOCK nat | PIPE_NREAD u32 | PIPE_NWRITE u32
  | LOG | INPUT_R

abbreviation (input) NPROC :: nat where "NPROC \<equiv> 64"
abbreviation (input) NOFILE :: nat where "NOFILE \<equiv> 16"

record proc =
  p_sz :: u32
  p_pgdir :: u32
  p_kstack :: u32
  p_state :: procstate
  p_pid :: int
  p_parent :: "nat option"
  p_tf :: u32
  p_context :: u32
  p_chan :: "chan option"
  p_killed :: bool
  p_ofile :: "nat option list"
  p_cwd :: "nat option"
  p_name :: bytes
  p_priority :: int
  p_run_ticks :: int

record procst = vmst +
  ptable :: "proc list"
  nextpid :: int
  initproc :: "nat option"
  curproc :: "nat option"
  forkret :: u32
  trapret :: u32

definition set_proc :: "nat \<Rightarrow> (proc \<Rightarrow> proc) \<Rightarrow> 'z procst_scheme \<Rightarrow> 'z procst_scheme" where
  "set_proc p f s = s\<lparr>ptable := (ptable s)[p := f (ptable s ! p)]\<rparr>"

text \<open>Offsets in \<^verbatim>\<open>struct trapframe\<close> and \<^verbatim>\<open>struct context\<close>.\<close>

abbreviation (input) TF_SIZE :: u32 where "TF_SIZE \<equiv> 76"
abbreviation (input) TF_EAX :: u32 where "TF_EAX \<equiv> 28"
abbreviation (input) TF_ES :: u32 where "TF_ES \<equiv> 40"
abbreviation (input) TF_DS :: u32 where "TF_DS \<equiv> 44"
abbreviation (input) TF_TRAPNO :: u32 where "TF_TRAPNO \<equiv> 48"
abbreviation (input) TF_ERR :: u32 where "TF_ERR \<equiv> 52"
abbreviation (input) TF_EIP :: u32 where "TF_EIP \<equiv> 56"
abbreviation (input) TF_CS :: u32 where "TF_CS \<equiv> 60"
abbreviation (input) TF_EFLAGS :: u32 where "TF_EFLAGS \<equiv> 64"
abbreviation (input) TF_ESP :: u32 where "TF_ESP \<equiv> 68"
abbreviation (input) TF_SS :: u32 where "TF_SS \<equiv> 72"
abbreviation (input) CTX_SIZE :: u32 where "CTX_SIZE \<equiv> 20"
abbreviation (input) CTX_EIP :: u32 where "CTX_EIP \<equiv> 16"

section \<open>Allocation\<close>

fun find_unused :: "nat \<Rightarrow> proc list \<Rightarrow> nat option" where
  "find_unused i [] = None"
| "find_unused i (p # ps) = (if p_state p = UNUSED then Some i else find_unused (Suc i) ps)"

definition allocproc :: "'z procst_scheme \<Rightarrow> ('z procst_scheme, nat option) outcome" where
  "allocproc s =
     bind (lock PTABLE s) (\<lambda>_ s.
     case find_unused 0 (ptable s) of
       None \<Rightarrow> bind (unlock PTABLE s) (\<lambda>_ s. Done None s)
     | Some p \<Rightarrow>
         let s = set_proc p (\<lambda>q. q\<lparr>p_state := EMBRYO\<rparr>) s;
             s = set_proc p (\<lambda>q. q\<lparr>p_pid := nextpid s\<rparr>) s;
             s = s\<lparr>nextpid := nextpid s + 1\<rparr>;
             s = set_proc p (\<lambda>q. q\<lparr>p_priority := 1\<rparr>) s;
             s = set_proc p (\<lambda>q. q\<lparr>p_run_ticks := 0\<rparr>) s
         in bind (unlock PTABLE s) (\<lambda>_ s.
            bind (kalloc s) (\<lambda>k s.
            let s = set_proc p (\<lambda>q. q\<lparr>p_kstack := k\<rparr>) s in
            if k = 0 then Done None (set_proc p (\<lambda>q. q\<lparr>p_state := UNUSED\<rparr>) s)
            else let sp = k + KSTACKSIZE;
                     sp = sp - TF_SIZE;
                     s = set_proc p (\<lambda>q. q\<lparr>p_tf := sp\<rparr>) s;
                     sp = sp - 4;
                     s = s\<lparr>mem := store32 (mem s) sp (trapret s)\<rparr>;
                     sp = sp - CTX_SIZE;
                     s = set_proc p (\<lambda>q. q\<lparr>p_context := sp\<rparr>) s;
                     s = s\<lparr>mem := memset (mem s) sp 0 CTX_SIZE\<rparr>;
                     s = s\<lparr>mem := store32 (mem s) (sp + CTX_EIP) (forkret s)\<rparr>
                 in Done (Some p) s)))"

definition growproc :: "int \<Rightarrow> 'z procst_scheme \<Rightarrow> ('z procst_scheme, int) outcome" where
  "growproc n s =
     (case curproc s of None \<Rightarrow> Fault 0
      | Some c \<Rightarrow>
        let q = ptable s ! c; sz = p_sz q in
        bind (if n > 0 then allocuvm (p_pgdir q) sz (sz + of_int n) s
              else if n < 0 then deallocuvm (p_pgdir q) sz (sz + of_int n) s
              else Done sz s) (\<lambda>r s.
        if n \<noteq> 0 \<and> r = 0 then Done (-1) s
        else let s = set_proc c (\<lambda>q. q\<lparr>p_sz := r\<rparr>) s in
          bind (switchuvm (Some (p_kstack (ptable s ! c), p_pgdir (ptable s ! c))) s) (\<lambda>_ s. Done 0 s)))"

section \<open>Sleeping and waking\<close>

text \<open>
  \<^verbatim>\<open>ncli\<close> is the number of locks held (see \<open>Spinlock\<close>), and with a lock held the interrupts
  are off.
\<close>

definition sched :: "'z procst_scheme \<Rightarrow> ('z procst_scheme, unit) outcome" where
  "sched s =
     (if \<not> holds PTABLE s then Panic ''sched ptable.lock''
      else if length (held s) \<noteq> 1 then Panic ''sched locks''
      else case curproc s of None \<Rightarrow> Fault 12
      | Some p \<Rightarrow> if p_state (ptable s ! p) = RUNNING then Panic ''sched running'' else Swtch s)"

definition yield_back :: "'z procst_scheme \<Rightarrow> ('z procst_scheme, unit) outcome" where
  "yield_back s = unlock PTABLE s"

definition yield :: "'z procst_scheme \<Rightarrow> ('z procst_scheme, unit) outcome" where
  "yield s =
     bind (lock PTABLE s) (\<lambda>_ s.
     case curproc s of None \<Rightarrow> Fault 12
     | Some p \<Rightarrow> let s = set_proc p (\<lambda>q. q\<lparr>p_state := RUNNABLE\<rparr>) s in
         bind (sched s) (\<lambda>_ s. yield_back s))"

definition sleep_wake :: "nat \<Rightarrow> lockid \<Rightarrow> 'z procst_scheme \<Rightarrow> ('z procst_scheme, unit) outcome" where
  "sleep_wake p lk s =
     (let s = set_proc p (\<lambda>q. q\<lparr>p_chan := None\<rparr>) s in
      if lk \<noteq> PTABLE then bind (unlock PTABLE s) (\<lambda>_ s. lock lk s) else Done () s)"

definition sleep :: "chan \<Rightarrow> lockid \<Rightarrow> 'z procst_scheme \<Rightarrow> ('z procst_scheme, unit) outcome" where
  "sleep ch lk s =
     (case curproc s of None \<Rightarrow> Panic ''sleep''
      | Some p \<Rightarrow>
        bind (if lk \<noteq> PTABLE then bind (lock PTABLE s) (\<lambda>_ s. unlock lk s) else Done () s) (\<lambda>_ s.
        let s = set_proc p (\<lambda>q. q\<lparr>p_chan := Some ch\<rparr>) s;
            s = set_proc p (\<lambda>q. q\<lparr>p_state := SLEEPING\<rparr>) s
        in bind (sched s) (\<lambda>_ s. sleep_wake p lk s)))"

definition wakeup1 :: "chan \<Rightarrow> 'z procst_scheme \<Rightarrow> 'z procst_scheme" where
  "wakeup1 ch s = s\<lparr>ptable := map (\<lambda>q. if p_state q = SLEEPING \<and> p_chan q = Some ch
     then q\<lparr>p_state := RUNNABLE\<rparr> else q) (ptable s)\<rparr>"

definition wakeup :: "chan \<Rightarrow> 'z procst_scheme \<Rightarrow> ('z procst_scheme, unit) outcome" where
  "wakeup ch s = bind (lock PTABLE s) (\<lambda>_ s. unlock PTABLE (wakeup1 ch s))"

section \<open>kill, settickets, getpinfo\<close>

fun find_pid :: "int \<Rightarrow> nat \<Rightarrow> proc list \<Rightarrow> nat option" where
  "find_pid n i [] = None"
| "find_pid n i (p # ps) = (if p_pid p = n then Some i else find_pid n (Suc i) ps)"

definition kill :: "int \<Rightarrow> 'z procst_scheme \<Rightarrow> ('z procst_scheme, int) outcome" where
  "kill n s =
     bind (lock PTABLE s) (\<lambda>_ s.
     case find_pid n 0 (ptable s) of
       Some p \<Rightarrow>
         let s = set_proc p (\<lambda>q. q\<lparr>p_killed := True\<rparr>) s;
             s = (if p_state (ptable s ! p) = SLEEPING then set_proc p (\<lambda>q. q\<lparr>p_state := RUNNABLE\<rparr>) s else s)
         in bind (unlock PTABLE s) (\<lambda>_ s. Done 0 s)
     | None \<Rightarrow> bind (unlock PTABLE s) (\<lambda>_ s. Done (-1) s))"

definition settickets :: "int \<Rightarrow> 'z procst_scheme \<Rightarrow> ('z procst_scheme, int) outcome" where
  "settickets ticket s =
     (if ticket < 0 \<or> ticket > 1 then Done (-1) s
      else case curproc s of None \<Rightarrow> Fault 0
      | Some p \<Rightarrow>
        bind (lock PTABLE s) (\<lambda>_ s.
        let s = (if ticket = 0 then set_proc p (\<lambda>q. q\<lparr>p_priority := 0\<rparr>) s else s);
            s = (if ticket = 1 then set_proc p (\<lambda>q. q\<lparr>p_priority := 1\<rparr>) s else s)
        in bind (unlock PTABLE s) (\<lambda>_ s. Done 0 s)))"

text \<open>The four arrays of \<^verbatim>\<open>struct pstat\<close> lie 256 bytes apart in the caller's memory.\<close>

fun getpinfo_loop :: "u32 \<Rightarrow> nat \<Rightarrow> proc list \<Rightarrow> 'z procst_scheme \<Rightarrow> ('z procst_scheme, unit) outcome" where
  "getpinfo_loop st i [] s = Done () s"
| "getpinfo_loop st i (p # ps) s =
     bind (kwrite32 (st + 4 * of_nat i) (if p_state p \<noteq> UNUSED then 1 else 0) s) (\<lambda>_ s.
     bind (kwrite32 (st + 256 + 4 * of_nat i) (of_int (p_priority p)) s) (\<lambda>_ s.
     bind (kwrite32 (st + 512 + 4 * of_nat i) (of_int (p_pid p)) s) (\<lambda>_ s.
     bind (kwrite32 (st + 768 + 4 * of_nat i) (of_int (p_run_ticks p)) s) (\<lambda>_ s.
     getpinfo_loop st (Suc i) ps s))))"

definition getpinfo :: "u32 \<Rightarrow> 'z procst_scheme \<Rightarrow> ('z procst_scheme, int) outcome" where
  "getpinfo st s =
     bind (lock PTABLE s) (\<lambda>_ s.
     bind (getpinfo_loop st 0 (ptable s) s) (\<lambda>_ s.
     bind (unlock PTABLE s) (\<lambda>_ s. Done 0 s)))"

section \<open>The scheduler\<close>

definition getHighPriority :: "'z procst_scheme \<Rightarrow> int" where
  "getHighPriority s = fold (\<lambda>p hpcnt. if p_state p = RUNNABLE \<and> p_priority p = 1 then hpcnt + 1 else hpcnt) (ptable s) 0"

definition sched_run ::
  "(nat \<Rightarrow> 'z procst_scheme \<Rightarrow> ('z procst_scheme, unit) outcome) \<Rightarrow> nat \<Rightarrow> 'z procst_scheme \<Rightarrow> ('z procst_scheme, unit) outcome" where
  "sched_run run p s =
     (let s = s\<lparr>curproc := Some p\<rparr> in
      bind (switchuvm (Some (p_kstack (ptable s ! p), p_pgdir (ptable s ! p))) s) (\<lambda>_ s.
      let s = set_proc p (\<lambda>q. q\<lparr>p_state := RUNNING\<rparr>) s;
          s = set_proc p (\<lambda>q. q\<lparr>p_run_ticks := p_run_ticks q + 1\<rparr>) s
      in bind (run p s) (\<lambda>_ s. Done () ((switchkvm s)\<lparr>curproc := None\<rparr>))))"

fun high_pass ::
  "(nat \<Rightarrow> 'z procst_scheme \<Rightarrow> ('z procst_scheme, unit) outcome) \<Rightarrow> nat list \<Rightarrow> bool \<Rightarrow> 'z procst_scheme \<Rightarrow> ('z procst_scheme, bool) outcome" where
  "high_pass run [] hasHP s = Done hasHP s"
| "high_pass run (p # ps) hasHP s =
     (if p_state (ptable s ! p) \<noteq> RUNNABLE then high_pass run ps hasHP s
      else if p_priority (ptable s ! p) = 1 then
        bind (sched_run run p s) (\<lambda>_ s. high_pass run ps True s)
      else high_pass run ps hasHP s)"

fun high_loop ::
  "nat \<Rightarrow> (nat \<Rightarrow> 'z procst_scheme \<Rightarrow> ('z procst_scheme, unit) outcome) \<Rightarrow> bool \<Rightarrow> 'z procst_scheme \<Rightarrow> ('z procst_scheme, bool) outcome" where
  "high_loop n run hasHP s =
     (if getHighPriority s > 0 then
        if n = 0 then Diverge
        else bind (high_pass run [0..<NPROC] hasHP s) (\<lambda>hasHP s. high_loop (n - 1) run hasHP s)
      else Done hasHP s)"

fun low_pass ::
  "(nat \<Rightarrow> 'z procst_scheme \<Rightarrow> ('z procst_scheme, unit) outcome) \<Rightarrow> nat list \<Rightarrow> 'z procst_scheme \<Rightarrow> ('z procst_scheme, unit) outcome" where
  "low_pass run [] s = Done () s"
| "low_pass run (p # ps) s =
     (if p_state (ptable s ! p) \<noteq> RUNNABLE then low_pass run ps s else sched_run run p s)"

text \<open>
  One turn of the scheduler's endless loop. \<open>n\<close> bounds the number of turns of its inner loop, which
  goes on as long as a high-priority process is runnable.
\<close>

definition scheduler_turn ::
  "nat \<Rightarrow> (nat \<Rightarrow> 'z procst_scheme \<Rightarrow> ('z procst_scheme, unit) outcome) \<Rightarrow> 'z procst_scheme \<Rightarrow> ('z procst_scheme, unit) outcome" where
  "scheduler_turn n run s =
     bind (lock PTABLE s) (\<lambda>_ s.
     bind (high_loop n run False s) (\<lambda>hasHP s.
     bind (if \<not> hasHP then low_pass run [0..<NPROC] s else Done () s) (\<lambda>_ s.
     unlock PTABLE s)))"

definition scheduler ::
  "nat \<Rightarrow> (nat \<Rightarrow> 'z procst_scheme \<Rightarrow> ('z procst_scheme, unit) outcome) \<Rightarrow> nat \<Rightarrow> 'z procst_scheme \<Rightarrow> ('z procst_scheme, unit list) outcome" where
  "scheduler n run turns s = many (scheduler_turn n run) turns (s\<lparr>curproc := None\<rparr>)"

declare high_loop.simps [simp del]

end
