(* ===== verification/Sched.thy ===== *)
theory Sched
  imports Proc
begin

text \<open>
  Properties of the process table and of the scheduler: waking never misses a sleeper, high
  priority processes are served first and in turn, a runnable low priority process behind another
  one is never served, and process ids are not used twice.
\<close>

section \<open>Updates of the table\<close>

lemma set_proc_nth: "p < length (ptable s) \<Longrightarrow> ptable (set_proc p f s) ! q = (if q = p then f (ptable s ! p) else ptable s ! q)"
  by (simp add: set_proc_def nth_list_update)

lemma set_proc_length [simp]: "length (ptable (set_proc p f s)) = length (ptable s)"
  by (simp add: set_proc_def)

lemma set_proc_simps [simp]:
  "held (set_proc p f s) = held s" "mem (set_proc p f s) = mem s" "freelist (set_proc p f s) = freelist s"
  "kend (set_proc p f s) = kend s" "use_lock (set_proc p f s) = use_lock s"
  "nextpid (set_proc p f s) = nextpid s" "curproc (set_proc p f s) = curproc s"
  "initproc (set_proc p f s) = initproc s" "cr3 (set_proc p f s) = cr3 s"
  "forkret (set_proc p f s) = forkret s" "trapret (set_proc p f s) = trapret s"
  by (simp_all add: set_proc_def)

lemma set_proc_attr:
  assumes "\<And>q. g (f q) = g q"
  shows "g (ptable (set_proc p f s) ! i) = g (ptable s ! i)"
  using assms by (cases "p < length (ptable s)") (auto simp: set_proc_def nth_list_update list_update_beyond)

lemma holds_hd: "held s = L # hs \<Longrightarrow> holds L s"
  by (simp add: holds_def)

section \<open>Sleep and wakeup\<close>

lemma wakeup1_nth:
  "p < length (ptable s) \<Longrightarrow> ptable (wakeup1 ch s) ! p =
     (let q = ptable s ! p in if p_state q = SLEEPING \<and> p_chan q = Some ch then q\<lparr>p_state := RUNNABLE\<rparr> else q)"
  by (simp add: wakeup1_def Let_def)

lemma sleep_eq:
  assumes cur: "curproc s = Some p" and p: "p < length (ptable s)" and held: "held s = [lk]"
  shows "sleep ch lk s = Swtch (set_proc p (\<lambda>q. q\<lparr>p_state := SLEEPING\<rparr>)
    (set_proc p (\<lambda>q. q\<lparr>p_chan := Some ch\<rparr>) (s\<lparr>held := [PTABLE]\<rparr>)))"
proof (cases "lk = PTABLE")
  case True
  then have e: "s\<lparr>held := [PTABLE]\<rparr> = s" using held by simp
  show ?thesis unfolding e using True cur held p
    by (simp add: sleep_def sched_def holds_def Let_def set_proc_nth)
next
  case False
  then show ?thesis using cur held p
    by (simp add: sleep_def sched_def holds_def Let_def set_proc_nth lock_def unlock_def)
qed

lemma sleep_other_lock:
  assumes "curproc s = Some p" and "p < length (ptable s)" and "held s = lk # L # hs" and "PTABLE \<notin> set (held s)"
  shows "sleep ch lk s = Panic ''sched locks''"
  using assms by (auto simp: sleep_def sched_def holds_def Let_def lock_def unlock_def)


definition proc_zero :: proc where
  "proc_zero = \<lparr>p_sz = 0, p_pgdir = 0, p_kstack = 0, p_state = UNUSED, p_pid = 0, p_parent = None, p_tf = 0,
     p_context = 0, p_chan = None, p_killed = False, p_ofile = replicate 16 None, p_cwd = None,
     p_name = replicate 16 0, p_priority = 0, p_run_ticks = 0\<rparr>"

definition proc_run :: "int \<Rightarrow> int \<Rightarrow> procstate \<Rightarrow> proc" where
  "proc_run n prio st = proc_zero\<lparr>p_pgdir := 0x80200000, p_kstack := 0x80300000, p_state := st, p_pid := n, p_priority := prio\<rparr>"

text \<open>A table with the given processes and unused entries after them.\<close>

definition proc_example :: "lockid list \<Rightarrow> proc list \<Rightarrow> procst" where
  "proc_example hs ps = \<lparr>held = hs, clog = [], mem = (\<lambda>_. 0), kend = 0x80115000, use_lock = False, freelist = 0x80201000,
     kpgdir = 0x80100000, cr3 = 0x100000, kdata = 0x80108000, gdt = replicate 6 (SEG 0 0 0 0),
     ts = \<lparr>ts_esp0 = 0, ts_ss0 = 0, ts_iomb = 0\<rparr>, tsaddr = 0x80112000, tr = 0,
     ptable = ps @ replicate (64 - length ps) proc_zero, nextpid = 1 + int (length ps), initproc = Some 0,
     curproc = Some 0, forkret = 0x80103000, trapret = 0x80106000\<rparr>"

lemma proc_example_nth:
  "length ps \<le> 64 \<Longrightarrow> i < 64 \<Longrightarrow> ptable (proc_example hs ps) ! i = (if i < length ps then ps ! i else proc_zero)"
  by (simp add: proc_example_def nth_append)

lemma proc_example_all:
  "length ps \<le> 64 \<Longrightarrow> (\<forall>q \<in> set ps. P q) \<Longrightarrow> P proc_zero \<Longrightarrow> \<forall>i < 64. P (ptable (proc_example hs ps) ! i)"
  by (simp add: proc_example_nth)

lemma proc_run_simps [simp]:
  "p_state (proc_run n prio st) = st" "p_priority (proc_run n prio st) = prio" "p_pid (proc_run n prio st) = n"
  "p_run_ticks (proc_run n prio st) = 0" "p_kstack (proc_run n prio st) = 0x80300000" "p_pgdir (proc_run n prio st) = 0x80200000"
  "p_state proc_zero = UNUSED" "p_pid proc_zero = 0" "p_run_ticks proc_zero = 0"
  by (simp_all add: proc_run_def proc_zero_def)


section \<open>The scheduler\<close>

definition high :: "proc \<Rightarrow> bool" where
  "high q \<longleftrightarrow> p_state q = RUNNABLE \<and> p_priority q = 1"

lemma getHighPriority_count: "getHighPriority s = int (length (filter high (ptable s)))"
proof -
  have "fold (\<lambda>p c. if p_state p = RUNNABLE \<and> p_priority p = 1 then c + 1 else c) ps n = n + int (length (filter high ps))"
    for ps and n :: int
    by (induction ps arbitrary: n) (auto simp: high_def)
  then show ?thesis by (simp add: getHighPriority_def)
qed

lemma getHighPriority_pos: "getHighPriority s > 0 \<longleftrightarrow> (\<exists>p < length (ptable s). high (ptable s ! p))"
  by (simp add: getHighPriority_count filter_empty_conv all_set_conv_all_nth)

lemma switchuvm_ptable: "switchuvm x s = Done u t \<Longrightarrow> ptable t = ptable s \<and> held t = held s"
  by (auto simp: switchuvm_def Let_def split: option.splits if_splits)

lemma switchuvm_ok:
  "k \<noteq> 0 \<Longrightarrow> d \<noteq> 0 \<Longrightarrow> \<exists>t. switchuvm (Some (k, d)) s = Done () t \<and> ptable t = ptable s \<and> held t = held s"
  by (simp add: switchuvm_def Let_def)

lemma sched_run_cong:
  assumes "\<And>t. p_priority (ptable t ! p) = 1 \<Longrightarrow> run p t = run' p t" and "p_priority (ptable s ! p) = 1"
  shows "sched_run run p s = sched_run run' p s"
  unfolding sched_run_def Let_def
proof (rule bind_cong [OF refl])
  fix u t
  assume "switchuvm (Some (p_kstack (ptable (s\<lparr>curproc := Some p\<rparr>) ! p), p_pgdir (ptable (s\<lparr>curproc := Some p\<rparr>) ! p)))
      (s\<lparr>curproc := Some p\<rparr>) = Done u t"
  then have "ptable t = ptable s" using switchuvm_ptable by fastforce
  then show "bind (run p (set_proc p (\<lambda>q. q\<lparr>p_run_ticks := p_run_ticks q + 1\<rparr>) (set_proc p (\<lambda>q. q\<lparr>p_state := RUNNING\<rparr>) t)))
      (\<lambda>_ s. Done () (switchkvm s\<lparr>curproc := None\<rparr>)) =
    bind (run' p (set_proc p (\<lambda>q. q\<lparr>p_run_ticks := p_run_ticks q + 1\<rparr>) (set_proc p (\<lambda>q. q\<lparr>p_state := RUNNING\<rparr>) t)))
      (\<lambda>_ s. Done () (switchkvm s\<lparr>curproc := None\<rparr>))"
    using assms by (simp add: set_proc_attr)
qed

lemma high_pass_cong:
  assumes "\<And>p t. p_priority (ptable t ! p) = 1 \<Longrightarrow> run p t = run' p t"
  shows "high_pass run ps b s = high_pass run' ps b s"
proof (induction ps arbitrary: b s)
  case Nil
  then show ?case by simp
next
  case (Cons p ps)
  then show ?case using sched_run_cong [of p run run' s, OF assms] by (simp cong: bind_cong)
qed

lemma high_loop_cong:
  assumes "\<And>p t. p_priority (ptable t ! p) = 1 \<Longrightarrow> run p t = run' p t"
  shows "high_loop n run b s = high_loop n run' b s"
proof (induction n arbitrary: b s)
  case 0
  then show ?case by (simp add: high_loop.simps)
next
  case (Suc n)
  then show ?case
    by (simp add: high_loop.simps [of "Suc n"] high_pass_cong [of run run', OF assms] cong: bind_cong)
qed

lemma high_pass_hasHP:
  "high_pass run ps b s = Done c t \<Longrightarrow> b \<or> (\<exists>p \<in> set ps. high (ptable s ! p)) \<Longrightarrow> c"
proof (induction ps arbitrary: b s)
  case Nil
  then show ?case by simp
next
  case (Cons p ps)
  show ?case
  proof (cases "high (ptable s ! p)")
    case True
    then show ?thesis using Cons.prems(1) Cons.IH [of True] by (auto simp: high_def elim!: bind_DoneE)
  next
    case False
    then show ?thesis using Cons.prems Cons.IH [of b s] by (auto simp: high_def split: if_splits)
  qed
qed

lemma high_pass_True: "high_pass run ps True s = Done c t \<Longrightarrow> c = True"
  using high_pass_hasHP [of run ps True] by simp

lemma high_loop_hasHP:
  "length (ptable s) \<le> 64 \<Longrightarrow> high_loop n run b s = Done c t \<Longrightarrow> b \<or> getHighPriority s > 0 \<Longrightarrow> c"
proof -
  have keep: "high_loop n run True s = Done c t \<Longrightarrow> c" for n s
  proof (induction n arbitrary: s)
    case 0
    then show ?case by (simp add: high_loop.simps split: if_splits)
  next
    case (Suc n)
    then show ?case
      by (auto simp: high_loop.simps [of "Suc n"] split: if_splits elim!: bind_DoneE dest!: high_pass_True)
  qed
  assume len: "length (ptable s) \<le> 64" and run: "high_loop n run b s = Done c t" and "b \<or> getHighPriority s > 0"
  show c
  proof (cases "getHighPriority s > 0")
    case True
    then obtain p where "p < length (ptable s)" "high (ptable s ! p)" using getHighPriority_pos [of s] by blast
    then have "\<exists>p \<in> set [0..<64]. high (ptable s ! p)" using len by (intro bexI [of _ p]) simp_all
    then have hp: "high_pass run [0..<64] b s = Done d v \<Longrightarrow> d = True" for d v
      using high_pass_hasHP [of run "[0..<64]" b s] by blast
    show ?thesis using True run keep
      by (auto simp: high_loop.simps [of n] split: if_splits elim!: bind_DoneE dest!: hp)
  next
    case False
    then show ?thesis using run \<open>b \<or> _\<close> by (simp add: high_loop.simps [of n])
  qed
qed

text \<open>
  (C7) As long as a high priority process is runnable, low priority processes do not run: a turn of
  the scheduler that starts in such a state does the same whatever the low priority processes
  would do if they were run.
\<close>

theorem high_priority_first:
  assumes "getHighPriority s > 0" and "length (ptable s) \<le> 64"
    and "\<And>p t. p_priority (ptable t ! p) = 1 \<Longrightarrow> run p t = run' p t"
  shows "scheduler_turn n run s = scheduler_turn n run' s"
  unfolding scheduler_turn_def
proof (rule bind_cong [OF refl], rule bind_cong)
  fix u t b v
  assume "lock PTABLE s = Done u t"
  then have "ptable t = ptable s" by (auto simp: lock_Done_iff)
  then have g: "getHighPriority t > 0" "length (ptable t) \<le> 64" using assms(1,2) by (simp_all add: getHighPriority_def)
  show "high_loop n run False t = high_loop n run' False t" by (rule high_loop_cong [OF assms(3)])
  assume "high_loop n run' False t = Done b v"
  then have b using high_loop_hasHP [OF g(2)] g(1) by blast
  then show "bind (if \<not> b then low_pass run [0..<64] v else Done () v) (\<lambda>_ s. unlock PTABLE s) =
      bind (if \<not> b then low_pass run' [0..<64] v else Done () v) (\<lambda>_ s. unlock PTABLE s)" by simp
qed

theorem high_priority_first_witness:
  "getHighPriority (proc_example [] [proc_run 1 0 RUNNABLE, proc_run 2 1 RUNNABLE]) = 1 \<and>
   scheduler_turn 1 (\<lambda>p s. if p_priority (ptable s ! p) = 1 then Done () (set_proc p (\<lambda>q. q\<lparr>p_state := ZOMBIE\<rparr>) s)
       else Panic ''low'') (proc_example [] [proc_run 1 0 RUNNABLE, proc_run 2 1 RUNNABLE]) =
   scheduler_turn 1 (\<lambda>p s. Done () (set_proc p (\<lambda>q. q\<lparr>p_state := ZOMBIE\<rparr>) s))
     (proc_example [] [proc_run 1 0 RUNNABLE, proc_run 2 1 RUNNABLE])"
proof -
  let ?s = "proc_example [] [proc_run 1 0 RUNNABLE, proc_run 2 1 RUNNABLE]"
  have g: "getHighPriority ?s = 1"
    by (simp add: getHighPriority_count proc_example_def proc_run_def proc_zero_def high_def)
  moreover have "length (ptable ?s) \<le> 64" by (simp add: proc_example_def)
  ultimately show ?thesis by (intro conjI high_priority_first) simp_all
qed

section \<open>Processes that run and come back\<close>

text \<open>
  The scheduler's contract with the process it switches to: the process comes back with the
  process table lock held and no other, and while it ran only its own entry changed, and of it
  neither the stack, the page table, the priority nor the tick count.
\<close>

definition keeps :: "proc \<Rightarrow> proc \<Rightarrow> bool" where
  "keeps q q' \<longleftrightarrow> p_priority q' = p_priority q \<and> p_run_ticks q' = p_run_ticks q \<and>
     p_kstack q' = p_kstack q \<and> p_pgdir q' = p_pgdir q"

locale runs_back =
  fixes run :: "nat \<Rightarrow> 'z procst_scheme \<Rightarrow> ('z procst_scheme, unit) outcome"
  assumes returns: "held s = [PTABLE] \<Longrightarrow> curproc s = Some p \<Longrightarrow> p < length (ptable s) \<Longrightarrow>
    \<exists>t q. run p s = Done () t \<and> held t = [PTABLE] \<and> ptable t = (ptable s)[p := q] \<and> keeps (ptable s ! p) q"
begin

lemma sched_run_ticks:
  assumes "held s = [PTABLE]" and "p < length (ptable s)" and "p_kstack (ptable s ! p) \<noteq> 0" and "p_pgdir (ptable s ! p) \<noteq> 0"
  shows "\<exists>t q. sched_run run p s = Done () t \<and> held t = [PTABLE] \<and> ptable t = (ptable s)[p := q] \<and>
    p_run_ticks q = p_run_ticks (ptable s ! p) + 1 \<and> p_priority q = p_priority (ptable s ! p)"
proof -
  let ?s = "s\<lparr>curproc := Some p\<rparr>"
  have "\<exists>t. switchuvm (Some (p_kstack (ptable ?s ! p), p_pgdir (ptable ?s ! p))) ?s = Done () t \<and>
      ptable t = ptable s \<and> held t = held s \<and> curproc t = Some p"
    using assms(3,4) by (simp add: switchuvm_def Let_def)
  then obtain t where t: "switchuvm (Some (p_kstack (ptable ?s ! p), p_pgdir (ptable ?s ! p))) ?s = Done () t"
    "ptable t = ptable s" "held t = held s" "curproc t = Some p" by blast
  let ?t = "set_proc p (\<lambda>q. q\<lparr>p_run_ticks := p_run_ticks q + 1\<rparr>) (set_proc p (\<lambda>q. q\<lparr>p_state := RUNNING\<rparr>) t)"
  obtain u q where u: "run p ?t = Done () u" "held u = [PTABLE]" "ptable u = (ptable ?t)[p := q]" "keeps (ptable ?t ! p) q"
    using returns [of ?t p] assms(1,2) t by auto
  have "p_run_ticks q = p_run_ticks (ptable s ! p) + 1" "p_priority q = p_priority (ptable s ! p)"
    using u(4) t(2) assms(2) by (simp_all add: keeps_def set_proc_nth)
  moreover have "ptable u = (ptable s)[p := q]" using u(3) t(2) by (simp add: set_proc_def)
  moreover have "sched_run run p s = Done () ((switchkvm u)\<lparr>curproc := None\<rparr>)"
    using t(1) u(1) by (simp add: sched_run_def Let_def)
  ultimately show ?thesis using u(2) by (intro exI [of _ "(switchkvm u)\<lparr>curproc := None\<rparr>"] exI [of _ q]) (simp add: switchkvm_def)
qed

lemma high_pass_ticks:
  assumes "held s = [PTABLE]" and "distinct ps" and "\<forall>p \<in> set ps. p < length (ptable s)"
    and "\<forall>p \<in> set ps. high (ptable s ! p) \<longrightarrow> p_kstack (ptable s ! p) \<noteq> 0 \<and> p_pgdir (ptable s ! p) \<noteq> 0"
  shows "\<exists>b t. high_pass run ps c s = Done b t \<and> held t = [PTABLE] \<and> length (ptable t) = length (ptable s) \<and>
    (\<forall>i. p_run_ticks (ptable t ! i) = p_run_ticks (ptable s ! i) + (if i \<in> set ps \<and> high (ptable s ! i) then 1 else 0))"
  using assms
proof (induction ps arbitrary: s c)
  case Nil
  then show ?case by simp
next
  case (Cons p ps)
  show ?case
  proof (cases "high (ptable s ! p)")
    case True
    then obtain t q where t: "sched_run run p s = Done () t" "held t = [PTABLE]" "ptable t = (ptable s)[p := q]"
      "p_run_ticks q = p_run_ticks (ptable s ! p) + 1"
      using sched_run_ticks [of s p] Cons.prems by auto
    have other: "ptable t ! i = ptable s ! i" if "i \<in> set ps" for i
    proof -
      have "i \<noteq> p" using that Cons.prems(2) by auto
      then show ?thesis using t(3) by simp
    qed
    have "\<exists>b u. high_pass run ps True t = Done b u \<and> held u = [PTABLE] \<and> length (ptable u) = length (ptable t) \<and>
      (\<forall>i. p_run_ticks (ptable u ! i) = p_run_ticks (ptable t ! i) + (if i \<in> set ps \<and> high (ptable t ! i) then 1 else 0))"
      using Cons.prems t(2,3) other by (intro Cons.IH) auto
    then obtain b u where u: "high_pass run ps True t = Done b u" "held u = [PTABLE]" "length (ptable u) = length (ptable t)"
      "\<And>i. p_run_ticks (ptable u ! i) = p_run_ticks (ptable t ! i) + (if i \<in> set ps \<and> high (ptable t ! i) then 1 else 0)"
      by blast
    have "p_run_ticks (ptable u ! i) =
        p_run_ticks (ptable s ! i) + (if i \<in> set (p # ps) \<and> high (ptable s ! i) then 1 else 0)" for i
      using u(4) [of i] other [of i] t(3,4) True Cons.prems(2,3) by (cases "i = p") auto
    then show ?thesis using t u True by (simp add: high_def)
  next
    case False
    then show ?thesis using Cons.IH [of s c] Cons.prems by (auto simp: high_def)
  qed
qed

end

text \<open>
  A process that is interrupted by the timer and yields, as the scheduler sees it: it returns from
  its last \<^verbatim>\<open>yield\<close>, runs user code, and calls \<^verbatim>\<open>yield\<close> again.
\<close>

definition run_yield :: "nat \<Rightarrow> 'z procst_scheme \<Rightarrow> ('z procst_scheme, unit) outcome" where
  "run_yield p s = bind (yield_back s) (\<lambda>_ s. case yield s of Swtch t \<Rightarrow> Done () t | r \<Rightarrow> r)"

lemma run_yield_eq:
  assumes "held s = [PTABLE]" and "curproc s = Some p" and "p < length (ptable s)"
  shows "run_yield p s = Done () (set_proc p (\<lambda>q. q\<lparr>p_state := RUNNABLE\<rparr>) s)"
  using assms
  by (simp add: run_yield_def yield_back_def yield_def lock_def unlock_def sched_def holds_def Let_def set_proc_nth)
    (simp add: set_proc_def)

interpretation yielding: runs_back run_yield
proof
  fix s :: "'a procst_scheme" and p
  assume "held s = [PTABLE]" "curproc s = Some p" "p < length (ptable s)"
  then show "\<exists>t q. run_yield p s = Done () t \<and> held t = [PTABLE] \<and> ptable t = (ptable s)[p := q] \<and> keeps (ptable s ! p) q"
    using run_yield_eq [of s p] by (auto simp: set_proc_def keeps_def)
qed

text \<open>
  (C15) Round robin among the high priority processes: when each process runs until the timer makes
  it yield, one pass of the scheduler over the table gives every runnable high priority process
  exactly one tick, and no other process any.
\<close>

theorem round_robin:
  assumes "held s = [PTABLE]" and "length (ptable s) = 64"
    and "\<forall>p < 64. high (ptable s ! p) \<longrightarrow> p_kstack (ptable s ! p) \<noteq> 0 \<and> p_pgdir (ptable s ! p) \<noteq> 0"
  shows "\<exists>b t. high_pass run_yield [0..<NPROC] False s = Done b t \<and> held t = [PTABLE] \<and>
    (\<forall>i < 64. p_run_ticks (ptable t ! i) = p_run_ticks (ptable s ! i) + (if high (ptable s ! i) then 1 else 0))"
  using yielding.high_pass_ticks [OF assms(1), of "[0..<64]" False] assms(2,3) by auto

theorem round_robin_witness:
  "\<exists>b t. high_pass run_yield [0..<NPROC] False
      (proc_example [PTABLE] [proc_run 1 0 RUNNABLE, proc_run 2 1 RUNNABLE, proc_run 3 1 RUNNABLE]) = Done b t \<and>
    p_run_ticks (ptable t ! 0) = 0 \<and> p_run_ticks (ptable t ! 1) = 1 \<and> p_run_ticks (ptable t ! 2) = 1"
proof -
  let ?ps = "[proc_run 1 0 RUNNABLE, proc_run 2 1 RUNNABLE, proc_run 3 1 RUNNABLE]"
  let ?s = "proc_example [PTABLE] ?ps"
  have nth: "ptable ?s ! i = (if i < 3 then ?ps ! i else proc_zero)" if "i < 64" for i
    using that proc_example_nth [of ?ps i] by simp
  have hi: "\<forall>p < 64. high (ptable ?s ! p) \<longrightarrow> p_kstack (ptable ?s ! p) \<noteq> 0 \<and> p_pgdir (ptable ?s ! p) \<noteq> 0"
    by (rule proc_example_all) (simp_all add: high_def)
  have "held ?s = [PTABLE]" "length (ptable ?s) = 64" by (simp_all add: proc_example_def)
  from round_robin [OF this hi] obtain b t where bt: "high_pass run_yield [0..<64] False ?s = Done b t"
    "\<forall>i < 64. p_run_ticks (ptable t ! i) = p_run_ticks (ptable ?s ! i) + (if high (ptable ?s ! i) then 1 else 0)" by blast
  then show ?thesis by (intro exI [of _ b] exI [of _ t]) (simp add: nth high_def)
qed

section \<open>Low priority processes\<close>

lemma sched_run_yield:
  assumes "held s = [PTABLE]" and "p < length (ptable s)" and "p_kstack (ptable s ! p) \<noteq> 0" and "p_pgdir (ptable s ! p) \<noteq> 0"
  shows "\<exists>t. sched_run run_yield p s = Done () t \<and> held t = [PTABLE] \<and>
    ptable t = (ptable s)[p := (ptable s ! p)\<lparr>p_run_ticks := p_run_ticks (ptable s ! p) + 1, p_state := RUNNABLE\<rparr>]"
proof -
  let ?s = "s\<lparr>curproc := Some p\<rparr>"
  have "\<exists>t. switchuvm (Some (p_kstack (ptable ?s ! p), p_pgdir (ptable ?s ! p))) ?s = Done () t \<and>
      ptable t = ptable s \<and> held t = held s \<and> curproc t = Some p"
    using assms(3,4) by (simp add: switchuvm_def Let_def)
  then obtain t where t: "switchuvm (Some (p_kstack (ptable ?s ! p), p_pgdir (ptable ?s ! p))) ?s = Done () t"
    "ptable t = ptable s" "held t = held s" "curproc t = Some p" by blast
  let ?t = "set_proc p (\<lambda>q. q\<lparr>p_run_ticks := p_run_ticks q + 1\<rparr>) (set_proc p (\<lambda>q. q\<lparr>p_state := RUNNING\<rparr>) t)"
  have "run_yield p ?t = Done () (set_proc p (\<lambda>q. q\<lparr>p_state := RUNNABLE\<rparr>) ?t)"
    using assms(1,2) t by (intro run_yield_eq) simp_all
  then have "sched_run run_yield p s = Done () ((switchkvm (set_proc p (\<lambda>q. q\<lparr>p_state := RUNNABLE\<rparr>) ?t))\<lparr>curproc := None\<rparr>)"
    using t(1) by (simp add: sched_run_def Let_def)
  then show ?thesis using assms(1,2) t(2,3) by (simp add: switchkvm_def set_proc_def)
qed

lemma low_pass_first:
  "\<forall>i \<in> set xs. p_state (ptable s ! i) \<noteq> RUNNABLE \<Longrightarrow> p_state (ptable s ! p) = RUNNABLE \<Longrightarrow>
   low_pass run (xs @ p # ys) s = sched_run run p s"
  by (induction xs) auto

text \<open>No high priority process is runnable and \<open>p\<close> is the first runnable process of the table.\<close>

definition first_low :: "nat \<Rightarrow> 'z procst_scheme \<Rightarrow> bool" where
  "first_low p s \<longleftrightarrow> held s = [] \<and> length (ptable s) = NPROC \<and> p < NPROC \<and> getHighPriority s = 0 \<and>
     p_state (ptable s ! p) = RUNNABLE \<and> (\<forall>i < p. p_state (ptable s ! i) \<noteq> RUNNABLE) \<and>
     p_kstack (ptable s ! p) \<noteq> 0 \<and> p_pgdir (ptable s ! p) \<noteq> 0"

lemma no_high_update:
  assumes "getHighPriority s = 0" and "ptable t = (ptable s)[p := q]" and "\<not> high q"
  shows "getHighPriority t = 0"
proof -
  have "\<forall>r \<in> set (ptable s). \<not> high r" using assms(1) by (simp add: getHighPriority_count filter_empty_conv)
  then have "\<forall>r \<in> set (ptable t). \<not> high r"
    using assms(2,3) set_update_subset_insert [of "ptable s" p q] by auto
  then show ?thesis by (simp add: getHighPriority_count filter_empty_conv)
qed

lemma first_low_turn:
  assumes "first_low p s"
  shows "\<exists>t. scheduler_turn n run_yield s = Done () t \<and> first_low p t \<and>
    ptable t = (ptable s)[p := (ptable s ! p)\<lparr>p_run_ticks := p_run_ticks (ptable s ! p) + 1, p_state := RUNNABLE\<rparr>]"
proof -
  let ?q = "(ptable s ! p)\<lparr>p_run_ticks := p_run_ticks (ptable s ! p) + 1, p_state := RUNNABLE\<rparr>"
  let ?s = "s\<lparr>held := [PTABLE]\<rparr>"
  have A: "held s = []" "length (ptable s) = 64" "p < 64" "getHighPriority s = 0" "p_state (ptable s ! p) = RUNNABLE"
    "\<forall>i < p. p_state (ptable s ! i) \<noteq> RUNNABLE" "p_kstack (ptable s ! p) \<noteq> 0" "p_pgdir (ptable s ! p) \<noteq> 0"
    using assms by (auto simp: first_low_def)
  have hl: "high_loop n run_yield False ?s = Done False ?s"
    using A(4) by (simp add: high_loop.simps getHighPriority_def)
  obtain t where t: "sched_run run_yield p ?s = Done () t" "held t = [PTABLE]" "ptable t = (ptable s)[p := ?q]"
    using sched_run_yield [of ?s p] A by auto
  have "[0..<64] = [0..<p] @ p # [Suc p..<64]"
    using A(3) upt_add_eq_append [of 0 p "64 - p"] by (simp add: upt_conv_Cons)
  then have "low_pass run_yield [0..<64] ?s = Done () t"
    using low_pass_first [of "[0..<p]" ?s p] A(5,6) t(1) by simp
  then have "scheduler_turn n run_yield s = Done () (t\<lparr>held := []\<rparr>)"
    using A(1) hl t(2) by (simp add: scheduler_turn_def lock_def unlock_def)
  moreover have "\<not> high (ptable s ! p)" using A(2,3,4) getHighPriority_pos [of s] by auto
  then have "\<not> high ?q" using A(5) by (simp add: high_def)
  then have "getHighPriority (t\<lparr>held := []\<rparr>) = 0" using no_high_update [OF A(4), of "t\<lparr>held := []\<rparr>"] t(3) by simp
  then have "first_low p (t\<lparr>held := []\<rparr>)" using A t(3) by (auto simp: first_low_def)
  ultimately show ?thesis using t(3) by (intro exI [of _ "t\<lparr>held := []\<rparr>"]) simp
qed

text \<open>
  (C16) With no high priority process runnable, every turn of the scheduler restarts its search at
  the first entry of the table. A low priority process that uses up its time slices is chosen every
  time, and however many turns the scheduler makes, no other process of the table gets a tick.
\<close>

theorem low_priority_starvation:
  assumes "first_low p s"
  shows "\<exists>t. scheduler n run_yield k s = Done (replicate k ()) t \<and>
    (\<forall>i. i \<noteq> p \<longrightarrow> ptable t ! i = ptable s ! i) \<and>
    p_run_ticks (ptable t ! p) = p_run_ticks (ptable s ! p) + int k"
proof -
  have "\<exists>t. many (scheduler_turn n run_yield) k s = Done (replicate k ()) t \<and>
    (\<forall>i. i \<noteq> p \<longrightarrow> ptable t ! i = ptable s ! i) \<and>
    p_run_ticks (ptable t ! p) = p_run_ticks (ptable s ! p) + int k" if "first_low p s" for s :: "'a procst_scheme"
    using that
  proof (induction k arbitrary: s)
    case 0
    then show ?case by simp
  next
    case (Suc k)
    then obtain t where t: "scheduler_turn n run_yield s = Done () t" "first_low p t"
      "ptable t = (ptable s)[p := (ptable s ! p)\<lparr>p_run_ticks := p_run_ticks (ptable s ! p) + 1, p_state := RUNNABLE\<rparr>]"
      using first_low_turn by blast
    moreover have "p < length (ptable s)" using Suc.prems by (simp add: first_low_def)
    ultimately show ?case using Suc.IH [OF t(2)] by auto
  qed
  moreover have "first_low p (s\<lparr>curproc := None\<rparr>)" using assms by (simp add: first_low_def getHighPriority_def)
  ultimately show ?thesis unfolding scheduler_def by fastforce
qed

theorem low_priority_starvation_witness:
  "\<exists>t. scheduler 0 run_yield 1000 (proc_example [] [proc_run 1 0 RUNNABLE, proc_run 2 0 RUNNABLE]) = Done (replicate 1000 ()) t \<and>
     p_state (ptable t ! 1) = RUNNABLE \<and> p_run_ticks (ptable t ! 1) = 0"
proof -
  let ?s = "proc_example [] [proc_run 1 0 RUNNABLE, proc_run 2 0 RUNNABLE]"
  have nth: "ptable ?s ! i = (if i < 2 then [proc_run 1 0 RUNNABLE, proc_run 2 0 RUNNABLE] ! i else proc_zero)" if "i < 64" for i
    using that proc_example_nth [of "[proc_run 1 0 RUNNABLE, proc_run 2 0 RUNNABLE]" i] by simp
  have "getHighPriority ?s = 0"
    by (simp add: getHighPriority_count proc_example_def high_def)
  then have "first_low 0 ?s" by (simp add: first_low_def nth) (simp add: proc_example_def)
  from low_priority_starvation [OF this, of 0 1000] show ?thesis by (auto simp: nth)
qed

section \<open>Process ids\<close>

lemma find_unused_Some:
  "find_unused i ps = Some p \<Longrightarrow> i \<le> p \<and> p - i < length ps \<and> p_state (ps ! (p - i)) = UNUSED"
proof (induction ps arbitrary: i)
  case Nil
  then show ?case by simp
next
  case (Cons q ps)
  show ?case
  proof (cases "p_state q = UNUSED")
    case True
    then show ?thesis using Cons.prems by simp
  next
    case False
    then have "Suc i \<le> p \<and> p - Suc i < length ps \<and> p_state (ps ! (p - Suc i)) = UNUSED"
      using Cons by simp
    moreover from this have "p - i = Suc (p - Suc i)" by (simp add: Suc_diff_Suc Suc_le_lessD)
    ultimately show ?thesis by simp
  qed
qed

lemma find_unused_update: "p_state q = p_state (xs ! j) \<Longrightarrow> find_unused i (xs[j := q]) = find_unused i xs"
proof (induction xs arbitrary: i j)
  case Nil
  then show ?case by simp
next
  case (Cons x xs)
  then show ?case by (cases j) auto
qed

text \<open>The entry and the state that \<^verbatim>\<open>allocproc\<close> leaves when there is an unused entry \<open>p\<close>.\<close>

definition new_proc :: "'z procst_scheme \<Rightarrow> u32 \<Rightarrow> proc \<Rightarrow> proc" where
  "new_proc s k q = q\<lparr>p_state := EMBRYO, p_pid := nextpid s, p_priority := 1, p_run_ticks := 0, p_kstack := k\<rparr>"

lemma allocproc_eq:
  assumes held: "held s = []" and found: "find_unused 0 (ptable s) = Some p" and inv: "kmem_inv s (k # ks)"
  shows "\<exists>u. allocproc s = Done (Some p) u \<and> held u = [] \<and> kmem_inv u ks \<and> nextpid u = nextpid s + 1 \<and>
    ptable u = (ptable s)[p := (new_proc s k (ptable s ! p))\<lparr>p_tf := k + 4020, p_context := k + 3996\<rparr>] \<and>
    load32 (mem u) (k + 4016) = trapret s \<and> load32 (mem u) (k + 3996 + CTX_EIP) = forkret s \<and> curproc u = curproc s \<and>
    (\<forall>x. \<not> in_page k x \<longrightarrow> mem u x = mem s x)"
proof -
  have p: "p < length (ptable s)" using find_unused_Some [OF found] by simp
  note K = kalloc_ok [OF inv]
  have fl: "freelist s = k" using inv by (simp add: kmem_inv_def)
  let ?m1 = "store32 (mem s) (k + 4016) (trapret s)"
  let ?m2 = "memset ?m1 (k + 3996) 0 20"
  let ?m3 = "store32 ?m2 (k + 4012) (forkret s)"
  let ?u = "s\<lparr>nextpid := nextpid s + 1, held := [], freelist := load32 (mem s) k,
      ptable := (ptable s)[p := (new_proc s k (ptable s ! p))\<lparr>p_tf := k + 4020, p_context := k + 3996\<rparr>], mem := ?m3\<rparr>"
  have "allocproc s = Done (Some p) ?u"
    using held found fl K(4) p
    by (simp add: allocproc_def lock_def unlock_def Let_def set_proc_def new_proc_def kalloc_eq add.commute)
  moreover have in4: "in_page4 k (k + 4016)" "in_page4 k (k + 4012)" by (simp_all add: in_page4_def)
  have far: "?m3 x = mem s x" if "\<not> in_page k x" for x
  proof -
    have "\<not> x - (k + 3996) < 20"
    proof
      assume "x - (k + 3996) < 20"
      then have "unat (x - (k + 3996)) < 20" by (simp add: word_less_nat_alt)
      moreover have "x - k = (x - (k + 3996)) + 3996" by simp
      ultimately have "unat (x - k) < 4096" using unat_add_small [of "x - (k + 3996)" 3996] by simp
      then show False using that by (simp add: in_page_def word_less_nat_alt)
    qed
    then show ?thesis using that by (simp add: store32_frame [OF in4(2)] store32_frame [OF in4(1)] memset_apply)
  qed
  moreover have "kmem_inv ?u ks"
  proof -
    have "load32 ?m3 q = load32 (mem s) q" if "q \<in> set ks" for q
      using that inv K(5) far by (intro load32_other_page [of k q]) (auto simp: kmem_inv_def page_ok_def)
    then have "flist ?m3 (load32 (mem s) k) ks = flist (mem s) (load32 (mem s) k) ks" by (rule flist_cong)
    then show ?thesis using inv by (simp add: kmem_inv_def page_ok_def)
  qed
  moreover have "load32 ?m3 (k + 4016) = trapret s"
  proof -
    have "load32 ?m3 (k + 4016) = load32 ?m2 (k + 4016)" by (rule load32_store32_apart) (simp add: apart4_def)
    also have "\<dots> = load32 ?m1 (k + 4016)"
    proof (rule load32_cong)
      fix i :: nat
      assume "i < 4"
      then have "i = 0 \<or> i = 1 \<or> i = 2 \<or> i = 3" by auto
      then show "?m2 (k + 4016 + of_nat i) = ?m1 (k + 4016 + of_nat i)" by (auto simp: memset_apply)
    qed
    finally show ?thesis by simp
  qed
  moreover have "load32 ?m3 (k + 3996 + 16) = forkret s"
    using load32_store32_same [of ?m2 "k + 4012" "forkret s"] by (simp add: add.commute)
  ultimately show ?thesis by (intro exI [of _ ?u]) simp
qed

text \<open>Every used entry has a positive pid below \<^verbatim>\<open>nextpid\<close>, and no two have the same.\<close>

definition pids_ok :: "'z procst_scheme \<Rightarrow> bool" where
  "pids_ok s \<longleftrightarrow> length (ptable s) = NPROC \<and> 0 < nextpid s \<and>
     (\<forall>i < NPROC. p_state (ptable s ! i) \<noteq> UNUSED \<longrightarrow> 0 < p_pid (ptable s ! i) \<and> p_pid (ptable s ! i) < nextpid s) \<and>
     (\<forall>i < NPROC. \<forall>j < NPROC. p_state (ptable s ! i) \<noteq> UNUSED \<longrightarrow> p_state (ptable s ! j) \<noteq> UNUSED \<longrightarrow>
        p_pid (ptable s ! i) = p_pid (ptable s ! j) \<longrightarrow> i = j)"

lemma pids_ok_new:
  assumes ok: "pids_ok s" and u: "ptable u = (ptable s)[p := q]" "nextpid u = nextpid s + 1"
    and q: "p_state q \<noteq> UNUSED \<longrightarrow> p_pid q = nextpid s"
  shows "pids_ok u"
proof -
  have nth: "ptable u ! i = (if i = p then q else ptable s ! i)" if "i < 64" for i
    using that ok u(1) by (auto simp: pids_ok_def nth_list_update)
  show ?thesis unfolding pids_ok_def
  proof (intro conjI allI impI)
    show "length (ptable u) = 64" "0 < nextpid u" using ok u by (auto simp: pids_ok_def)
  next
    fix i :: nat
    assume "i < 64" "p_state (ptable u ! i) \<noteq> UNUSED"
    then show "0 < p_pid (ptable u ! i)" "p_pid (ptable u ! i) < nextpid u"
      using ok q u(2) by (auto simp: nth pids_ok_def split: if_splits)
  next
    fix i j :: nat
    assume "i < 64" "j < 64" "p_state (ptable u ! i) \<noteq> UNUSED" "p_state (ptable u ! j) \<noteq> UNUSED"
      "p_pid (ptable u ! i) = p_pid (ptable u ! j)"
    moreover have "p_pid (ptable s ! k) < nextpid s" if "k < 64" "p_state (ptable s ! k) \<noteq> UNUSED" for k
      using ok that by (simp add: pids_ok_def)
    ultimately have "(i = p) = (j = p)" using q nth by (metis less_irrefl)
    moreover have "p_state (ptable s ! i) \<noteq> UNUSED \<Longrightarrow> p_state (ptable s ! j) \<noteq> UNUSED \<Longrightarrow>
        p_pid (ptable s ! i) = p_pid (ptable s ! j) \<Longrightarrow> i = j"
      using ok \<open>i < 64\<close> \<open>j < 64\<close> by (simp add: pids_ok_def)
    ultimately show "i = j" using \<open>i < 64\<close> \<open>j < 64\<close> \<open>p_state (ptable u ! i) \<noteq> UNUSED\<close> \<open>p_state (ptable u ! j) \<noteq> UNUSED\<close>
        \<open>p_pid (ptable u ! i) = p_pid (ptable u ! j)\<close> by (cases "i = p") (simp_all add: nth)
  qed
qed


lemma proc_example_kmem: "kmem_inv (proc_example hs ps) [0x80201000]"
  by (simp add: kmem_inv_def proc_example_def load32_def page_ok_def aligned_def V2P_def)


section \<open>kill and settickets\<close>

lemma find_pid_Some: "find_pid n i ps = Some p \<Longrightarrow> i \<le> p \<and> p - i < length ps \<and> p_pid (ps ! (p - i)) = n"
proof (induction ps arbitrary: i)
  case Nil
  then show ?case by simp
next
  case (Cons q ps)
  show ?case
  proof (cases "p_pid q = n")
    case True
    then show ?thesis using Cons.prems by simp
  next
    case False
    then have "Suc i \<le> p \<and> p - Suc i < length ps \<and> p_pid (ps ! (p - Suc i)) = n" using Cons by simp
    moreover from this have "p - i = Suc (p - Suc i)" by (simp add: Suc_diff_Suc Suc_le_lessD)
    ultimately show ?thesis by simp
  qed
qed

lemma kill_eq:
  assumes "held s = []" and "find_pid n 0 (ptable s) = Some p"
  shows "kill n s = Done 0 (set_proc p (\<lambda>q. q\<lparr>p_killed := True, p_state := (if p_state q = SLEEPING then RUNNABLE else p_state q)\<rparr>) s)"
proof -
  have "p < length (ptable s)" using find_pid_Some [OF assms(2)] by simp
  then show ?thesis using assms by (simp add: kill_def lock_def unlock_def Let_def set_proc_def)
qed

text \<open>
  (C18) \<^verbatim>\<open>kill(0)\<close> does not fail: unused entries have pid 0, so it marks the first of them as
  killed. \<^verbatim>\<open>allocproc\<close> does not reset the mark, so the next process that gets the entry is born
  killed.
\<close>

theorem kill_zero_marks_unused:
  assumes "held s = []" and "find_pid 0 0 (ptable s) = Some p" and "find_unused 0 (ptable s) = Some p"
    and "kmem_inv s (k # ks)"
  shows "\<exists>t u. kill 0 s = Done 0 t \<and> allocproc t = Done (Some p) u \<and> p_killed (ptable u ! p)"
proof -
  have p: "p < length (ptable s)" "p_state (ptable s ! p) = UNUSED" using find_unused_Some [OF assms(3)] by auto
  let ?t = "set_proc p (\<lambda>q. q\<lparr>p_killed := True, p_state := (if p_state q = SLEEPING then RUNNABLE else p_state q)\<rparr>) s"
  have f: "find_unused 0 (ptable ?t) = Some p" using assms(3) p(2) by (simp add: set_proc_def find_unused_update)
  have "held ?t = []" "kmem_inv ?t (k # ks)" using assms(1,4) by (simp_all add: kmem_inv_def page_ok_def)
  from allocproc_eq [OF this(1) f this(2)] show ?thesis
    using kill_eq [OF assms(1,2)] p by (auto simp: new_proc_def set_proc_nth)
qed

theorem kill_zero_marks_unused_witness:
  "\<exists>t u. kill 0 (proc_example [] [proc_run 1 1 RUNNING]) = Done 0 t \<and> allocproc t = Done (Some 1) u \<and> p_killed (ptable u ! 1)"
proof -
  let ?s = "proc_example [] [proc_run 1 1 RUNNING]"
  have "held ?s = []" "find_pid 0 0 (ptable ?s) = Some 1" "find_unused 0 (ptable ?s) = Some 1"
    by (simp_all add: proc_example_def numeral_eq_Suc)
  from kill_zero_marks_unused [OF this proc_example_kmem] show ?thesis .
qed

text \<open>
  \<^verbatim>\<open>settickets\<close> accepts 0 and 1 and nothing else; it sets the priority of the calling process
  to its argument and leaves everything else as it was.
\<close>

theorem settickets_sets_priority:
  assumes "held s = []" and "curproc s = Some p"
  shows "settickets n s = (if n = 0 \<or> n = 1 then Done 0 (set_proc p (\<lambda>q. q\<lparr>p_priority := n\<rparr>) s) else Done (-1) s)"
  using assms by (auto simp: settickets_def lock_def unlock_def Let_def set_proc_def)

theorem settickets_sets_priority_witness:
  "settickets 0 (proc_example [] [proc_run 1 1 RUNNING]) =
     Done 0 (set_proc 0 (\<lambda>q. q\<lparr>p_priority := 0\<rparr>) (proc_example [] [proc_run 1 1 RUNNING]))"
  using settickets_sets_priority [of "proc_example [] [proc_run 1 1 RUNNING]" 0 0] by (simp add: proc_example_def)

end
