(* ===== verification/Bytes.thy ===== *)
theory Bytes
  imports CMem
begin

text \<open>
  C structures inside byte arrays: little-endian fields of a disk block or of a buffer, copies from
  one array to another, and the string functions on the arrays that are fields of a structure. An
  access past the end of an array reads 0 and writes nothing; the callers stay inside.
\<close>

definition getb :: "bytes \<Rightarrow> nat \<Rightarrow> u8" where
  "getb bs i = (if i < length bs then bs ! i else 0)"

definition get16 :: "bytes \<Rightarrow> nat \<Rightarrow> u16" where
  "get16 bs i = ucast (getb bs i) OR push_bit 8 (ucast (getb bs (i + 1)))"

definition get32 :: "bytes \<Rightarrow> nat \<Rightarrow> u32" where
  "get32 bs i = ucast (getb bs i) OR push_bit 8 (ucast (getb bs (i + 1)))
     OR push_bit 16 (ucast (getb bs (i + 2))) OR push_bit 24 (ucast (getb bs (i + 3)))"

definition bytes16 :: "u16 \<Rightarrow> bytes" where
  "bytes16 v = [ucast v, ucast (drop_bit 8 v)]"

definition bytes32 :: "u32 \<Rightarrow> bytes" where
  "bytes32 v = [ucast v, ucast (drop_bit 8 v), ucast (drop_bit 16 v), ucast (drop_bit 24 v)]"

text \<open>\<^verbatim>\<open>memmove(dst + off, src, n)\<close> for an array \<open>dst\<close> and the \<open>n\<close> bytes at \<open>src\<close>.\<close>

definition blit :: "bytes \<Rightarrow> nat \<Rightarrow> bytes \<Rightarrow> bytes" where
  "blit dst off src = take (length dst) (take off dst @ src @ drop (off + length src) dst)"

definition slice :: "bytes \<Rightarrow> nat \<Rightarrow> nat \<Rightarrow> bytes" where
  "slice bs off n = take n (drop off bs)"

text \<open>The C string functions on arrays; \<open>strncpy_arr\<close> and its companions relate them to \<open>CMem\<close>.\<close>

definition strncpy_bytes :: "bytes \<Rightarrow> nat \<Rightarrow> bytes" where
  "strncpy_bytes t n = take n (cstr (take n t) @ replicate n 0)"

definition safestrcpy_bytes :: "bytes \<Rightarrow> bytes \<Rightarrow> nat \<Rightarrow> bytes" where
  "safestrcpy_bytes dst t n =
     (if n = 0 then dst
      else let c = cstr (take (n - 1) t) in blit dst 0 (c @ [0]))"

definition strncmp_eq :: "bytes \<Rightarrow> bytes \<Rightarrow> nat \<Rightarrow> bool" where
  "strncmp_eq p q n \<longleftrightarrow> cstr (take n p) = cstr (take n q)"

section \<open>Fields\<close>

lemma length_blit [simp]: "length (blit dst off src) = length dst"
  by (auto simp: blit_def)

lemma length_bytes16 [simp]: "length (bytes16 v) = 2"
  by (simp add: bytes16_def)

lemma length_bytes32 [simp]: "length (bytes32 v) = 4"
  by (simp add: bytes32_def)

lemma nth_blit:
  "off + length src \<le> length dst \<Longrightarrow> i < length dst \<Longrightarrow>
   blit dst off src ! i = (if off \<le> i \<and> i < off + length src then src ! (i - off) else dst ! i)"
  by (auto simp: blit_def nth_append min_def)

lemma getb_blit:
  "off + length src \<le> length dst \<Longrightarrow>
   getb (blit dst off src) i = (if off \<le> i \<and> i < off + length src then src ! (i - off) else getb dst i)"
  by (auto simp: getb_def nth_blit)

lemma get32_bytes32: "off + 4 \<le> length bs \<Longrightarrow> get32 (blit bs off (bytes32 v)) off = v"
  by (simp add: get32_def getb_blit bytes32_def bytes_of_u32)

lemma get32_blit_other:
  "off + length src \<le> length bs \<Longrightarrow> i + 4 \<le> off \<or> off + length src \<le> i \<Longrightarrow> get32 (blit bs off src) i = get32 bs i"
  by (auto simp: get32_def getb_blit)

lemma get16_bytes16: "off + 2 \<le> length bs \<Longrightarrow> get16 (blit bs off (bytes16 v)) off = v"
proof -
  assume "off + 2 \<le> length bs"
  then have "get16 (blit bs off (bytes16 v)) off = ucast (ucast v :: u8) OR push_bit 8 (ucast (ucast (drop_bit 8 v) :: u8))"
    by (simp add: get16_def getb_blit bytes16_def)
  also have "\<dots> = v"
  proof (rule bit_word_eqI)
    fix n
    assume "n < LENGTH(16)"
    then show "bit (ucast (ucast v :: u8) OR push_bit 8 (ucast (ucast (drop_bit 8 v) :: u8)) :: u16) n = bit v n"
      by (cases "n < 8") (auto simp: bit_simps)
  qed
  finally show ?thesis .
qed

lemma get16_blit_other:
  "off + length src \<le> length bs \<Longrightarrow> i + 2 \<le> off \<or> off + length src \<le> i \<Longrightarrow> get16 (blit bs off src) i = get16 bs i"
  by (auto simp: get16_def getb_blit)

lemma length_strncpy_bytes [simp]: "length (strncpy_bytes t n) = n"
  by (simp add: strncpy_bytes_def)

text \<open>The array functions compute what the functions of \<^verbatim>\<open>string.c\<close> leave in memory.\<close>

lemma cstr_take_arr: "cstr (take n (arr m t k)) = cstr (arr m t (min n k))"
proof -
  have "take n (arr m t k) = arr m t (min n k)" by (simp add: arr_def take_map min_def)
  then show ?thesis by simp
qed

lemma strncpy_is_strncpy_bytes:
  assumes "0 \<le> n" and "n \<le> 4294967296" and "disjoint_arr s t (nat n)"
  shows "arr (strncpy m s t n) s (nat n) = strncpy_bytes (arr m t (nat n)) (nat n)"
  using strncpy_arr [OF assms] by (simp add: strncpy_bytes_def)

lemma strncmp_is_strncmp_eq:
  "strncmp m p q n = 0 \<longleftrightarrow> strncmp_eq (arr m p n) (arr m q n) n"
  by (simp add: strncmp_eq_0_iff strncmp_eq_def cstr_take_arr)

end
