(* ===== verification/Console.thy ===== *)
theory Console
  imports Proc Bytes
begin

text \<open>
  \<^verbatim>\<open>console.c\<close>: formatted output, the CGA screen, and the input line with its ring buffer.
  \<open>cgapos\<close> is the cursor position the CRT controller holds, \<open>uart_out\<close> the characters sent to the
  serial line. The screen is the memory at \<^verbatim>\<open>P2V(0xb8000)\<close>. The functions that lock an inode
  around the console are in \<open>Fs\<close>.

  An argument of \<^verbatim>\<open>cprintf\<close> is a word, or the string a pointer argument points to. The
  keyboard and serial interrupt handlers hand \<^verbatim>\<open>consoleintr\<close> a function; here it gets the list
  of the characters that function returns before it returns a negative value.
\<close>

record consst = procst +
  cons_locking :: bool
  panicked :: bool
  cgapos :: int
  uart :: bool
  uart_out :: bytes
  input_buf :: bytes
  input_r :: u32
  input_w :: u32
  input_e :: u32
  devsw_console :: bool

section \<open>Formatting\<close>

definition digits :: bytes where
  "digits = [48, 49, 50, 51, 52, 53, 54, 55, 56, 57, 97, 98, 99, 100, 101, 102]"

text \<open>The digits of a number, least significant first; the array \<^verbatim>\<open>buf\<close> has room for 16.\<close>

fun printint_loop :: "nat \<Rightarrow> u32 \<Rightarrow> u32 \<Rightarrow> bytes" where
  "printint_loop n x base =
     (if n = 0 then []
      else let d = digits ! unat (x mod base); x = x div base
           in if x \<noteq> 0 then d # printint_loop (n - 1) x base else [d])"

definition printint :: "u32 \<Rightarrow> u32 \<Rightarrow> bool \<Rightarrow> bytes" where
  "printint xx base sign =
     (let sign = (sign \<and> sint xx < 0);
          x = (if sign then - xx else xx);
          buf = printint_loop 16 x base;
          buf = (if sign then buf @ [45] else buf)
      in rev buf)"

datatype cval = CInt u32 | CStr "bytes option"

fun cval_int :: "cval \<Rightarrow> u32" where
  "cval_int (CInt x) = x"
| "cval_int (CStr None) = 0"
| "cval_int (CStr (Some s)) = KERNBASE"

fun cval_str :: "cval \<Rightarrow> bytes" where
  "cval_str (CInt x) = []"
| "cval_str (CStr None) = [40, 110, 117, 108, 108, 41]"
| "cval_str (CStr (Some s)) = cstr s"

text \<open>
  The characters \<^verbatim>\<open>cprintf\<close> prints: \<open>37\<close> is the percent sign, \<open>100\<close>, \<open>120\<close>, \<open>112\<close> and
  \<open>115\<close> are \<^verbatim>\<open>d\<close>, \<^verbatim>\<open>x\<close>, \<^verbatim>\<open>p\<close> and \<^verbatim>\<open>s\<close>. A missing argument is read as 0.
\<close>

fun cformat :: "bytes \<Rightarrow> cval list \<Rightarrow> bytes" where
  "cformat [] args = []"
| "cformat (c # fmt) args =
     (if c = 0 then []
      else if c \<noteq> 37 then c # cformat fmt args
      else case fmt of [] \<Rightarrow> []
      | d # fmt' \<Rightarrow>
        if d = 0 then []
        else if d = 100 then printint (cval_int (if args = [] then CInt 0 else hd args)) 10 True @ cformat fmt' (tl args)
        else if d = 120 \<or> d = 112 then printint (cval_int (if args = [] then CInt 0 else hd args)) 16 False @ cformat fmt' (tl args)
        else if d = 115 then cval_str (if args = [] then CStr None else hd args) @ cformat fmt' (tl args)
        else if d = 37 then 37 # cformat fmt' args
        else 37 # d # cformat fmt' args)"

section \<open>The screen\<close>

abbreviation (input) BACKSPACE :: int where "BACKSPACE \<equiv> 0x100"
abbreviation (input) CRT :: u32 where "CRT \<equiv> 0x800B8000"

definition store16 :: "mem \<Rightarrow> u32 \<Rightarrow> u16 \<Rightarrow> mem" where
  "store16 m a v = m(a := ucast v, a + 1 := ucast (drop_bit 8 v))"

definition cga_write :: "int \<Rightarrow> int \<Rightarrow> 'z consst_scheme \<Rightarrow> 'z consst_scheme" where
  "cga_write c pos s =
     (if c \<noteq> 10 \<and> c \<noteq> BACKSPACE
      then s\<lparr>mem := store16 (mem s) (CRT + 2 * of_int pos) ((of_int c AND 0xFF) OR 0x0700)\<rparr> else s)"

definition cga_advance :: "int \<Rightarrow> int \<Rightarrow> int" where
  "cga_advance c pos =
     (if c = 10 then pos + (80 - pos mod 80)
      else if c = BACKSPACE then (if pos > 0 then pos - 1 else pos)
      else pos + 1)"

definition cga_scroll :: "int \<Rightarrow> 'z consst_scheme \<Rightarrow> int \<times> 'z consst_scheme" where
  "cga_scroll pos s =
     (if pos div 80 \<ge> 24 then
        let s = s\<lparr>mem := memmove (mem s) CRT (CRT + 2 * 80) (2 * 23 * 80)\<rparr>;
            pos = pos - 80;
            s = s\<lparr>mem := memset (mem s) (CRT + 2 * of_int pos) 0 (of_int (2 * (24 * 80 - pos)))\<rparr>
        in (pos, s)
      else (pos, s))"

definition cgaputc :: "int \<Rightarrow> 'z consst_scheme \<Rightarrow> ('z consst_scheme, unit) outcome" where
  "cgaputc c s =
     (let pos = cgapos s;
          s = cga_write c pos s;
          pos = cga_advance c pos
      in if pos < 0 \<or> pos > 25 * 80 then Panic ''pos under/overflow''
         else let (pos, s) = cga_scroll pos s;
                  s = s\<lparr>cgapos := pos mod 65536\<rparr>
              in Done () (s\<lparr>mem := store16 (mem s) (CRT + 2 * of_int pos) (0x20 OR 0x0700)\<rparr>))"

definition uartputc :: "int \<Rightarrow> 'z consst_scheme \<Rightarrow> 'z consst_scheme" where
  "uartputc c s = (if \<not> uart s then s else s\<lparr>uart_out := uart_out s @ [of_int c]\<rparr>)"

definition consputc :: "int \<Rightarrow> 'z consst_scheme \<Rightarrow> ('z consst_scheme, unit) outcome" where
  "consputc c s =
     (if panicked s then Diverge
      else let s = (if c = BACKSPACE then uartputc 8 (uartputc 32 (uartputc 8 s)) else uartputc c s)
           in cgaputc c s)"

text \<open>Printing a character changes the screen, the cursor and the serial output only.\<close>

definition cons_same :: "'z consst_scheme \<Rightarrow> 'z consst_scheme \<Rightarrow> bool" where
  "cons_same s t \<longleftrightarrow> t\<lparr>mem := mem s, cgapos := cgapos s, uart_out := uart_out s\<rparr> = s"

lemma cons_same_upd [simp]:
  "cons_same s (t\<lparr>mem := m\<rparr>) = cons_same s t" "cons_same s (t\<lparr>cgapos := i\<rparr>) = cons_same s t"
  "cons_same s (t\<lparr>uart_out := o'\<rparr>) = cons_same s t" "cons_same s s"
  by (simp_all add: cons_same_def)

lemma cons_same_write [simp]: "cons_same s (cga_write c pos t) = cons_same s t"
  by (simp add: cga_write_def)

lemma cons_same_scroll: "cga_scroll pos s = (p, t) \<Longrightarrow> cons_same u t = cons_same u s"
  by (auto simp: cga_scroll_def Let_def split: if_splits)

lemma cons_same_uart [simp]: "cons_same s (uartputc c t) = cons_same s t"
  by (simp add: uartputc_def)

lemma cgaputc_same: "cgaputc c s = Done u t \<Longrightarrow> cons_same v s \<Longrightarrow> cons_same v t"
  by (auto simp: cgaputc_def Let_def cons_same_scroll split: if_splits prod.splits)

lemma consputc_same: "consputc c s = Done u t \<Longrightarrow> cons_same s t"
  by (auto simp: consputc_def Let_def split: if_splits elim: cgaputc_same)

lemma cons_sameD:
  assumes "cons_same s t"
  shows "input_buf t = input_buf s" "input_r t = input_r s" "input_w t = input_w s" "input_e t = input_e s"
    "held t = held s" "ptable t = ptable s" "curproc t = curproc s" "panicked t = panicked s"
proof -
  have e: "t\<lparr>mem := mem s, cgapos := cgapos s, uart_out := uart_out s\<rparr> = s" using assms by (simp add: cons_same_def)
  show "input_buf t = input_buf s" "input_r t = input_r s" "input_w t = input_w s" "input_e t = input_e s"
    "held t = held s" "ptable t = ptable s" "curproc t = curproc s" "panicked t = panicked s"
    using arg_cong [OF e, of input_buf] arg_cong [OF e, of input_r] arg_cong [OF e, of input_w] arg_cong [OF e, of input_e]
      arg_cong [OF e, of held] arg_cong [OF e, of ptable] arg_cong [OF e, of curproc] arg_cong [OF e, of panicked]
    by simp_all
qed

fun consputs :: "bytes \<Rightarrow> 'z consst_scheme \<Rightarrow> ('z consst_scheme, unit) outcome" where
  "consputs [] s = Done () s"
| "consputs (c # cs) s = bind (consputc (uint c) s) (\<lambda>_ s. consputs cs s)"

definition cprintf :: "bytes option \<Rightarrow> cval list \<Rightarrow> 'z consst_scheme \<Rightarrow> ('z consst_scheme, unit) outcome" where
  "cprintf fmt args s =
     (let locking = cons_locking s in
      bind (if locking then lock CONSLOCK s else Done () s) (\<lambda>_ s.
      case fmt of None \<Rightarrow> Panic ''null fmt''
      | Some f \<Rightarrow> bind (consputs (cformat f args) s) (\<lambda>_ s.
          if locking then unlock CONSLOCK s else Done () s)))"

section \<open>The input line\<close>

abbreviation (input) INPUT_BUF :: u32 where "INPUT_BUF \<equiv> 128"

definition inbuf :: "'z consst_scheme \<Rightarrow> u32 \<Rightarrow> u8" where
  "inbuf s i = input_buf s ! unat (i mod INPUT_BUF)"

function kill_line :: "'z consst_scheme \<Rightarrow> ('z consst_scheme, unit) outcome" where
  "kill_line s =
     (if input_e s \<noteq> input_w s \<and> inbuf s (input_e s - 1) \<noteq> 10 then
        bind (consputc BACKSPACE (s\<lparr>input_e := input_e s - 1\<rparr>)) (\<lambda>_ s. kill_line s)
      else Done () s)"
  by pat_completeness auto
termination
proof (relation "measure (\<lambda>s. unat (input_e s - input_w s))", goal_cases)
  case (2 s u t)
  have "input_e t = input_e s - 1 \<and> input_w t = input_w s"
    using cons_sameD(3,4) [OF consputc_same [OF 2(2)]] by simp
  moreover have "input_e s - input_w s \<noteq> 0" using 2(1) by simp
  then have "unat (input_e s - input_w s - 1) < unat (input_e s - input_w s)"
    using unat_minus_one [of "input_e s - input_w s"] by (simp add: unat_gt_0)
  then have "unat (input_e s - 1 - input_w s) < unat (input_e s - input_w s)"
    by (simp only: diff_right_commute [of "input_e s" 1])
  ultimately show ?case by simp
qed simp

declare kill_line.simps [simp del]

text \<open>One character of \<^verbatim>\<open>consoleintr\<close>'s loop. Control-P only sets a flag, which is the result.\<close>

definition consoleintr_char :: "int \<Rightarrow> bool \<Rightarrow> 'z consst_scheme \<Rightarrow> ('z consst_scheme, bool) outcome" where
  "consoleintr_char c doprocdump s =
     (if c = 16 then Done True s
      else if c = 21 then bind (kill_line s) (\<lambda>_ s. Done doprocdump s)
      else if c = 8 \<or> c = 127 then
        if input_e s \<noteq> input_w s then
          bind (consputc BACKSPACE (s\<lparr>input_e := input_e s - 1\<rparr>)) (\<lambda>_ s. Done doprocdump s)
        else Done doprocdump s
      else if c \<noteq> 0 \<and> input_e s - input_r s < INPUT_BUF then
        let c = (if c = 13 then 10 else c);
            s = s\<lparr>input_buf := (input_buf s)[unat (input_e s mod INPUT_BUF) := of_int c]\<rparr>;
            s = s\<lparr>input_e := input_e s + 1\<rparr>
        in bind (consputc c s) (\<lambda>_ s.
           if c = 10 \<or> c = 4 \<or> input_e s = input_r s + INPUT_BUF then
             let s = s\<lparr>input_w := input_e s\<rparr> in bind (wakeup INPUT_R s) (\<lambda>_ s. Done doprocdump s)
           else Done doprocdump s)
      else Done doprocdump s)"

fun consoleintr_loop :: "int list \<Rightarrow> bool \<Rightarrow> 'z consst_scheme \<Rightarrow> ('z consst_scheme, bool) outcome" where
  "consoleintr_loop [] d s = Done d s"
| "consoleintr_loop (c # cs) d s = bind (consoleintr_char c d s) (\<lambda>d s. consoleintr_loop cs d s)"

text \<open>\<^verbatim>\<open>procdump\<close>, without the call stacks of sleeping processes, which are debugging data.\<close>

fun state_name :: "procstate \<Rightarrow> bytes" where
  "state_name UNUSED = map (of_nat \<circ> of_char) ''unused''"
| "state_name EMBRYO = map (of_nat \<circ> of_char) ''embryo''"
| "state_name SLEEPING = map (of_nat \<circ> of_char) ''sleep ''"
| "state_name RUNNABLE = map (of_nat \<circ> of_char) ''runble''"
| "state_name RUNNING = map (of_nat \<circ> of_char) ''run   ''"
| "state_name ZOMBIE = map (of_nat \<circ> of_char) ''zombie''"

fun procdump_loop :: "proc list \<Rightarrow> 'z consst_scheme \<Rightarrow> ('z consst_scheme, unit) outcome" where
  "procdump_loop [] s = Done () s"
| "procdump_loop (p # ps) s =
     (if p_state p = UNUSED then procdump_loop ps s
      else bind (cprintf (Some (map (of_nat \<circ> of_char) ''%d %s %s''))
             [CInt (of_int (p_pid p)), CStr (Some (state_name (p_state p))), CStr (Some (p_name p))] s) (\<lambda>_ s.
           bind (cprintf (Some [10]) [] s) (\<lambda>_ s. procdump_loop ps s)))"

definition procdump :: "'z consst_scheme \<Rightarrow> ('z consst_scheme, unit) outcome" where
  "procdump s = procdump_loop (ptable s) s"

definition consoleintr :: "int list \<Rightarrow> 'z consst_scheme \<Rightarrow> ('z consst_scheme, unit) outcome" where
  "consoleintr cs s =
     bind (lock CONSLOCK s) (\<lambda>_ s.
     bind (consoleintr_loop cs False s) (\<lambda>doprocdump s.
     bind (unlock CONSLOCK s) (\<lambda>_ s.
     if doprocdump then procdump s else Done () s)))"

text \<open>
  The copy loop of \<^verbatim>\<open>consoleread\<close>. \<open>dst\<close> is the address the characters go to, or \<open>None\<close> when they
  go to a local variable of the caller, which finds them in the result. The result \<open>None\<close> is the
  return of -1 by a killed process.
\<close>

definition emit :: "u32 option \<Rightarrow> bytes \<Rightarrow> 'z vmst_scheme \<Rightarrow> ('z vmst_scheme, unit) outcome" where
  "emit dst bs s = (case dst of None \<Rightarrow> Done () s | Some a \<Rightarrow> kwrite_bytes a bs s)"

fun consoleread_loop :: "u32 option \<Rightarrow> nat \<Rightarrow> nat \<Rightarrow> 'z consst_scheme \<Rightarrow> ('z consst_scheme, bytes option) outcome" where
  "consoleread_loop dst target n s =
     (if n = 0 then Done (Some []) s
      else if input_r s = input_w s then
        (case curproc s of None \<Rightarrow> Fault 36
         | Some p \<Rightarrow> if p_killed (ptable s ! p) then Done None s
             else bind (sleep INPUT_R CONSLOCK s) (\<lambda>_ s. Done None s))
      else let c = inbuf s (input_r s);
               s = s\<lparr>input_r := input_r s + 1\<rparr>
           in if c = 4 then
                Done (Some []) (if n < target then s\<lparr>input_r := input_r s - 1\<rparr> else s)
              else bind (emit dst [c] s) (\<lambda>_ s.
                if c = 10 then Done (Some [c]) s
                else bind (consoleread_loop (map_option (\<lambda>a. a + 1) dst) target (n - 1) s) (\<lambda>r s.
                  Done (map_option (\<lambda>cs. c # cs) r) s)))"

definition consoleinit :: "'z consst_scheme \<Rightarrow> 'z consst_scheme" where
  "consoleinit s = s\<lparr>devsw_console := True, cons_locking := True\<rparr>"

end
