(* ===== verification/Bio.thy ===== *)
theory Bio
  imports Console
begin

text \<open>
  The block cache of \<^verbatim>\<open>bio.c\<close>, the sleep locks of \<^verbatim>\<open>sleeplock.c\<close>, and the disk as
  \<^verbatim>\<open>memide.c\<close> drives it, which completes a request before it returns (\<open>Ide\<close> models the
  interrupt-driven \<^verbatim>\<open>ide.c\<close>). A buffer is named by its index in \<open>bufs\<close>; \<open>lru\<close> is the
  doubly linked list from \<^verbatim>\<open>head.next\<close> to \<^verbatim>\<open>head.prev\<close>, most recently used first.
  \<open>dwrites\<close> is the history of the blocks written to the disk, oldest first: a crash cuts it.

  A sleep lock is passed to the functions by value and they return its new value.
\<close>

abbreviation (input) BSIZE :: nat where "BSIZE \<equiv> 512"
abbreviation (input) NBUF :: nat where "NBUF \<equiv> 30"
abbreviation (input) B_VALID :: u32 where "B_VALID \<equiv> 0x2"
abbreviation (input) B_DIRTY :: u32 where "B_DIRTY \<equiv> 0x4"

record sleeplock =
  sl_locked :: bool
  sl_pid :: int

record buf =
  b_flags :: u32
  b_dev :: u32
  b_blockno :: u32
  b_lock :: sleeplock
  b_refcnt :: u32
  b_data :: bytes

record biost = consst +
  bufs :: "buf list"
  lru :: "nat list"
  disk :: "bytes list"
  dwrites :: "(u32 \<times> bytes) list"

section \<open>sleeplock.c\<close>

definition initsleeplock :: sleeplock where
  "initsleeplock = \<lparr>sl_locked = False, sl_pid = 0\<rparr>"

definition mypid :: "'z procst_scheme \<Rightarrow> ('z procst_scheme, int) outcome" where
  "mypid s = (case curproc s of None \<Rightarrow> Fault 16 | Some p \<Rightarrow> Done (p_pid (ptable s ! p)) s)"

definition acquiresleep :: "chan \<Rightarrow> lockid \<Rightarrow> sleeplock \<Rightarrow> 'z procst_scheme \<Rightarrow> ('z procst_scheme, sleeplock) outcome" where
  "acquiresleep ch L lk s =
     bind (lock L s) (\<lambda>_ s.
     bind (if sl_locked lk then sleep ch L s else Done () s) (\<lambda>_ s.
     bind (mypid s) (\<lambda>n s.
     bind (unlock L s) (\<lambda>_ s. Done \<lparr>sl_locked = True, sl_pid = n\<rparr> s))))"

definition releasesleep :: "chan \<Rightarrow> lockid \<Rightarrow> 'z procst_scheme \<Rightarrow> ('z procst_scheme, sleeplock) outcome" where
  "releasesleep ch L s =
     bind (lock L s) (\<lambda>_ s.
     bind (wakeup ch s) (\<lambda>_ s.
     bind (unlock L s) (\<lambda>_ s. Done \<lparr>sl_locked = False, sl_pid = 0\<rparr> s)))"

definition holdingsleep :: "lockid \<Rightarrow> sleeplock \<Rightarrow> 'z procst_scheme \<Rightarrow> ('z procst_scheme, bool) outcome" where
  "holdingsleep L lk s =
     bind (lock L s) (\<lambda>_ s.
     bind (if \<not> sl_locked lk then Done False s else bind (mypid s) (\<lambda>n s. Done (sl_pid lk = n) s)) (\<lambda>r s.
     bind (unlock L s) (\<lambda>_ s. Done r s)))"

section \<open>memide.c\<close>

definition set_buf :: "nat \<Rightarrow> (buf \<Rightarrow> buf) \<Rightarrow> 'z biost_scheme \<Rightarrow> 'z biost_scheme" where
  "set_buf b f s = s\<lparr>bufs := (bufs s)[b := f (bufs s ! b)]\<rparr>"

definition iderw :: "nat \<Rightarrow> 'z biost_scheme \<Rightarrow> ('z biost_scheme, unit) outcome" where
  "iderw b s =
     bind (holdingsleep (BUFLK b) (b_lock (bufs s ! b)) s) (\<lambda>h s.
     let q = bufs s ! b in
     if \<not> h then Panic ''iderw: buf not locked''
     else if b_flags q AND (B_VALID OR B_DIRTY) = B_VALID then Panic ''iderw: nothing to do''
     else if b_dev q \<noteq> 1 then Panic ''iderw: request not for disk 1''
     else if unat (b_blockno q) \<ge> length (disk s) then Panic ''iderw: block out of range''
     else let s = (if b_flags q AND B_DIRTY \<noteq> 0 then
                let s = set_buf b (\<lambda>q. q\<lparr>b_flags := b_flags q AND NOT B_DIRTY\<rparr>) s
                in s\<lparr>disk := (disk s)[unat (b_blockno q) := b_data q], dwrites := dwrites s @ [(b_blockno q, b_data q)]\<rparr>
              else set_buf b (\<lambda>q. q\<lparr>b_data := disk s ! unat (b_blockno q)\<rparr>) s)
          in Done () (set_buf b (\<lambda>q. q\<lparr>b_flags := b_flags q OR B_VALID\<rparr>) s))"

section \<open>bio.c\<close>

definition binit :: "'z biost_scheme \<Rightarrow> 'z biost_scheme" where
  "binit s = s\<lparr>lru := rev [0..<NBUF], bufs := map (\<lambda>q. q\<lparr>b_lock := initsleeplock\<rparr>) (bufs s)\<rparr>"

fun find_buf :: "(buf \<Rightarrow> bool) \<Rightarrow> nat list \<Rightarrow> buf list \<Rightarrow> nat option" where
  "find_buf P [] bs = None"
| "find_buf P (b # l) bs = (if P (bs ! b) then Some b else find_buf P l bs)"

definition block_lock :: "nat \<Rightarrow> 'z biost_scheme \<Rightarrow> ('z biost_scheme, nat) outcome" where
  "block_lock b s =
     bind (unlock BCACHE s) (\<lambda>_ s.
     bind (acquiresleep (BUFLOCK b) (BUFLK b) (b_lock (bufs s ! b)) s) (\<lambda>lk s.
     Done b (set_buf b (\<lambda>q. q\<lparr>b_lock := lk\<rparr>) s)))"

definition bget :: "u32 \<Rightarrow> u32 \<Rightarrow> 'z biost_scheme \<Rightarrow> ('z biost_scheme, nat) outcome" where
  "bget dev blockno s =
     bind (lock BCACHE s) (\<lambda>_ s.
     case find_buf (\<lambda>q. b_dev q = dev \<and> b_blockno q = blockno) (lru s) (bufs s) of
       Some b \<Rightarrow> block_lock b (set_buf b (\<lambda>q. q\<lparr>b_refcnt := b_refcnt q + 1\<rparr>) s)
     | None \<Rightarrow>
         (case find_buf (\<lambda>q. b_refcnt q = 0 \<and> b_flags q AND B_DIRTY = 0) (rev (lru s)) (bufs s) of
            Some b \<Rightarrow> block_lock b (set_buf b (\<lambda>q. q\<lparr>b_dev := dev, b_blockno := blockno, b_flags := 0, b_refcnt := 1\<rparr>) s)
          | None \<Rightarrow> Panic ''bget: no buffers''))"

definition bread :: "u32 \<Rightarrow> u32 \<Rightarrow> 'z biost_scheme \<Rightarrow> ('z biost_scheme, nat) outcome" where
  "bread dev blockno s =
     bind (bget dev blockno s) (\<lambda>b s.
     bind (if b_flags (bufs s ! b) AND B_VALID = 0 then iderw b s else Done () s) (\<lambda>_ s. Done b s))"

definition bwrite :: "nat \<Rightarrow> 'z biost_scheme \<Rightarrow> ('z biost_scheme, unit) outcome" where
  "bwrite b s =
     bind (holdingsleep (BUFLK b) (b_lock (bufs s ! b)) s) (\<lambda>h s.
     if \<not> h then Panic ''bwrite''
     else iderw b (set_buf b (\<lambda>q. q\<lparr>b_flags := b_flags q OR B_DIRTY\<rparr>) s))"

definition brelse :: "nat \<Rightarrow> 'z biost_scheme \<Rightarrow> ('z biost_scheme, unit) outcome" where
  "brelse b s =
     bind (holdingsleep (BUFLK b) (b_lock (bufs s ! b)) s) (\<lambda>h s.
     if \<not> h then Panic ''brelse''
     else bind (releasesleep (BUFLOCK b) (BUFLK b) s) (\<lambda>lk s.
       let s = set_buf b (\<lambda>q. q\<lparr>b_lock := lk\<rparr>) s in
       bind (lock BCACHE s) (\<lambda>_ s.
       let s = set_buf b (\<lambda>q. q\<lparr>b_refcnt := b_refcnt q - 1\<rparr>) s;
           s = (if b_refcnt (bufs s ! b) = 0 then s\<lparr>lru := b # remove1 b (lru s)\<rparr> else s)
       in unlock BCACHE s)))"

end
