(* ===== verification/Log.thy ===== *)
theory Log
  imports Bio
begin

text \<open>
  The redo log of \<^verbatim>\<open>log.c\<close>. \<open>lh_n\<close> and \<open>lh_block\<close> are the header in memory; on disk it is
  the block \<open>log_start\<close>, followed by the logged blocks. An index past the end of
  \<^verbatim>\<open>lh.block\<close> is an access outside of the array and modelled as a fault.
\<close>

abbreviation (input) LOGSIZE :: int where "LOGSIZE \<equiv> 30"
abbreviation (input) MAXOPBLOCKS :: int where "MAXOPBLOCKS \<equiv> 10"

record logst = biost +
  log_start :: u32
  log_size :: u32
  outstanding :: int
  committing :: bool
  log_dev :: u32
  lh_n :: int
  lh_block :: "u32 list"

text \<open>\<^verbatim>\<open>readsb\<close> of \<^verbatim>\<open>fs.c\<close>: the seven words of the super block.\<close>

record superblock =
  sb_size :: u32
  sb_nblocks :: u32
  sb_ninodes :: u32
  sb_nlog :: u32
  sb_logstart :: u32
  sb_inodestart :: u32
  sb_bmapstart :: u32

definition sb_of :: "bytes \<Rightarrow> superblock" where
  "sb_of d = \<lparr>sb_size = get32 d 0, sb_nblocks = get32 d 4, sb_ninodes = get32 d 8, sb_nlog = get32 d 12,
     sb_logstart = get32 d 16, sb_inodestart = get32 d 20, sb_bmapstart = get32 d 24\<rparr>"

definition readsb :: "u32 \<Rightarrow> 'z biost_scheme \<Rightarrow> ('z biost_scheme, superblock) outcome" where
  "readsb dev s =
     bind (bread dev 1 s) (\<lambda>bp s.
     let sb = sb_of (b_data (bufs s ! bp)) in bind (brelse bp s) (\<lambda>_ s. Done sb s))"

fun install_loop :: "nat list \<Rightarrow> 'z logst_scheme \<Rightarrow> ('z logst_scheme, unit) outcome" where
  "install_loop [] s = Done () s"
| "install_loop (tail # tails) s =
     (if tail \<ge> length (lh_block s) then Fault 0
      else bind (bread (log_dev s) (log_start s + of_nat tail + 1) s) (\<lambda>lbuf s.
      bind (bread (log_dev s) (lh_block s ! tail) s) (\<lambda>dbuf s.
      let s = set_buf dbuf (\<lambda>q. q\<lparr>b_data := b_data (bufs s ! lbuf)\<rparr>) s in
      bind (bwrite dbuf s) (\<lambda>_ s.
      bind (brelse lbuf s) (\<lambda>_ s.
      bind (brelse dbuf s) (\<lambda>_ s. install_loop tails s))))))"

definition install_trans :: "'z logst_scheme \<Rightarrow> ('z logst_scheme, unit) outcome" where
  "install_trans s = install_loop [0..<nat (lh_n s)] s"

fun read_head_loop :: "nat list \<Rightarrow> bytes \<Rightarrow> 'z logst_scheme \<Rightarrow> ('z logst_scheme, unit) outcome" where
  "read_head_loop [] d s = Done () s"
| "read_head_loop (i # is) d s =
     (if i \<ge> length (lh_block s) then Fault 0
      else read_head_loop is d (s\<lparr>lh_block := (lh_block s)[i := get32 d (4 + 4 * i)]\<rparr>))"

definition read_head :: "'z logst_scheme \<Rightarrow> ('z logst_scheme, unit) outcome" where
  "read_head s =
     bind (bread (log_dev s) (log_start s) s) (\<lambda>b s.
     let d = b_data (bufs s ! b);
         s = s\<lparr>lh_n := sint (get32 d 0)\<rparr>
     in bind (read_head_loop [0..<nat (lh_n s)] d s) (\<lambda>_ s. brelse b s))"

fun put_blocks :: "nat \<Rightarrow> u32 list \<Rightarrow> bytes \<Rightarrow> bytes" where
  "put_blocks i [] d = d"
| "put_blocks i (x # xs) d = put_blocks (Suc i) xs (blit d (4 + 4 * i) (bytes32 x))"

definition write_head :: "'z logst_scheme \<Rightarrow> ('z logst_scheme, unit) outcome" where
  "write_head s =
     bind (bread (log_dev s) (log_start s) s) (\<lambda>b s.
     if nat (lh_n s) > length (lh_block s) then Fault 0
     else let s = set_buf b (\<lambda>q. q\<lparr>b_data := put_blocks 0 (take (nat (lh_n s)) (lh_block s))
                (blit (b_data q) 0 (bytes32 (of_int (lh_n s))))\<rparr>) s
          in bind (bwrite b s) (\<lambda>_ s. brelse b s))"

definition recover_from_log :: "'z logst_scheme \<Rightarrow> ('z logst_scheme, unit) outcome" where
  "recover_from_log s =
     bind (read_head s) (\<lambda>_ s.
     bind (install_trans s) (\<lambda>_ s.
     write_head (s\<lparr>lh_n := 0\<rparr>)))"

definition initlog :: "u32 \<Rightarrow> 'z logst_scheme \<Rightarrow> ('z logst_scheme, unit) outcome" where
  "initlog dev s =
     (if 4 + 4 * LOGSIZE \<ge> int BSIZE then Panic ''initlog: too big logheader''
      else bind (readsb dev s) (\<lambda>sb s.
        recover_from_log (s\<lparr>log_start := sb_logstart sb, log_size := sb_nlog sb, log_dev := dev\<rparr>)))"

definition begin_op :: "'z logst_scheme \<Rightarrow> ('z logst_scheme, unit) outcome" where
  "begin_op s =
     bind (lock LOGLOCK s) (\<lambda>_ s.
     if committing s then sleep LOG LOGLOCK s
     else if lh_n s + (outstanding s + 1) * MAXOPBLOCKS > LOGSIZE then sleep LOG LOGLOCK s
     else unlock LOGLOCK (s\<lparr>outstanding := outstanding s + 1\<rparr>))"

fun write_log_loop :: "nat list \<Rightarrow> 'z logst_scheme \<Rightarrow> ('z logst_scheme, unit) outcome" where
  "write_log_loop [] s = Done () s"
| "write_log_loop (tail # tails) s =
     (if tail \<ge> length (lh_block s) then Fault 0
      else bind (bread (log_dev s) (log_start s + of_nat tail + 1) s) (\<lambda>to s.
      bind (bread (log_dev s) (lh_block s ! tail) s) (\<lambda>frm s.
      let s = set_buf to (\<lambda>q. q\<lparr>b_data := b_data (bufs s ! frm)\<rparr>) s in
      bind (bwrite to s) (\<lambda>_ s.
      bind (brelse frm s) (\<lambda>_ s.
      bind (brelse to s) (\<lambda>_ s. write_log_loop tails s))))))"

definition write_log :: "'z logst_scheme \<Rightarrow> ('z logst_scheme, unit) outcome" where
  "write_log s = write_log_loop [0..<nat (lh_n s)] s"

definition commit :: "'z logst_scheme \<Rightarrow> ('z logst_scheme, unit) outcome" where
  "commit s =
     (if lh_n s > 0 then
        bind (write_log s) (\<lambda>_ s.
        bind (write_head s) (\<lambda>_ s.
        bind (install_trans s) (\<lambda>_ s.
        write_head (s\<lparr>lh_n := 0\<rparr>))))
      else Done () s)"

definition end_op :: "'z logst_scheme \<Rightarrow> ('z logst_scheme, unit) outcome" where
  "end_op s =
     bind (lock LOGLOCK s) (\<lambda>_ s.
     let s = s\<lparr>outstanding := outstanding s - 1\<rparr> in
     if committing s then Panic ''log.committing''
     else let do_commit = (outstanding s = 0) in
       bind (if do_commit then Done () (s\<lparr>committing := True\<rparr>) else wakeup LOG s) (\<lambda>_ s.
       bind (unlock LOGLOCK s) (\<lambda>_ s.
       if do_commit then
         bind (commit s) (\<lambda>_ s.
         bind (lock LOGLOCK s) (\<lambda>_ s.
         let s = s\<lparr>committing := False\<rparr> in
         bind (wakeup LOG s) (\<lambda>_ s. unlock LOGLOCK s)))
       else Done () s)))"

text \<open>The first index of the block among the logged ones, or the number of logged blocks.\<close>

fun log_index :: "u32 \<Rightarrow> nat \<Rightarrow> u32 list \<Rightarrow> nat" where
  "log_index b i [] = i"
| "log_index b i (x # xs) = (if x = b then i else log_index b (Suc i) xs)"

definition log_write :: "nat \<Rightarrow> 'z logst_scheme \<Rightarrow> ('z logst_scheme, unit) outcome" where
  "log_write b s =
     (if lh_n s \<ge> LOGSIZE \<or> lh_n s \<ge> sint (log_size s) - 1 then Panic ''too big a transaction''
      else if outstanding s < 1 then Panic ''log_write outside of trans''
      else bind (lock LOGLOCK s) (\<lambda>_ s.
        let bno = b_blockno (bufs s ! b);
            i = log_index bno 0 (take (nat (lh_n s)) (lh_block s))
        in if i \<ge> length (lh_block s) then Fault 0
           else let s = s\<lparr>lh_block := (lh_block s)[i := bno]\<rparr>;
                    s = (if int i = lh_n s then s\<lparr>lh_n := lh_n s + 1\<rparr> else s);
                    s = set_buf b (\<lambda>q. q\<lparr>b_flags := b_flags q OR B_DIRTY\<rparr>) s
                in unlock LOGLOCK s))"

end
