(* ===== verification/Fs.thy ===== *)
theory Fs
  imports Log
begin

text \<open>
  The file system of \<^verbatim>\<open>fs.c\<close>: block allocator, inodes, file contents, directories and path
  names. An inode pointer is an index into the inode cache \<open>icache\<close>. A directory entry or a disk
  inode is read from and written to the bytes of its block at the offsets the C structures have.

  \<open>readi\<close> copies to a kernel or user address, or (\<open>None\<close>) to a local variable of its caller; its
  result is the bytes copied, or \<open>None\<close> where the C function returns -1. \<open>writei\<close> takes
  its bytes from an address or from a local variable. The console's device functions of
  \<^verbatim>\<open>console.c\<close> that \<open>readi\<close> and \<open>writei\<close> call are here, as they lock the inode, and so is
  \<^verbatim>\<open>loaduvm\<close> of \<^verbatim>\<open>vm.c\<close>, which reads from one.
\<close>

abbreviation (input) NINODE :: nat where "NINODE \<equiv> 50"
abbreviation (input) NDIRECT :: nat where "NDIRECT \<equiv> 12"
abbreviation (input) NINDIRECT :: nat where "NINDIRECT \<equiv> 128"
abbreviation (input) MAXFILE :: nat where "MAXFILE \<equiv> 140"
abbreviation (input) DIRSIZ :: nat where "DIRSIZ \<equiv> 14"
abbreviation (input) BPB :: nat where "BPB \<equiv> 4096"
abbreviation (input) IPB :: u32 where "IPB \<equiv> 8"
abbreviation (input) ROOTDEV :: u32 where "ROOTDEV \<equiv> 1"
abbreviation (input) ROOTINO :: u32 where "ROOTINO \<equiv> 1"
abbreviation (input) T_DIR :: u16 where "T_DIR \<equiv> 1"
abbreviation (input) T_FILE :: u16 where "T_FILE \<equiv> 2"
abbreviation (input) T_DEV :: u16 where "T_DEV \<equiv> 3"
abbreviation (input) CONSOLE :: int where "CONSOLE \<equiv> 1"

record inode =
  i_dev :: u32
  i_inum :: u32
  i_ref :: int
  i_lock :: sleeplock
  i_valid :: bool
  i_type :: u16
  i_major :: u16
  i_minor :: u16
  i_nlink :: u16
  i_size :: u32
  i_addrs :: "u32 list"

record fsst = logst +
  icache :: "inode list"
  sb :: superblock

datatype src = KBYTES bytes | ADDR u32

definition set_inode :: "nat \<Rightarrow> (inode \<Rightarrow> inode) \<Rightarrow> 'z fsst_scheme \<Rightarrow> 'z fsst_scheme" where
  "set_inode ip f s = s\<lparr>icache := (icache s)[ip := f (icache s ! ip)]\<rparr>"

definition fetch :: "src \<Rightarrow> nat \<Rightarrow> nat \<Rightarrow> 'z vmst_scheme \<Rightarrow> ('z vmst_scheme, bytes) outcome" where
  "fetch src i n s = (case src of KBYTES bs \<Rightarrow> Done (slice bs i n) s | ADDR a \<Rightarrow> kread_bytes (a + of_nat i) n s)"

section \<open>Blocks\<close>

definition bzero :: "u32 \<Rightarrow> u32 \<Rightarrow> 'z logst_scheme \<Rightarrow> ('z logst_scheme, unit) outcome" where
  "bzero dev bno s =
     bind (bread dev bno s) (\<lambda>bp s.
     let s = set_buf bp (\<lambda>q. q\<lparr>b_data := replicate BSIZE 0\<rparr>) s in
     bind (log_write bp s) (\<lambda>_ s. brelse bp s))"

definition bit_of :: "nat \<Rightarrow> u8" where
  "bit_of bi = push_bit (bi mod 8) 1"

fun find_clear :: "bytes \<Rightarrow> nat list \<Rightarrow> nat option" where
  "find_clear d [] = None"
| "find_clear d (bi # bis) = (if getb d (bi div 8) AND bit_of bi = 0 then Some bi else find_clear d bis)"

definition BBLOCK :: "u32 \<Rightarrow> superblock \<Rightarrow> u32" where
  "BBLOCK b sbk = b div of_nat BPB + sb_bmapstart sbk"

text \<open>\<open>n\<close> bitmap blocks are left, the next one for the blocks from \<open>b\<close>.\<close>

fun balloc_loop :: "nat \<Rightarrow> u32 \<Rightarrow> nat \<Rightarrow> 'z fsst_scheme \<Rightarrow> ('z fsst_scheme, u32) outcome" where
  "balloc_loop 0 dev b s = Panic ''balloc: out of blocks''"
| "balloc_loop (Suc n) dev b s =
     bind (bread dev (BBLOCK (of_nat b) (sb s)) s) (\<lambda>bp s.
     case find_clear (b_data (bufs s ! bp)) [0..<min BPB (unat (sb_size (sb s)) - b)] of
       Some bi \<Rightarrow>
         let s = set_buf bp (\<lambda>q. q\<lparr>b_data := (b_data q)[bi div 8 := getb (b_data q) (bi div 8) OR bit_of bi]\<rparr>) s in
         bind (log_write bp s) (\<lambda>_ s.
         bind (brelse bp s) (\<lambda>_ s.
         bind (bzero dev (of_nat (b + bi)) s) (\<lambda>_ s. Done (of_nat (b + bi)) s)))
     | None \<Rightarrow> bind (brelse bp s) (\<lambda>_ s. balloc_loop n dev (b + BPB) s))"

definition balloc :: "u32 \<Rightarrow> 'z fsst_scheme \<Rightarrow> ('z fsst_scheme, u32) outcome" where
  "balloc dev s = balloc_loop ((unat (sb_size (sb s)) + BPB - 1) div BPB) dev 0 s"

definition bfree :: "u32 \<Rightarrow> u32 \<Rightarrow> 'z fsst_scheme \<Rightarrow> ('z fsst_scheme, unit) outcome" where
  "bfree dev b s =
     bind (bread dev (BBLOCK b (sb s)) s) (\<lambda>bp s.
     let bi = unat b mod BPB; d = b_data (bufs s ! bp) in
     if getb d (bi div 8) AND bit_of bi = 0 then Panic ''freeing free block''
     else let s = set_buf bp (\<lambda>q. q\<lparr>b_data := d[bi div 8 := getb d (bi div 8) AND NOT (bit_of bi)]\<rparr>) s in
       bind (log_write bp s) (\<lambda>_ s. brelse bp s))"

section \<open>Inodes\<close>

definition IBLOCK :: "u32 \<Rightarrow> superblock \<Rightarrow> u32" where
  "IBLOCK i sbk = i div IPB + sb_inodestart sbk"

definition dinode_off :: "u32 \<Rightarrow> nat" where
  "dinode_off inum = unat (inum mod IPB) * 64"

definition iinit :: "u32 \<Rightarrow> 'z fsst_scheme \<Rightarrow> ('z fsst_scheme, unit) outcome" where
  "iinit dev s =
     (let s = s\<lparr>icache := map (\<lambda>q. q\<lparr>i_lock := initsleeplock\<rparr>) (icache s)\<rparr> in
      bind (readsb dev s) (\<lambda>b s. Done () (klog ''sb: size %d nblocks %d ninodes %d nlog %d logstart %d inodestart %d bmap start %d'' (s\<lparr>sb := b\<rparr>))))"

fun iget_scan :: "u32 \<Rightarrow> u32 \<Rightarrow> nat list \<Rightarrow> inode list \<Rightarrow> nat option \<Rightarrow> (nat \<times> bool) option" where
  "iget_scan dev inum [] ics empt = map_option (\<lambda>i. (i, False)) empt"
| "iget_scan dev inum (i # is) ics empt =
     (let q = ics ! i in
      if i_ref q > 0 \<and> i_dev q = dev \<and> i_inum q = inum then Some (i, True)
      else iget_scan dev inum is ics (if empt = None \<and> i_ref q = 0 then Some i else empt))"

definition iget :: "u32 \<Rightarrow> u32 \<Rightarrow> 'z fsst_scheme \<Rightarrow> ('z fsst_scheme, nat) outcome" where
  "iget dev inum s =
     bind (lock ICACHE s) (\<lambda>_ s.
     case iget_scan dev inum [0..<length (icache s)] (icache s) None of
       None \<Rightarrow> Panic ''iget: no inodes''
     | Some (ip, True) \<Rightarrow>
         bind (unlock ICACHE (set_inode ip (\<lambda>q. q\<lparr>i_ref := i_ref q + 1\<rparr>) s)) (\<lambda>_ s. Done ip s)
     | Some (ip, False) \<Rightarrow>
         bind (unlock ICACHE (set_inode ip (\<lambda>q. q\<lparr>i_dev := dev, i_inum := inum, i_ref := 1, i_valid := False\<rparr>) s))
           (\<lambda>_ s. Done ip s))"

fun ialloc_loop :: "nat list \<Rightarrow> u32 \<Rightarrow> u16 \<Rightarrow> 'z fsst_scheme \<Rightarrow> ('z fsst_scheme, nat) outcome" where
  "ialloc_loop [] dev type s = Panic ''ialloc: no inodes''"
| "ialloc_loop (i # is) dev type s =
     (let inum = of_nat i; off = dinode_off inum in
      bind (bread dev (IBLOCK inum (sb s)) s) (\<lambda>bp s.
      if get16 (b_data (bufs s ! bp)) off = 0 then
        let s = set_buf bp (\<lambda>q. q\<lparr>b_data := blit (blit (b_data q) off (replicate 64 0)) off (bytes16 type)\<rparr>) s in
        bind (log_write bp s) (\<lambda>_ s.
        bind (brelse bp s) (\<lambda>_ s. iget dev inum s))
      else bind (brelse bp s) (\<lambda>_ s. ialloc_loop is dev type s)))"

definition ialloc :: "u32 \<Rightarrow> u16 \<Rightarrow> 'z fsst_scheme \<Rightarrow> ('z fsst_scheme, nat) outcome" where
  "ialloc dev type s = ialloc_loop [1..<unat (sb_ninodes (sb s))] dev type s"

definition dinode_bytes :: "inode \<Rightarrow> bytes" where
  "dinode_bytes q = bytes16 (i_type q) @ bytes16 (i_major q) @ bytes16 (i_minor q) @ bytes16 (i_nlink q)
     @ bytes32 (i_size q) @ concat (map bytes32 (i_addrs q))"

definition read_dinode :: "bytes \<Rightarrow> nat \<Rightarrow> inode \<Rightarrow> inode" where
  "read_dinode d off q = q\<lparr>i_type := get16 d off, i_major := get16 d (off + 2), i_minor := get16 d (off + 4),
     i_nlink := get16 d (off + 6), i_size := get32 d (off + 8),
     i_addrs := map (\<lambda>i. get32 d (off + 12 + 4 * i)) [0..<NDIRECT + 1]\<rparr>"

definition iupdate :: "nat \<Rightarrow> 'z fsst_scheme \<Rightarrow> ('z fsst_scheme, unit) outcome" where
  "iupdate ip s =
     (let q = icache s ! ip in
      bind (bread (i_dev q) (IBLOCK (i_inum q) (sb s)) s) (\<lambda>bp s.
      let s = set_buf bp (\<lambda>b. b\<lparr>b_data := blit (b_data b) (dinode_off (i_inum q)) (dinode_bytes q)\<rparr>) s in
      bind (log_write bp s) (\<lambda>_ s. brelse bp s)))"

definition idup :: "nat \<Rightarrow> 'z fsst_scheme \<Rightarrow> ('z fsst_scheme, nat) outcome" where
  "idup ip s =
     bind (lock ICACHE s) (\<lambda>_ s.
     bind (unlock ICACHE (set_inode ip (\<lambda>q. q\<lparr>i_ref := i_ref q + 1\<rparr>) s)) (\<lambda>_ s. Done ip s))"

definition isleep :: "nat \<Rightarrow> 'z fsst_scheme \<Rightarrow> ('z fsst_scheme, unit) outcome" where
  "isleep ip s =
     bind (acquiresleep (INODELOCK ip) (INODELK ip) (i_lock (icache s ! ip)) s) (\<lambda>lk s.
     Done () (set_inode ip (\<lambda>q. q\<lparr>i_lock := lk\<rparr>) s))"

definition iwake :: "nat \<Rightarrow> 'z fsst_scheme \<Rightarrow> ('z fsst_scheme, unit) outcome" where
  "iwake ip s =
     bind (releasesleep (INODELOCK ip) (INODELK ip) s) (\<lambda>lk s.
     Done () (set_inode ip (\<lambda>q. q\<lparr>i_lock := lk\<rparr>) s))"

definition ilock :: "nat \<Rightarrow> 'z fsst_scheme \<Rightarrow> ('z fsst_scheme, unit) outcome" where
  "ilock ip s =
     (if i_ref (icache s ! ip) < 1 then Panic ''ilock''
      else bind (isleep ip s) (\<lambda>_ s.
        if i_valid (icache s ! ip) then Done () s
        else let inum = i_inum (icache s ! ip) in
          bind (bread (i_dev (icache s ! ip)) (IBLOCK inum (sb s)) s) (\<lambda>bp s.
          let s = set_inode ip (read_dinode (b_data (bufs s ! bp)) (dinode_off inum)) s in
          bind (brelse bp s) (\<lambda>_ s.
          let s = set_inode ip (\<lambda>q. q\<lparr>i_valid := True\<rparr>) s in
          if i_type (icache s ! ip) = 0 then Panic ''ilock: no type'' else Done () s))))"

definition iunlock :: "nat \<Rightarrow> 'z fsst_scheme \<Rightarrow> ('z fsst_scheme, unit) outcome" where
  "iunlock ip s =
     bind (holdingsleep (INODELK ip) (i_lock (icache s ! ip)) s) (\<lambda>h s.
     if \<not> h \<or> i_ref (icache s ! ip) < 1 then Panic ''iunlock'' else iwake ip s)"

fun free_direct :: "nat \<Rightarrow> nat list \<Rightarrow> 'z fsst_scheme \<Rightarrow> ('z fsst_scheme, unit) outcome" where
  "free_direct ip [] s = Done () s"
| "free_direct ip (i # is) s =
     (if i_addrs (icache s ! ip) ! i \<noteq> 0 then
        bind (bfree (i_dev (icache s ! ip)) (i_addrs (icache s ! ip) ! i) s) (\<lambda>_ s.
        free_direct ip is (set_inode ip (\<lambda>q. q\<lparr>i_addrs := (i_addrs q)[i := 0]\<rparr>) s))
      else free_direct ip is s)"

text \<open>The block numbers are read again in each round from the buffer \<open>bp\<close>.\<close>

fun free_indirect :: "nat \<Rightarrow> nat \<Rightarrow> nat list \<Rightarrow> 'z fsst_scheme \<Rightarrow> ('z fsst_scheme, unit) outcome" where
  "free_indirect ip bp [] s = Done () s"
| "free_indirect ip bp (j # js) s =
     (let a = get32 (b_data (bufs s ! bp)) (4 * j) in
      if a \<noteq> 0 then bind (bfree (i_dev (icache s ! ip)) a s) (\<lambda>_ s. free_indirect ip bp js s)
      else free_indirect ip bp js s)"

definition itrunc :: "nat \<Rightarrow> 'z fsst_scheme \<Rightarrow> ('z fsst_scheme, unit) outcome" where
  "itrunc ip s =
     bind (free_direct ip [0..<NDIRECT] s) (\<lambda>_ s.
     bind (let a = i_addrs (icache s ! ip) ! NDIRECT in
           if a \<noteq> 0 then
             bind (bread (i_dev (icache s ! ip)) a s) (\<lambda>bp s.
             bind (free_indirect ip bp [0..<NINDIRECT] s) (\<lambda>_ s.
             bind (brelse bp s) (\<lambda>_ s.
             bind (bfree (i_dev (icache s ! ip)) a s) (\<lambda>_ s.
             Done () (set_inode ip (\<lambda>q. q\<lparr>i_addrs := (i_addrs q)[NDIRECT := 0]\<rparr>) s)))))
           else Done () s) (\<lambda>_ s.
     iupdate ip (set_inode ip (\<lambda>q. q\<lparr>i_size := 0\<rparr>) s)))"

definition iput_free :: "nat \<Rightarrow> 'z fsst_scheme \<Rightarrow> ('z fsst_scheme, unit) outcome" where
  "iput_free ip s =
     bind (lock ICACHE s) (\<lambda>_ s.
     let r = i_ref (icache s ! ip) in
     bind (unlock ICACHE s) (\<lambda>_ s.
     if r = 1 then
       bind (itrunc ip s) (\<lambda>_ s.
       bind (iupdate ip (set_inode ip (\<lambda>q. q\<lparr>i_type := 0\<rparr>) s)) (\<lambda>_ s.
       Done () (set_inode ip (\<lambda>q. q\<lparr>i_valid := False\<rparr>) s)))
     else Done () s))"

definition iput :: "nat \<Rightarrow> 'z fsst_scheme \<Rightarrow> ('z fsst_scheme, unit) outcome" where
  "iput ip s =
     bind (isleep ip s) (\<lambda>_ s.
     bind (if i_valid (icache s ! ip) \<and> i_nlink (icache s ! ip) = 0 then iput_free ip s else Done () s) (\<lambda>_ s.
     bind (iwake ip s) (\<lambda>_ s.
     bind (lock ICACHE s) (\<lambda>_ s.
     unlock ICACHE (set_inode ip (\<lambda>q. q\<lparr>i_ref := i_ref q - 1\<rparr>) s)))))"

definition iunlockput :: "nat \<Rightarrow> 'z fsst_scheme \<Rightarrow> ('z fsst_scheme, unit) outcome" where
  "iunlockput ip s = bind (iunlock ip s) (\<lambda>_ s. iput ip s)"

section \<open>Contents\<close>

definition bmap :: "nat \<Rightarrow> nat \<Rightarrow> 'z fsst_scheme \<Rightarrow> ('z fsst_scheme, u32) outcome" where
  "bmap ip bn s =
     (let q = icache s ! ip in
      if bn < NDIRECT then
        (if i_addrs q ! bn = 0 then
           bind (balloc (i_dev q) s) (\<lambda>a s. Done a (set_inode ip (\<lambda>q. q\<lparr>i_addrs := (i_addrs q)[bn := a]\<rparr>) s))
         else Done (i_addrs q ! bn) s)
      else let bn = bn - NDIRECT in
        if bn < NINDIRECT then
          bind (if i_addrs q ! NDIRECT = 0 then
                  bind (balloc (i_dev q) s) (\<lambda>a s.
                  Done a (set_inode ip (\<lambda>q. q\<lparr>i_addrs := (i_addrs q)[NDIRECT := a]\<rparr>) s))
                else Done (i_addrs q ! NDIRECT) s) (\<lambda>addr s.
          bind (bread (i_dev q) addr s) (\<lambda>bp s.
          let addr = get32 (b_data (bufs s ! bp)) (4 * bn) in
          if addr = 0 then
            bind (balloc (i_dev q) s) (\<lambda>a s.
            let s = set_buf bp (\<lambda>b. b\<lparr>b_data := blit (b_data b) (4 * bn) (bytes32 a)\<rparr>) s in
            bind (log_write bp s) (\<lambda>_ s.
            bind (brelse bp s) (\<lambda>_ s. Done a s)))
          else bind (brelse bp s) (\<lambda>_ s. Done addr s)))
        else Panic ''bmap: out of range'')"

record stat_buf =
  st_type :: u16
  st_dev :: u32
  st_ino :: u32
  st_nlink :: u16
  st_size :: u32

definition stati :: "nat \<Rightarrow> 'z fsst_scheme \<Rightarrow> stat_buf" where
  "stati ip s = (let q = icache s ! ip in
     \<lparr>st_type = i_type q, st_dev = i_dev q, st_ino = i_inum q, st_nlink = i_nlink q, st_size = i_size q\<rparr>)"

definition consoleread :: "nat \<Rightarrow> u32 option \<Rightarrow> int \<Rightarrow> 'z fsst_scheme \<Rightarrow> ('z fsst_scheme, bytes option) outcome" where
  "consoleread ip dst n s =
     bind (iunlock ip s) (\<lambda>_ s.
     bind (lock CONSLOCK s) (\<lambda>_ s.
     bind (consoleread_loop dst (nat n) (nat n) s) (\<lambda>r s.
     bind (unlock CONSLOCK s) (\<lambda>_ s.
     bind (ilock ip s) (\<lambda>_ s. Done r s)))))"

fun consolewrite_loop :: "src \<Rightarrow> nat list \<Rightarrow> 'z consst_scheme \<Rightarrow> ('z consst_scheme, unit) outcome" where
  "consolewrite_loop src [] s = Done () s"
| "consolewrite_loop src (i # is) s =
     bind (fetch src i 1 s) (\<lambda>bs s.
     bind (consputs bs s) (\<lambda>_ s. consolewrite_loop src is s))"

definition consolewrite :: "nat \<Rightarrow> src \<Rightarrow> int \<Rightarrow> 'z fsst_scheme \<Rightarrow> ('z fsst_scheme, int) outcome" where
  "consolewrite ip src n s =
     bind (iunlock ip s) (\<lambda>_ s.
     bind (lock CONSLOCK s) (\<lambda>_ s.
     bind (consolewrite_loop src [0..<nat n] s) (\<lambda>_ s.
     bind (unlock CONSLOCK s) (\<lambda>_ s.
     bind (ilock ip s) (\<lambda>_ s. Done n s)))))"

definition has_dev :: "nat \<Rightarrow> 'z fsst_scheme \<Rightarrow> bool" where
  "has_dev ip s \<longleftrightarrow> sint (i_major (icache s ! ip)) = CONSOLE \<and> devsw_console s"

text \<open>The bytes up to the end of the block, at most \<open>n\<close>.\<close>

definition chunk :: "u32 \<Rightarrow> nat \<Rightarrow> nat" where
  "chunk off n = min n (BSIZE - unat off mod BSIZE)"

lemma chunk_pos: "0 < n \<Longrightarrow> 0 < chunk off n"
  by (simp add: chunk_def)

lemma chunk_le: "chunk off n \<le> n"
  by (simp add: chunk_def)

function readi_loop :: "nat \<Rightarrow> u32 option \<Rightarrow> u32 \<Rightarrow> nat \<Rightarrow> 'z fsst_scheme \<Rightarrow> ('z fsst_scheme, bytes) outcome" where
  "readi_loop ip dst off n s =
     (if n = 0 then Done [] s
      else bind (bmap ip (unat off div BSIZE) s) (\<lambda>a s.
        bind (bread (i_dev (icache s ! ip)) a s) (\<lambda>bp s.
        let m = chunk off n; bs = slice (b_data (bufs s ! bp)) (unat off mod BSIZE) m in
        bind (emit dst bs s) (\<lambda>_ s.
        bind (brelse bp s) (\<lambda>_ s.
        bind (readi_loop ip (map_option (\<lambda>d. d + of_nat m) dst) (off + of_nat m) (n - chunk off n) s) (\<lambda>rest s.
        Done (bs @ rest) s))))))"
  by pat_completeness auto
termination
  by (relation "measure (\<lambda>(ip, dst, off, n, s). n)") (use chunk_pos in auto)

definition readi :: "nat \<Rightarrow> u32 option \<Rightarrow> u32 \<Rightarrow> u32 \<Rightarrow> 'z fsst_scheme \<Rightarrow> ('z fsst_scheme, bytes option) outcome" where
  "readi ip dst off n s =
     (let q = icache s ! ip in
      if i_type q = T_DEV then (if has_dev ip s then consoleread ip dst (sint n) s else Done None s)
      else if off > i_size q \<or> off + n < off then Done None s
      else let n = (if off + n > i_size q then i_size q - off else n)
           in bind (readi_loop ip dst off (unat n) s) (\<lambda>bs s. Done (Some bs) s))"

function writei_loop :: "nat \<Rightarrow> src \<Rightarrow> nat \<Rightarrow> u32 \<Rightarrow> nat \<Rightarrow> 'z fsst_scheme \<Rightarrow> ('z fsst_scheme, u32) outcome" where
  "writei_loop ip src i off n s =
     (if n = 0 then Done off s
      else bind (bmap ip (unat off div BSIZE) s) (\<lambda>a s.
        bind (bread (i_dev (icache s ! ip)) a s) (\<lambda>bp s.
        bind (fetch src i (chunk off n) s) (\<lambda>bs s.
        let s = set_buf bp (\<lambda>q. q\<lparr>b_data := blit (b_data q) (unat off mod BSIZE) bs\<rparr>) s in
        bind (log_write bp s) (\<lambda>_ s.
        bind (brelse bp s) (\<lambda>_ s.
        writei_loop ip src (i + chunk off n) (off + of_nat (chunk off n)) (n - chunk off n) s))))))"
  by pat_completeness auto
termination
  by (relation "measure (\<lambda>(ip, src, i, off, n, s). n)") (use chunk_pos in auto)

definition writei :: "nat \<Rightarrow> src \<Rightarrow> u32 \<Rightarrow> u32 \<Rightarrow> 'z fsst_scheme \<Rightarrow> ('z fsst_scheme, int) outcome" where
  "writei ip src off n s =
     (let q = icache s ! ip in
      if i_type q = T_DEV then (if has_dev ip s then consolewrite ip src (sint n) s else Done (- 1) s)
      else if off > i_size q \<or> off + n < off then Done (- 1) s
      else if off + n > of_nat (MAXFILE * BSIZE) then Done (- 1) s
      else bind (writei_loop ip src 0 off (unat n) s) (\<lambda>off s.
        bind (if n > 0 \<and> off > i_size (icache s ! ip)
              then iupdate ip (set_inode ip (\<lambda>q. q\<lparr>i_size := off\<rparr>) s) else Done () s) (\<lambda>_ s.
        Done (sint n) s)))"

section \<open>Directories\<close>

definition namecmp_eq :: "bytes \<Rightarrow> bytes \<Rightarrow> bool" where
  "namecmp_eq a b = strncmp_eq a b DIRSIZ"

definition dirents :: "u32 \<Rightarrow> nat list" where
  "dirents sz = map (\<lambda>i. 16 * i) [0..<(unat sz + 15) div 16]"

definition read_dirent :: "nat \<Rightarrow> nat \<Rightarrow> string \<Rightarrow> 'z fsst_scheme \<Rightarrow> ('z fsst_scheme, bytes) outcome" where
  "read_dirent dp off msg s =
     bind (readi dp None (of_nat off) 16 s) (\<lambda>r s.
     case r of Some de \<Rightarrow> if length de = 16 then Done de s else Panic msg | None \<Rightarrow> Panic msg)"

fun dirlookup_loop :: "nat \<Rightarrow> bytes \<Rightarrow> nat list \<Rightarrow> 'z fsst_scheme \<Rightarrow> ('z fsst_scheme, (nat \<times> nat) option) outcome" where
  "dirlookup_loop dp name [] s = Done None s"
| "dirlookup_loop dp name (off # offs) s =
     bind (read_dirent dp off ''dirlookup read'' s) (\<lambda>de s.
     if get16 de 0 \<noteq> 0 \<and> namecmp_eq name (drop 2 de) then
       bind (iget (i_dev (icache s ! dp)) (ucast (get16 de 0)) s) (\<lambda>ip s. Done (Some (ip, off)) s)
     else dirlookup_loop dp name offs s)"

text \<open>The inode of the entry and the offset that the C code stores at \<^verbatim>\<open>poff\<close>.\<close>

definition dirlookup :: "nat \<Rightarrow> bytes \<Rightarrow> 'z fsst_scheme \<Rightarrow> ('z fsst_scheme, (nat \<times> nat) option) outcome" where
  "dirlookup dp name s =
     (if i_type (icache s ! dp) \<noteq> T_DIR then Panic ''dirlookup not DIR''
      else dirlookup_loop dp name (dirents (i_size (icache s ! dp))) s)"

fun dirlink_loop :: "nat \<Rightarrow> nat list \<Rightarrow> nat \<Rightarrow> 'z fsst_scheme \<Rightarrow> ('z fsst_scheme, nat) outcome" where
  "dirlink_loop dp [] end_off s = Done end_off s"
| "dirlink_loop dp (off # offs) end_off s =
     bind (read_dirent dp off ''dirlink read'' s) (\<lambda>de s.
     if get16 de 0 = 0 then Done off s else dirlink_loop dp offs end_off s)"

definition dirlink :: "nat \<Rightarrow> bytes \<Rightarrow> u32 \<Rightarrow> 'z fsst_scheme \<Rightarrow> ('z fsst_scheme, int) outcome" where
  "dirlink dp name inum s =
     bind (dirlookup dp name s) (\<lambda>r s.
     case r of
       Some (ip, _) \<Rightarrow> bind (iput ip s) (\<lambda>_ s. Done (- 1) s)
     | None \<Rightarrow>
         let sz = i_size (icache s ! dp) in
         bind (dirlink_loop dp (dirents sz) (16 * length (dirents sz)) s) (\<lambda>off s.
         bind (writei dp (KBYTES (bytes16 (ucast inum) @ strncpy_bytes name DIRSIZ)) (of_nat off) 16 s) (\<lambda>r s.
         if r \<noteq> 16 then Panic ''dirlink'' else Done 0 s)))"

section \<open>Paths\<close>

abbreviation (input) SLASH :: u8 where "SLASH \<equiv> 47"

definition skipelem :: "bytes \<Rightarrow> bytes \<Rightarrow> (bytes \<times> bytes) option" where
  "skipelem path name =
     (let path = dropWhile (\<lambda>c. c = SLASH) path in
      if path = [] then None
      else let elem = takeWhile (\<lambda>c. c \<noteq> SLASH) path;
               path = dropWhile (\<lambda>c. c \<noteq> SLASH) path;
               name = (if length elem \<ge> DIRSIZ then blit name 0 (take DIRSIZ elem) else blit name 0 (elem @ [0]))
           in Some (dropWhile (\<lambda>c. c = SLASH) path, name))"

lemma skipelem_shorter: "skipelem path name = Some (path', name') \<Longrightarrow> length path' < length path"
proof -
  assume a: "skipelem path name = Some (path', name')"
  let ?p = "dropWhile (\<lambda>c. c = SLASH) path"
  from a have ne: "?p \<noteq> []" and p': "path' = dropWhile (\<lambda>c. c = SLASH) (dropWhile (\<lambda>c. c \<noteq> SLASH) ?p)"
    by (auto simp: skipelem_def Let_def split: if_splits)
  from ne have "hd ?p \<noteq> SLASH" by (rule hd_dropWhile)
  with ne have "length (dropWhile (\<lambda>c. c \<noteq> SLASH) ?p) < length ?p"
    by (cases ?p) (auto intro: le_imp_less_Suc length_dropWhile_le)
  moreover have "length path' \<le> length (dropWhile (\<lambda>c. c \<noteq> SLASH) ?p)"
    unfolding p' by (rule length_dropWhile_le)
  moreover have "length ?p \<le> length path" by (rule length_dropWhile_le)
  ultimately show ?thesis by linarith
qed

function namex_loop :: "nat \<Rightarrow> bool \<Rightarrow> bytes \<Rightarrow> bytes \<Rightarrow> 'z fsst_scheme \<Rightarrow> ('z fsst_scheme, (nat \<times> bytes) option) outcome" where
  "namex_loop ip parent path name s =
     (case skipelem path name of
        None \<Rightarrow> if parent then bind (iput ip s) (\<lambda>_ s. Done None s) else Done (Some (ip, name)) s
      | Some (path', name') \<Rightarrow>
          bind (ilock ip s) (\<lambda>_ s.
          if i_type (icache s ! ip) \<noteq> T_DIR then bind (iunlockput ip s) (\<lambda>_ s. Done None s)
          else if parent \<and> path' = [] then bind (iunlock ip s) (\<lambda>_ s. Done (Some (ip, name')) s)
          else bind (dirlookup ip name' s) (\<lambda>r s.
            bind (iunlockput ip s) (\<lambda>_ s.
            case r of None \<Rightarrow> Done None s
            | Some (next, _) \<Rightarrow> namex_loop next parent path' name' s))))"
  by pat_completeness auto
termination
  by (relation "measure (\<lambda>(ip, parent, path, name, s). length path)") (auto dest: skipelem_shorter)

definition namex :: "bytes \<Rightarrow> bool \<Rightarrow> 'z fsst_scheme \<Rightarrow> ('z fsst_scheme, (nat \<times> bytes) option) outcome" where
  "namex path parent s =
     bind (if path \<noteq> [] \<and> hd path = SLASH then iget ROOTDEV ROOTINO s
           else case curproc s of None \<Rightarrow> Fault 104
             | Some p \<Rightarrow> (case p_cwd (ptable s ! p) of None \<Rightarrow> Fault 8 | Some c \<Rightarrow> idup c s)) (\<lambda>ip s.
     namex_loop ip parent path (replicate DIRSIZ 0) s)"

definition namei :: "bytes \<Rightarrow> 'z fsst_scheme \<Rightarrow> ('z fsst_scheme, nat option) outcome" where
  "namei path s = bind (namex path False s) (\<lambda>r s. Done (map_option fst r) s)"

definition nameiparent :: "bytes \<Rightarrow> 'z fsst_scheme \<Rightarrow> ('z fsst_scheme, (nat \<times> bytes) option) outcome" where
  "nameiparent path s = namex path True s"

section \<open>loaduvm\<close>

fun loaduvm_loop :: "nat list \<Rightarrow> u32 \<Rightarrow> u32 \<Rightarrow> nat \<Rightarrow> u32 \<Rightarrow> u32 \<Rightarrow> 'z fsst_scheme \<Rightarrow> ('z fsst_scheme, int) outcome" where
  "loaduvm_loop [] pgdir addr ip offset sz s = Done 0 s"
| "loaduvm_loop (k # ks) pgdir addr ip offset sz s =
     (let i = of_nat k in
      bind (walkpgdir pgdir (addr + i) False s) (\<lambda>pte s.
      if pte = 0 then Panic ''loaduvm: address should exist''
      else let pa = PTE_ADDR (load32 (mem s) pte);
               n = (if sz - i < PGSIZE then sz - i else PGSIZE)
           in bind (readi ip (Some (P2V pa)) (offset + i) n s) (\<lambda>r s.
              if map_option length r = Some (unat n) then loaduvm_loop ks pgdir addr ip offset sz s
              else Done (- 1) s)))"

definition loaduvm :: "u32 \<Rightarrow> u32 \<Rightarrow> nat \<Rightarrow> u32 \<Rightarrow> u32 \<Rightarrow> 'z fsst_scheme \<Rightarrow> ('z fsst_scheme, int) outcome" where
  "loaduvm pgdir addr ip offset sz s =
     (if addr mod PGSIZE \<noteq> 0 then Panic ''loaduvm: addr must be page aligned''
      else loaduvm_loop (map (\<lambda>i. 4096 * i) [0..<(unat sz + 4095) div 4096]) pgdir addr ip offset sz s)"

end
