(* ===== verification/File.thy ===== *)
theory File
  imports Fs
begin

text \<open>
  Open files (\<^verbatim>\<open>file.c\<close>) and pipes (\<^verbatim>\<open>pipe.c\<close>). A file pointer is an index into \<open>ftable\<close>.
  A pipe is named by the address of the page that holds it; \<open>pipes\<close> gives the contents of the
  structure there, apart from its lock, which is \<open>PIPELOCK\<close> of the address.
\<close>

abbreviation (input) NFILE :: nat where "NFILE \<equiv> 100"
abbreviation (input) PIPESIZE :: nat where "PIPESIZE \<equiv> 512"

datatype ftype = FD_NONE | FD_PIPE | FD_INODE

record file_t =
  f_type :: ftype
  f_ref :: int
  f_readable :: bool
  f_writable :: bool
  f_pipe :: u32
  f_ip :: nat
  f_off :: u32

record pipe =
  pdata :: bytes
  nread :: u32
  nwrite :: u32
  readopen :: bool
  writeopen :: bool

record filest = fsst +
  ftable :: "file_t list"
  pipes :: "u32 \<Rightarrow> pipe"

definition set_file :: "nat \<Rightarrow> (file_t \<Rightarrow> file_t) \<Rightarrow> 'z filest_scheme \<Rightarrow> 'z filest_scheme" where
  "set_file f g s = s\<lparr>ftable := (ftable s)[f := g (ftable s ! f)]\<rparr>"

definition set_pipe :: "u32 \<Rightarrow> (pipe \<Rightarrow> pipe) \<Rightarrow> 'z filest_scheme \<Rightarrow> 'z filest_scheme" where
  "set_pipe p g s = s\<lparr>pipes := (pipes s)(p := g (pipes s p))\<rparr>"

section \<open>pipe.c\<close>

definition pipeclose :: "u32 \<Rightarrow> bool \<Rightarrow> 'z filest_scheme \<Rightarrow> ('z filest_scheme, unit) outcome" where
  "pipeclose p writable s =
     bind (lock (PIPELOCK p) s) (\<lambda>_ s.
     bind (if writable then wakeup (PIPE_NREAD p) (set_pipe p (\<lambda>q. q\<lparr>writeopen := False\<rparr>) s)
           else wakeup (PIPE_NWRITE p) (set_pipe p (\<lambda>q. q\<lparr>readopen := False\<rparr>) s)) (\<lambda>_ s.
     if \<not> readopen (pipes s p) \<and> \<not> writeopen (pipes s p)
     then bind (unlock (PIPELOCK p) s) (\<lambda>_ s. kfree p s)
     else unlock (PIPELOCK p) s))"

definition killed :: "'z procst_scheme \<Rightarrow> ('z procst_scheme, bool) outcome" where
  "killed s = (case curproc s of None \<Rightarrow> Fault 36 | Some c \<Rightarrow> Done (p_killed (ptable s ! c)) s)"

definition pipe_put :: "u8 \<Rightarrow> pipe \<Rightarrow> pipe" where
  "pipe_put c q = q\<lparr>pdata := (pdata q)[unat (nwrite q) mod PIPESIZE := c], nwrite := nwrite q + 1\<rparr>"

definition pipe_get :: "pipe \<Rightarrow> u8 \<times> pipe" where
  "pipe_get q = (getb (pdata q) (unat (nread q) mod PIPESIZE), q\<lparr>nread := nread q + 1\<rparr>)"

text \<open>
  One round stores a byte. On a full pipe the writer wakes the readers and sleeps, which leaves
  the function at \<open>Swtch\<close>; \<open>False\<close> is the return of -1.
\<close>

fun pipewrite_loop :: "u32 \<Rightarrow> src \<Rightarrow> nat list \<Rightarrow> 'z filest_scheme \<Rightarrow> ('z filest_scheme, bool) outcome" where
  "pipewrite_loop p src [] s = Done True s"
| "pipewrite_loop p src (i # is) s =
     (if nwrite (pipes s p) = nread (pipes s p) + of_nat PIPESIZE then
        bind (if \<not> readopen (pipes s p) then Done True s else killed s) (\<lambda>dead s.
        if dead then Done False s
        else bind (wakeup (PIPE_NREAD p) s) (\<lambda>_ s.
          bind (sleep (PIPE_NWRITE p) (PIPELOCK p) s) (\<lambda>_ s. Done False s)))
      else bind (fetch src i 1 s) (\<lambda>bs s.
        pipewrite_loop p src is (set_pipe p (pipe_put (getb bs 0)) s)))"

definition pipewrite :: "u32 \<Rightarrow> src \<Rightarrow> int \<Rightarrow> 'z filest_scheme \<Rightarrow> ('z filest_scheme, int) outcome" where
  "pipewrite p src n s =
     bind (lock (PIPELOCK p) s) (\<lambda>_ s.
     bind (pipewrite_loop p src [0..<nat n] s) (\<lambda>r s.
     if \<not> r then bind (unlock (PIPELOCK p) s) (\<lambda>_ s. Done (- 1) s)
     else bind (wakeup (PIPE_NREAD p) s) (\<lambda>_ s.
       bind (unlock (PIPELOCK p) s) (\<lambda>_ s. Done n s))))"

fun piperead_loop :: "u32 \<Rightarrow> u32 option \<Rightarrow> nat \<Rightarrow> 'z filest_scheme \<Rightarrow> ('z filest_scheme, bytes) outcome" where
  "piperead_loop p dst n s =
     (if n = 0 \<or> nread (pipes s p) = nwrite (pipes s p) then Done [] s
      else let c = fst (pipe_get (pipes s p)) in
        bind (emit dst [c] (set_pipe p (\<lambda>q. snd (pipe_get q)) s)) (\<lambda>_ s.
        bind (piperead_loop p (map_option (\<lambda>a. a + 1) dst) (n - 1) s) (\<lambda>cs s. Done (c # cs) s)))"

declare piperead_loop.simps [simp del]

text \<open>The bytes read, or \<open>None\<close> for the return of -1.\<close>

definition piperead :: "u32 \<Rightarrow> u32 option \<Rightarrow> int \<Rightarrow> 'z filest_scheme \<Rightarrow> ('z filest_scheme, bytes option) outcome" where
  "piperead p dst n s =
     bind (lock (PIPELOCK p) s) (\<lambda>_ s.
     if nread (pipes s p) = nwrite (pipes s p) \<and> writeopen (pipes s p) then
       bind (killed s) (\<lambda>dead s.
       if dead then bind (unlock (PIPELOCK p) s) (\<lambda>_ s. Done None s)
       else bind (sleep (PIPE_NREAD p) (PIPELOCK p) s) (\<lambda>_ s. Done None s))
     else bind (piperead_loop p dst (nat n) s) (\<lambda>bs s.
       bind (wakeup (PIPE_NWRITE p) s) (\<lambda>_ s.
       bind (unlock (PIPELOCK p) s) (\<lambda>_ s. Done (Some bs) s))))"

section \<open>file.c\<close>

fun find_file :: "nat \<Rightarrow> file_t list \<Rightarrow> nat option" where
  "find_file i [] = None"
| "find_file i (f # fs) = (if f_ref f = 0 then Some i else find_file (Suc i) fs)"

definition filealloc :: "'z filest_scheme \<Rightarrow> ('z filest_scheme, nat option) outcome" where
  "filealloc s =
     bind (lock FTABLE s) (\<lambda>_ s.
     case find_file 0 (ftable s) of
       Some f \<Rightarrow> bind (unlock FTABLE (set_file f (\<lambda>q. q\<lparr>f_ref := 1\<rparr>) s)) (\<lambda>_ s. Done (Some f) s)
     | None \<Rightarrow> bind (unlock FTABLE s) (\<lambda>_ s. Done None s))"

definition filedup :: "nat \<Rightarrow> 'z filest_scheme \<Rightarrow> ('z filest_scheme, nat) outcome" where
  "filedup f s =
     bind (lock FTABLE s) (\<lambda>_ s.
     if f_ref (ftable s ! f) < 1 then Panic ''filedup''
     else bind (unlock FTABLE (set_file f (\<lambda>q. q\<lparr>f_ref := f_ref q + 1\<rparr>) s)) (\<lambda>_ s. Done f s))"

definition fileclose :: "nat \<Rightarrow> 'z filest_scheme \<Rightarrow> ('z filest_scheme, unit) outcome" where
  "fileclose f s =
     bind (lock FTABLE s) (\<lambda>_ s.
     if f_ref (ftable s ! f) < 1 then Panic ''fileclose''
     else let s = set_file f (\<lambda>q. q\<lparr>f_ref := f_ref q - 1\<rparr>) s in
       if f_ref (ftable s ! f) > 0 then unlock FTABLE s
       else let ff = ftable s ! f;
                s = set_file f (\<lambda>q. q\<lparr>f_ref := 0, f_type := FD_NONE\<rparr>) s
            in bind (unlock FTABLE s) (\<lambda>_ s.
               case f_type ff of
                 FD_PIPE \<Rightarrow> pipeclose (f_pipe ff) (f_writable ff) s
               | FD_INODE \<Rightarrow> bind (begin_op s) (\<lambda>_ s. bind (iput (f_ip ff) s) (\<lambda>_ s. end_op s))
               | FD_NONE \<Rightarrow> Done () s))"

text \<open>\<^verbatim>\<open>stati\<close> stores field by field, here at the offsets of \<^verbatim>\<open>struct stat\<close>.\<close>

definition put_stat :: "u32 \<Rightarrow> stat_buf \<Rightarrow> 'z vmst_scheme \<Rightarrow> ('z vmst_scheme, unit) outcome" where
  "put_stat a st s =
     bind (kwrite32 (a + 4) (st_dev st) s) (\<lambda>_ s.
     bind (kwrite32 (a + 8) (st_ino st) s) (\<lambda>_ s.
     bind (kwrite_bytes a (bytes16 (st_type st)) s) (\<lambda>_ s.
     bind (kwrite_bytes (a + 12) (bytes16 (st_nlink st)) s) (\<lambda>_ s.
     kwrite32 (a + 16) (st_size st) s))))"

definition filestat :: "nat \<Rightarrow> u32 \<Rightarrow> 'z filest_scheme \<Rightarrow> ('z filest_scheme, int) outcome" where
  "filestat f st s =
     (if f_type (ftable s ! f) = FD_INODE then
        let ip = f_ip (ftable s ! f) in
        bind (ilock ip s) (\<lambda>_ s.
        bind (put_stat st (stati ip s) s) (\<lambda>_ s.
        bind (iunlock ip s) (\<lambda>_ s. Done 0 s)))
      else Done (- 1) s)"

definition result :: "bytes option \<Rightarrow> int" where
  "result r = (case r of None \<Rightarrow> - 1 | Some bs \<Rightarrow> int (length bs))"

definition fileread :: "nat \<Rightarrow> u32 \<Rightarrow> int \<Rightarrow> 'z filest_scheme \<Rightarrow> ('z filest_scheme, int) outcome" where
  "fileread f addr n s =
     (let ff = ftable s ! f in
      if \<not> f_readable ff then Done (- 1) s
      else case f_type ff of
        FD_PIPE \<Rightarrow> bind (piperead (f_pipe ff) (Some addr) n s) (\<lambda>r s. Done (result r) s)
      | FD_INODE \<Rightarrow>
          bind (ilock (f_ip ff) s) (\<lambda>_ s.
          bind (readi (f_ip ff) (Some addr) (f_off (ftable s ! f)) (of_int n) s) (\<lambda>r s.
          let s = (if result r > 0 then set_file f (\<lambda>q. q\<lparr>f_off := f_off q + of_int (result r)\<rparr>) s else s) in
          bind (iunlock (f_ip ff) s) (\<lambda>_ s. Done (result r) s)))
      | FD_NONE \<Rightarrow> Panic ''fileread'')"

abbreviation (input) WRITE_MAX :: nat where "WRITE_MAX \<equiv> ((10 - 1 - 1 - 2) div 2) * 512"

text \<open>\<open>i\<close> bytes are written, \<open>n\<close> are left; the result is \<^verbatim>\<open>i == n\<close> of the C code.\<close>

function filewrite_loop :: "nat \<Rightarrow> u32 \<Rightarrow> nat \<Rightarrow> nat \<Rightarrow> 'z filest_scheme \<Rightarrow> ('z filest_scheme, bool) outcome" where
  "filewrite_loop f addr i n s =
     (if n = 0 then Done True s
      else let n1 = min n WRITE_MAX in
        bind (begin_op s) (\<lambda>_ s.
        let ip = f_ip (ftable s ! f) in
        bind (ilock ip s) (\<lambda>_ s.
        bind (writei ip (ADDR (addr + of_nat i)) (f_off (ftable s ! f)) (of_nat n1) s) (\<lambda>r s.
        let s = (if r > 0 then set_file f (\<lambda>q. q\<lparr>f_off := f_off q + of_int r\<rparr>) s else s) in
        bind (iunlock ip s) (\<lambda>_ s.
        bind (end_op s) (\<lambda>_ s.
        if r < 0 then Done False s
        else if r \<noteq> int n1 then Panic ''short filewrite''
        else filewrite_loop f addr (i + min n WRITE_MAX) (n - min n WRITE_MAX) s))))))"
  by pat_completeness auto
termination
  by (relation "measure (\<lambda>(f, addr, i, n, s). n)") auto

declare filewrite_loop.simps [simp del]

definition filewrite :: "nat \<Rightarrow> u32 \<Rightarrow> int \<Rightarrow> 'z filest_scheme \<Rightarrow> ('z filest_scheme, int) outcome" where
  "filewrite f addr n s =
     (let ff = ftable s ! f in
      if \<not> f_writable ff then Done (- 1) s
      else case f_type ff of
        FD_PIPE \<Rightarrow> pipewrite (f_pipe ff) (ADDR addr) n s
      | FD_INODE \<Rightarrow>
          if n < 0 then Done (- 1) s
          else bind (filewrite_loop f addr 0 (nat n) s) (\<lambda>ok s. Done (if ok then n else - 1) s)
      | FD_NONE \<Rightarrow> Panic ''filewrite'')"

section \<open>pipealloc\<close>

text \<open>The array of a new pipe holds what the page held, from offset 52, the size of the lock.\<close>

definition pipe_bad :: "nat option \<Rightarrow> nat option \<Rightarrow> 'z filest_scheme \<Rightarrow> ('z filest_scheme, (nat \<times> nat) option) outcome" where
  "pipe_bad f0 f1 s =
     bind (case f0 of None \<Rightarrow> Done () s | Some f \<Rightarrow> fileclose f s) (\<lambda>_ s.
     bind (case f1 of None \<Rightarrow> Done () s | Some f \<Rightarrow> fileclose f s) (\<lambda>_ s. Done None s))"

definition pipealloc :: "'z filest_scheme \<Rightarrow> ('z filest_scheme, (nat \<times> nat) option) outcome" where
  "pipealloc s =
     bind (filealloc s) (\<lambda>f0 s.
     case f0 of None \<Rightarrow> pipe_bad None None s
     | Some r \<Rightarrow>
       bind (filealloc s) (\<lambda>f1 s.
       case f1 of None \<Rightarrow> pipe_bad (Some r) None s
       | Some w \<Rightarrow>
         bind (kalloc s) (\<lambda>p s.
         if p = 0 then pipe_bad (Some r) (Some w) s
         else let s = set_pipe p (\<lambda>q. q\<lparr>pdata := map (\<lambda>i. mem s (p + 52 + of_nat i)) [0..<PIPESIZE],
                    readopen := True, writeopen := True, nwrite := 0, nread := 0\<rparr>) s;
                  s = set_file r (\<lambda>q. q\<lparr>f_type := FD_PIPE, f_readable := True, f_writable := False, f_pipe := p\<rparr>) s;
                  s = set_file w (\<lambda>q. q\<lparr>f_type := FD_PIPE, f_readable := False, f_writable := True, f_pipe := p\<rparr>) s
              in Done (Some (r, w)) s)))"

end
