(* ===== verification/Kbd.thy ===== *)
theory Kbd
  imports Prelude
begin

text \<open>
  The keyboard driver, \<^verbatim>\<open>kbd.c\<close> with the tables of \<^verbatim>\<open>kbd.h\<close>. \<open>kbdgetc\<close> is given what the
  status port says and the scan code at the data port, and the static variable \<^verbatim>\<open>shift\<close>, and
  returns its result and the new \<^verbatim>\<open>shift\<close>.
\<close>

abbreviation (input) SHIFT :: u32 where "SHIFT \<equiv> 1"
abbreviation (input) CTL :: u32 where "CTL \<equiv> 2"
abbreviation (input) ALT :: u32 where "ALT \<equiv> 4"
abbreviation (input) CAPSLOCK :: u32 where "CAPSLOCK \<equiv> 8"
abbreviation (input) NUMLOCK :: u32 where "NUMLOCK \<equiv> 16"
abbreviation (input) SCROLLLOCK :: u32 where "SCROLLLOCK \<equiv> 32"
abbreviation (input) E0ESC :: u32 where "E0ESC \<equiv> 64"

definition shiftcode :: "nat \<Rightarrow> u32" where
  "shiftcode i = (if i = 0x1D then CTL else if i = 0x2A then SHIFT else if i = 0x36 then SHIFT
     else if i = 0x38 then ALT else if i = 0x9D then CTL else if i = 0xB8 then ALT else 0)"

definition togglecode :: "nat \<Rightarrow> u32" where
  "togglecode i = (if i = 0x3A then CAPSLOCK else if i = 0x45 then NUMLOCK
     else if i = 0x46 then SCROLLLOCK else 0)"

text \<open>A table with the given first entries and designated entries; the others are \<^verbatim>\<open>NO\<close>.\<close>

definition keymap :: "u8 list \<Rightarrow> (nat \<times> u8) list \<Rightarrow> nat \<Rightarrow> u8" where
  "keymap base more i = (case map_of more i of Some c \<Rightarrow> c | None \<Rightarrow> if i < length base then base ! i else 0)"

definition special_keys :: "(nat \<times> u8) list" where
  "special_keys = [(0xC8, 0xE2), (0xD0, 0xE3), (0xC9, 0xE6), (0xD1, 0xE7), (0xCB, 0xE4), (0xCD, 0xE5),
     (0x97, 0xE0), (0xCF, 0xE1), (0xD2, 0xE8), (0xD3, 0xE9)]"

definition normalmap :: "nat \<Rightarrow> u8" where
  "normalmap = keymap
     [0, 27, 49, 50, 51, 52, 53, 54, 55, 56, 57, 48, 45, 61, 8, 9,
      113, 119, 101, 114, 116, 121, 117, 105, 111, 112, 91, 93, 10, 0, 97, 115,
      100, 102, 103, 104, 106, 107, 108, 59, 39, 96, 0, 92, 122, 120, 99, 118,
      98, 110, 109, 44, 46, 47, 0, 42, 0, 32, 0, 0, 0, 0, 0, 0,
      0, 0, 0, 0, 0, 0, 0, 55, 56, 57, 45, 52, 53, 54, 43, 49,
      50, 51, 48, 46, 0, 0, 0, 0]
     ((0x9C, 10) # (0xB5, 47) # special_keys)"

definition shiftmap :: "nat \<Rightarrow> u8" where
  "shiftmap = keymap
     [0, 27, 33, 64, 35, 36, 37, 94, 38, 42, 40, 41, 95, 43, 8, 9,
      81, 87, 69, 82, 84, 89, 85, 73, 79, 80, 123, 125, 10, 0, 65, 83,
      68, 70, 71, 72, 74, 75, 76, 58, 34, 126, 0, 124, 90, 88, 67, 86,
      66, 78, 77, 60, 62, 63, 0, 42, 0, 32, 0, 0, 0, 0, 0, 0,
      0, 0, 0, 0, 0, 0, 0, 55, 56, 57, 45, 52, 53, 54, 43, 49,
      50, 51, 48, 46, 0, 0, 0, 0]
     ((0x9C, 10) # (0xB5, 47) # special_keys)"

definition ctlmap :: "nat \<Rightarrow> u8" where
  "ctlmap = keymap
     [0, 0, 0, 0, 0, 0, 0, 0, 0, 0, 0, 0, 0, 0, 0, 0,
      17, 23, 5, 18, 20, 25, 21, 9, 15, 16, 0, 0, 13, 0, 1, 19,
      4, 6, 7, 8, 10, 11, 12, 0, 0, 0, 0, 28, 26, 24, 3, 22,
      2, 14, 13, 0, 0, 239, 0, 0]
     ((0x9C, 13) # (0xB5, 239) # special_keys)"

definition charcode :: "u32 \<Rightarrow> nat \<Rightarrow> u8" where
  "charcode k = (if k = 0 then normalmap else if k = SHIFT then shiftmap else ctlmap)"

definition kbdgetc :: "u8 option \<Rightarrow> u32 \<Rightarrow> int \<times> u32" where
  "kbdgetc port shift =
     (case port of None \<Rightarrow> (- 1, shift)
      | Some d \<Rightarrow>
        let data = (ucast d :: u32) in
        if data = 0xE0 then (0, shift OR E0ESC)
        else if data AND 0x80 \<noteq> 0 then
          let data = (if shift AND E0ESC \<noteq> 0 then data else data AND 0x7F)
          in (0, shift AND NOT (shiftcode (unat data) OR E0ESC))
        else let esc = (shift AND E0ESC \<noteq> 0);
                 data = (if esc then data OR 0x80 else data);
                 shift = (if esc then shift AND NOT E0ESC else shift);
                 shift = shift OR shiftcode (unat data);
                 shift = shift XOR togglecode (unat data);
                 c = charcode (shift AND (CTL OR SHIFT)) (unat data);
                 c = (if shift AND CAPSLOCK \<noteq> 0 then
                        if 97 \<le> c \<and> c \<le> 122 then c - 32
                        else if 65 \<le> c \<and> c \<le> 90 then c + 32
                        else c
                      else c)
             in (uint c, shift))"

text \<open>
  The calls of \<open>kbdgetc\<close> that \<^verbatim>\<open>consoleintr\<close> makes for the scan codes that wait at the controller,
  until it returns -1.
\<close>

fun kbd_chars :: "u8 list \<Rightarrow> u32 \<Rightarrow> int list \<times> u32" where
  "kbd_chars [] shift = ([], snd (kbdgetc None shift))"
| "kbd_chars (d # ds) shift =
     (let (c, shift) = kbdgetc (Some d) shift; (cs, shift) = kbd_chars ds shift in (c # cs, shift))"

section \<open>Letters\<close>

text \<open>The scan codes of the keys Q to P, A to L and Z to M.\<close>

definition letter_keys :: "u8 list" where
  "letter_keys = [0x10, 0x11, 0x12, 0x13, 0x14, 0x15, 0x16, 0x17, 0x18, 0x19,
     0x1E, 0x1F, 0x20, 0x21, 0x22, 0x23, 0x24, 0x25, 0x26, 0x2C, 0x2D, 0x2E, 0x2F, 0x30, 0x31, 0x32]"

definition capital :: "u32 \<Rightarrow> bool" where
  "capital shift \<longleftrightarrow> (shift AND SHIFT \<noteq> 0) \<noteq> (shift AND CAPSLOCK \<noteq> 0)"

lemma letter_range:
  assumes "97 \<le> (c :: u8)" and "c \<le> 122"
  shows "\<not> 97 \<le> c - 32" "65 \<le> c - 32" "c - 32 \<le> 90" "\<not> 97 \<le> c - 96" "\<not> 65 \<le> c - 96"
proof -
  have c: "97 \<le> unat c" "unat c \<le> 122" using assms by (simp_all add: word_le_nat_alt)
  have "unat (c - 32) = unat c - 32" "unat (c - 96) = unat c - 96"
    using c by (auto simp: word_le_nat_alt intro!: unat_sub [THEN trans])
  with c show "\<not> 97 \<le> c - 32" "65 \<le> c - 32" "c - 32 \<le> 90" "\<not> 97 \<le> c - 96" "\<not> 65 \<le> c - 96"
    by (simp_all add: word_le_nat_alt)
qed

lemma letter_tables:
  assumes "d \<in> set letter_keys"
  shows "97 \<le> normalmap (unat d) \<and> normalmap (unat d) \<le> 122 \<and> shiftmap (unat d) = normalmap (unat d) - 32 \<and>
    ctlmap (unat d) = normalmap (unat d) - 96 \<and> shiftcode (unat d) = 0 \<and> togglecode (unat d) = 0"
proof -
  have "list_all (\<lambda>i. 97 \<le> normalmap i \<and> normalmap i \<le> 122 \<and> shiftmap i = normalmap i - 32 \<and>
      ctlmap i = normalmap i - 96 \<and> shiftcode i = 0 \<and> togglecode i = 0) (map unat letter_keys)"
    by code_simp
  then show ?thesis using assms by (simp add: list_all_iff)
qed

lemma letter_codes:
  assumes "d \<in> set letter_keys"
  shows "ucast d \<noteq> (0xE0 :: u32) \<and> (ucast d AND 0x80 :: u32) = 0 \<and> unat (ucast d :: u32) = unat d \<and>
    (ucast (d OR 0x80) AND 0x80 :: u32) \<noteq> 0 \<and> ucast (d OR 0x80) \<noteq> (0xE0 :: u32) \<and>
    (ucast (d OR 0x80) AND 0x7F :: u32) = ucast d"
  using assms unfolding letter_keys_def by auto



end
