(* ===== verification/Process.thy ===== *)
theory Process
  imports File Kbd
begin

text \<open>
  The part of \<^verbatim>\<open>proc.c\<close> that works with files and the file system: the first process, \<^verbatim>\<open>fork\<close>,
  \<^verbatim>\<open>exit\<close>, \<^verbatim>\<open>wait\<close> and \<^verbatim>\<open>forkret\<close>. The record completes the kernel's state: the clock, the
  input that waits at the keyboard controller and the serial port, the interrupt table and
  the faulting address in \<^verbatim>\<open>cr2\<close>.
\<close>

record kernst = filest +
  first :: bool
  ticks :: u32
  kbd_shift :: u32
  kbd_in :: bytes
  uart_in :: bytes
  idt :: "gatedesc list"
  vectors :: "nat \<Rightarrow> u32"
  cr2 :: u32
  cpuid :: nat

definition tf32 :: "u32 \<Rightarrow> u32 \<Rightarrow> nat \<Rightarrow> 'z procst_scheme \<Rightarrow> 'z procst_scheme" where
  "tf32 off v p s = s\<lparr>mem := store32 (mem s) (p_tf (ptable s ! p) + off) v\<rparr>"

abbreviation (input) USER_CS :: u32 where "USER_CS \<equiv> push_bit 3 3 OR 3"
abbreviation (input) USER_DS :: u32 where "USER_DS \<equiv> push_bit 3 4 OR 3"

definition userinit :: "bytes \<Rightarrow> 'z kernst_scheme \<Rightarrow> ('z kernst_scheme, unit) outcome" where
  "userinit initcode s =
     bind (allocproc s) (\<lambda>r s.
     case r of None \<Rightarrow> Fault 4
     | Some p \<Rightarrow>
       let s = s\<lparr>initproc := Some p\<rparr> in
       bind (setupkvm s) (\<lambda>d s.
       let s = set_proc p (\<lambda>q. q\<lparr>p_pgdir := d\<rparr>) s in
       if d = 0 then Panic ''userinit: out of memory?''
       else bind (inituvm d initcode s) (\<lambda>_ s.
         let s = set_proc p (\<lambda>q. q\<lparr>p_sz := PGSIZE\<rparr>) s;
             s = s\<lparr>mem := memset (mem s) (p_tf (ptable s ! p)) 0 TF_SIZE\<rparr>;
             s = tf32 TF_CS USER_CS p s;
             s = tf32 TF_DS USER_DS p s;
             s = tf32 TF_ES USER_DS p s;
             s = tf32 TF_SS USER_DS p s;
             s = tf32 TF_EFLAGS 0x200 p s;
             s = tf32 TF_ESP PGSIZE p s;
             s = tf32 TF_EIP 0 p s;
             s = set_proc p (\<lambda>q. q\<lparr>p_name := safestrcpy_bytes (p_name q) (map (of_nat \<circ> of_char) ''initcode'') 16\<rparr>) s
         in bind (namei [SLASH] s) (\<lambda>ip s.
            let s = set_proc p (\<lambda>q. q\<lparr>p_cwd := ip\<rparr>) s in
            bind (lock PTABLE s) (\<lambda>_ s.
            unlock PTABLE (set_proc p (\<lambda>q. q\<lparr>p_state := RUNNABLE\<rparr>) s))))))"

fun fork_files :: "nat list \<Rightarrow> nat \<Rightarrow> nat \<Rightarrow> 'z filest_scheme \<Rightarrow> ('z filest_scheme, unit) outcome" where
  "fork_files [] c p s = Done () s"
| "fork_files (i # is) c p s =
     (case p_ofile (ptable s ! c) ! i of
        None \<Rightarrow> fork_files is c p s
      | Some f \<Rightarrow> bind (filedup f s) (\<lambda>f s.
          fork_files is c p (set_proc p (\<lambda>q. q\<lparr>p_ofile := (p_ofile q)[i := Some f]\<rparr>) s)))"

definition fork :: "'z filest_scheme \<Rightarrow> ('z filest_scheme, int) outcome" where
  "fork s =
     (case curproc s of None \<Rightarrow> Fault 4
      | Some c \<Rightarrow>
        bind (allocproc s) (\<lambda>r s.
        case r of None \<Rightarrow> Done (- 1) s
        | Some p \<Rightarrow>
          bind (copyuvm (p_pgdir (ptable s ! c)) (p_sz (ptable s ! c)) s) (\<lambda>d s.
          let s = set_proc p (\<lambda>q. q\<lparr>p_pgdir := d\<rparr>) s in
          if d = 0 then
            bind (kfree (p_kstack (ptable s ! p)) s) (\<lambda>_ s.
            Done (- 1) (set_proc p (\<lambda>q. q\<lparr>p_kstack := 0, p_state := UNUSED\<rparr>) s))
          else
            let cq = ptable s ! c;
                s = set_proc p (\<lambda>q. q\<lparr>p_run_ticks := 0, p_priority := p_priority cq, p_sz := p_sz cq, p_parent := Some c\<rparr>) s;
                s = s\<lparr>mem := memmove (mem s) (p_tf (ptable s ! p)) (p_tf cq) TF_SIZE\<rparr>;
                s = tf32 TF_EAX 0 p s
            in bind (fork_files [0..<NOFILE] c p s) (\<lambda>_ s.
               case p_cwd (ptable s ! c) of None \<Rightarrow> Fault 8
               | Some w \<Rightarrow>
                 bind (idup w s) (\<lambda>w s.
                 let s = set_proc p (\<lambda>q. q\<lparr>p_cwd := Some w\<rparr>) s;
                     s = set_proc p (\<lambda>q. q\<lparr>p_name := safestrcpy_bytes (p_name q) (p_name (ptable s ! c)) 16\<rparr>) s;
                     pid = p_pid (ptable s ! p)
                 in bind (lock PTABLE s) (\<lambda>_ s.
                    bind (unlock PTABLE (set_proc p (\<lambda>q. q\<lparr>p_state := RUNNABLE\<rparr>) s)) (\<lambda>_ s. Done pid s)))))))"

fun close_files :: "nat list \<Rightarrow> nat \<Rightarrow> 'z filest_scheme \<Rightarrow> ('z filest_scheme, unit) outcome" where
  "close_files [] c s = Done () s"
| "close_files (fd # fds) c s =
     (case p_ofile (ptable s ! c) ! fd of
        None \<Rightarrow> close_files fds c s
      | Some f \<Rightarrow> bind (fileclose f s) (\<lambda>_ s.
          close_files fds c (set_proc c (\<lambda>q. q\<lparr>p_ofile := (p_ofile q)[fd := None]\<rparr>) s)))"

definition wakeup1_proc :: "nat option \<Rightarrow> 'z procst_scheme \<Rightarrow> 'z procst_scheme" where
  "wakeup1_proc p s = (case p of None \<Rightarrow> s | Some i \<Rightarrow> wakeup1 (PROC i) s)"

fun reparent :: "nat list \<Rightarrow> nat \<Rightarrow> 'z procst_scheme \<Rightarrow> 'z procst_scheme" where
  "reparent [] c s = s"
| "reparent (i # is) c s =
     (if p_parent (ptable s ! i) = Some c then
        let s = set_proc i (\<lambda>q. q\<lparr>p_parent := initproc s\<rparr>) s
        in reparent is c (if p_state (ptable s ! i) = ZOMBIE then wakeup1_proc (initproc s) s else s)
      else reparent is c s)"

text \<open>The last part of \<^verbatim>\<open>exit\<close>, after the files are closed.\<close>

definition exit_proc :: "nat \<Rightarrow> 'z procst_scheme \<Rightarrow> ('z procst_scheme, unit) outcome" where
  "exit_proc c s =
     bind (lock PTABLE s) (\<lambda>_ s.
     let s = wakeup1_proc (p_parent (ptable s ! c)) s;
         s = reparent [0..<length (ptable s)] c s;
         s = set_proc c (\<lambda>q. q\<lparr>p_state := ZOMBIE\<rparr>) s
     in bind (sched s) (\<lambda>_ s. Panic ''zombie exit''))"

definition exit :: "'z filest_scheme \<Rightarrow> ('z filest_scheme, unit) outcome" where
  "exit s =
     (if curproc s = initproc s then Panic ''init exiting''
      else case curproc s of None \<Rightarrow> Fault 40
      | Some c \<Rightarrow>
        bind (close_files [0..<NOFILE] c s) (\<lambda>_ s.
          bind (begin_op s) (\<lambda>_ s.
          case p_cwd (ptable s ! c) of None \<Rightarrow> Fault 12
          | Some w \<Rightarrow>
            bind (iput w s) (\<lambda>_ s.
            bind (end_op s) (\<lambda>_ s.
            exit_proc c (set_proc c (\<lambda>q. q\<lparr>p_cwd := None\<rparr>) s))))))"

text \<open>The scan of \<^verbatim>\<open>wait\<close>: the first child that is a zombie, and whether there is a child before it.\<close>

fun wait_scan :: "nat \<Rightarrow> nat \<Rightarrow> proc list \<Rightarrow> bool \<Rightarrow> nat option \<times> bool" where
  "wait_scan c i [] kids = (None, kids)"
| "wait_scan c i (p # ps) kids =
     (if p_parent p \<noteq> Some c then wait_scan c (Suc i) ps kids
      else if p_state p = ZOMBIE then (Some i, True)
      else wait_scan c (Suc i) ps True)"

definition wait :: "'z procst_scheme \<Rightarrow> ('z procst_scheme, int) outcome" where
  "wait s =
     (case curproc s of None \<Rightarrow> Fault 0
      | Some c \<Rightarrow>
        bind (lock PTABLE s) (\<lambda>_ s.
        case wait_scan c 0 (ptable s) False of
          (Some i, _) \<Rightarrow>
            let pid = p_pid (ptable s ! i) in
            bind (kfree (p_kstack (ptable s ! i)) s) (\<lambda>_ s.
            let s = set_proc i (\<lambda>q. q\<lparr>p_kstack := 0\<rparr>) s in
            bind (freevm (p_pgdir (ptable s ! i)) s) (\<lambda>_ s.
            let s = set_proc i (\<lambda>q. q\<lparr>p_pid := 0, p_parent := None, p_name := (p_name q)[0 := 0],
                      p_killed := False, p_state := UNUSED\<rparr>) s
            in bind (unlock PTABLE s) (\<lambda>_ s. Done pid s)))
        | (None, kids) \<Rightarrow>
            if \<not> kids \<or> p_killed (ptable s ! c) then bind (unlock PTABLE s) (\<lambda>_ s. Done (- 1) s)
            else bind (sleep (PROC c) PTABLE s) (\<lambda>_ s. Diverge)))"

definition forkret_fn :: "'z kernst_scheme \<Rightarrow> ('z kernst_scheme, unit) outcome" where
  "forkret_fn s =
     bind (unlock PTABLE s) (\<lambda>_ s.
     if first s then bind (iinit ROOTDEV (s\<lparr>first := False\<rparr>)) (\<lambda>_ s. initlog ROOTDEV s) else Done () s)"

end
