(* ===== verification/Machine.thy ===== *)
theory Machine
  imports Process Sched
begin

text \<open>
  A concrete machine, at which the theorems about the kernel are instantiated: the static
  variables have the values the C compiler gives them, one process runs, and the disk is the given
  list of blocks.
\<close>

definition buf_zero :: buf where
  "buf_zero = \<lparr>b_flags = 0, b_dev = 0, b_blockno = 0, b_lock = \<lparr>sl_locked = False, sl_pid = 0\<rparr>, b_refcnt = 0,
     b_data = replicate 512 0\<rparr>"

definition inode_zero :: inode where
  "inode_zero = \<lparr>i_dev = 0, i_inum = 0, i_ref = 0, i_lock = \<lparr>sl_locked = False, sl_pid = 0\<rparr>, i_valid = False,
     i_type = 0, i_major = 0, i_minor = 0, i_nlink = 0, i_size = 0, i_addrs = replicate 13 0\<rparr>"

definition file_zero :: file_t where
  "file_zero = \<lparr>f_type = FD_NONE, f_ref = 0, f_readable = False, f_writable = False, f_pipe = 0, f_ip = 0, f_off = 0\<rparr>"

definition pipe_zero :: pipe where
  "pipe_zero = \<lparr>pdata = replicate 512 0, nread = 0, nwrite = 0, readopen = True, writeopen = True\<rparr>"

definition machine :: "bytes list \<Rightarrow> kernst" where
  "machine blocks = \<lparr>held = [], clog = [], mem = (\<lambda>_. 0), kend = 0x80115000, use_lock = True, freelist = 0x80201000,
     kpgdir = 0x80100000, cr3 = 0x100000, kdata = 0x80108000, gdt = replicate 6 (SEG 0 0 0 0),
     ts = \<lparr>ts_esp0 = 0, ts_ss0 = 0, ts_iomb = 0\<rparr>, tsaddr = 0x80112000, tr = 0,
     ptable = proc_run 1 1 RUNNING # replicate 63 proc_zero, nextpid = 2, initproc = None,
     curproc = Some 0, forkret = 0x80103000, trapret = 0x80106000,
     cons_locking = True, panicked = False, cgapos = 0, uart = False, uart_out = [],
     input_buf = replicate 128 0, input_r = 0, input_w = 0, input_e = 0, devsw_console = True,
     bufs = replicate 30 buf_zero, lru = rev [0..<30], disk = blocks, dwrites = [],
     log_start = 2, log_size = 30, outstanding = 0, committing = False, log_dev = 1, lh_n = 0, lh_block = replicate 30 0,
     icache = replicate 50 inode_zero, sb = sb_of (replicate 28 0),
     ftable = replicate 100 file_zero, pipes = (\<lambda>_. pipe_zero),
     first = False, ticks = 0, kbd_shift = 0, kbd_in = [], uart_in = [], idt = [], vectors = (\<lambda>_. 0), cr2 = 0, cpuid = 0\<rparr>"

end
