(* ===== verification/Ring.thy ===== *)
theory Ring
  imports Prelude
begin

text \<open>
  Ring buffers with free-running 32-bit counters, as the pipes and the console's input use them: the
  byte number \<open>w\<close> is at index \<open>w\<close> modulo the size of the array, and the counters wrap at \<open>2\<^sup>3\<^sup>2\<close>,
  which is harmless because the size divides it.
\<close>

definition ring :: "'a list \<Rightarrow> u32 \<Rightarrow> u32 \<Rightarrow> 'a list" where
  "ring d r w = map (\<lambda>i. d ! (unat (r + of_nat i) mod length d)) [0..<unat (w - r)]"

lemma length_ring [simp]: "length (ring d r w) = unat (w - r)"
  by (simp add: ring_def)

lemma ring_empty_iff: "ring d r w = [] \<longleftrightarrow> r = w"
  by (metis eq_iff_diff_eq_0 length_0_conv length_ring unat_eq_zero)

lemma ring_same [simp]: "ring d r r = []"
  by (simp add: ring_empty_iff)

lemma unat_add_mod_dvd: "n dvd 2 ^ 32 \<Longrightarrow> unat (a + b :: u32) mod n = (unat a + unat b) mod n"
  by (simp add: unat_word_ariths mod_mod_cancel)

lemma ring_slots_distinct:
  assumes "n dvd 2 ^ 32" and "0 < unat (x - y :: u32)" and "unat (x - y) < n"
  shows "unat x mod n \<noteq> unat y mod n"
proof
  assume e: "unat x mod n = unat y mod n"
  have "unat x mod n = (unat y + unat (x - y)) mod n"
    using unat_add_mod_dvd [OF assms(1), of y "x - y"] by simp
  with e have "n dvd unat (x - y)"
    by (metis add_diff_cancel_left' mod_eq_dvd_iff_nat le_add1)
  then show False using assms(2,3) by (auto dest: nat_dvd_not_less)
qed

lemma unat_Suc_u32:
  assumes "Suc (unat (x :: u32)) < 2 ^ 32"
  shows "unat (x + 1) = Suc (unat x)"
  using assms by (simp add: unat_word_ariths)

lemma unat_diff_u32:
  assumes "i \<le> unat (x :: u32)"
  shows "unat (x - of_nat i) = unat x - i"
proof -
  have "x - of_nat i = of_nat (unat x - i)"
    using assms by (simp add: of_nat_diff)
  then show ?thesis
    by (metis less_imp_diff_less of_nat_inverse unsigned_less)
qed

lemma ring_put:
  assumes "length d dvd 2 ^ 32" and "unat (w - r) < length d" and "length d < 2 ^ 32"
  shows "ring (d[unat w mod length d := c]) r (w + 1) = ring d r w @ [c]"
proof (rule nth_equalityI)
  have len: "unat (w + 1 - r) = Suc (unat (w - r))"
    using unat_Suc_u32 [of "w - r"] assms(2,3) by (simp add: algebra_simps)
  then show "length (ring (d[unat w mod length d := c]) r (w + 1)) = length (ring d r w @ [c])"
    by simp
  fix i
  assume "i < length (ring (d[unat w mod length d := c]) r (w + 1))"
  then have i: "i \<le> unat (w - r)" using len by simp
  show "ring (d[unat w mod length d := c]) r (w + 1) ! i = (ring d r w @ [c]) ! i"
  proof (cases "i = unat (w - r)")
    case True
    then have "unat (r + of_nat i) = unat w" by simp
    moreover have "0 < length d" using assms(2) by linarith
    ultimately show ?thesis using True len by (simp add: ring_def nth_append)
  next
    case False
    then have "i < unat (w - r)" using i by simp
    moreover have "unat (w - (r + of_nat i)) = unat (w - r) - i"
      using unat_diff_u32 [OF i] by (simp add: algebra_simps)
    ultimately have "unat w mod length d \<noteq> unat (r + of_nat i) mod length d"
      using assms by (intro ring_slots_distinct) auto
    then show ?thesis using \<open>i < unat (w - r)\<close> len by (simp add: ring_def nth_append)
  qed
qed

lemma ring_get:
  assumes "r \<noteq> w"
  shows "ring d r w = d ! (unat r mod length d) # ring d (r + 1) w"
proof -
  obtain k where k: "unat (w - r) = Suc k"
    using assms by (metis not0_implies_Suc right_minus_eq unat_eq_zero)
  have "unat (w - (r + 1)) = k"
    using unat_diff_u32 [of 1 "w - r"] k by (simp add: algebra_simps)
  then show ?thesis
    unfolding ring_def k by (simp add: upt_conv_Cons map_Suc_upt [symmetric] o_def algebra_simps del: upt_Suc)
qed

lemma unat_diff_diff:
  assumes "unat (w - r :: u32) \<le> unat (e - r)"
  shows "unat (e - w) = unat (e - r) - unat (w - r)"
proof -
  have "e - w = (e - r) - of_nat (unat (w - r))" by simp
  then show ?thesis using unat_diff_u32 [OF assms] by simp
qed

lemma ring_append:
  assumes "unat (w - r) \<le> unat (e - r)"
  shows "ring d r e = ring d r w @ ring d w e"
proof (rule nth_equalityI)
  show "length (ring d r e) = length (ring d r w @ ring d w e)"
    using assms unat_diff_diff [OF assms] by simp
  fix i
  assume i: "i < length (ring d r e)"
  show "ring d r e ! i = (ring d r w @ ring d w e) ! i"
  proof (cases "i < unat (w - r)")
    case True
    then show ?thesis using i by (simp add: ring_def nth_append)
  next
    case False
    then have "r + of_nat i = w + (of_nat (i - unat (w - r)) :: u32)"
      by (simp add: of_nat_diff)
    moreover have "i - unat (w - r) < unat (e - w)"
      using False i unat_diff_diff [OF assms] by simp
    ultimately show ?thesis using False i by (simp add: ring_def nth_append add.commute)
  qed
qed

lemma ring_last:
  assumes "e \<noteq> w"
  shows "ring d w e = ring d w (e - 1) @ [d ! (unat (e - 1) mod length d)]"
proof -
  have "0 < unat (e - w)" using assms by (simp add: unat_gt_0)
  then have "unat (e - 1 - w) \<le> unat (e - w)"
    using unat_diff_u32 [of 1 "e - w"] by (simp add: algebra_simps)
  then have "ring d w e = ring d w (e - 1) @ ring d (e - 1) e" by (rule ring_append)
  moreover have "ring d (e - 1) e = [d ! (unat (e - 1) mod length d)]"
    using ring_get [of "e - 1" e d] by simp
  ultimately show ?thesis by simp
qed

section \<open>The contract of a queue\<close>

text \<open>
  What the readers and writers of a ring rely on: a byte that is put comes after the bytes in the
  queue, and the byte that is taken is the first one.
\<close>

locale byte_queue =
  fixes put :: "u8 \<Rightarrow> 'q \<Rightarrow> 'q"
    and get :: "'q \<Rightarrow> u8 \<times> 'q"
    and room :: "'q \<Rightarrow> nat"
    and contents :: "'q \<Rightarrow> u8 list"
    and ok :: "'q \<Rightarrow> bool"
  assumes put_contents: "ok q \<Longrightarrow> 0 < room q \<Longrightarrow> contents (put c q) = contents q @ [c]"
    and put_ok: "ok q \<Longrightarrow> 0 < room q \<Longrightarrow> ok (put c q)"
    and put_room: "ok q \<Longrightarrow> 0 < room q \<Longrightarrow> room (put c q) = room q - 1"
    and get_contents: "ok q \<Longrightarrow> contents q \<noteq> [] \<Longrightarrow> contents q = fst (get q) # contents (snd (get q))"
    and get_ok: "ok q \<Longrightarrow> contents q \<noteq> [] \<Longrightarrow> ok (snd (get q))"
begin

lemma put_all:
  assumes "ok q" and "length cs \<le> room q"
  shows "ok (fold put cs q) \<and> contents (fold put cs q) = contents q @ cs \<and> room (fold put cs q) = room q - length cs"
  using assms
proof (induction cs arbitrary: q)
  case (Cons c cs)
  then have "0 < room q" by simp
  with Cons.prems Cons.IH [of "put c q"] show ?case
    by (simp add: put_ok put_contents put_room)
qed simp

lemma get_first: "ok q \<Longrightarrow> contents q \<noteq> [] \<Longrightarrow> fst (get q) = hd (contents q) \<and> contents (snd (get q)) = tl (contents q)"
  using get_contents [of q] by (metis list.sel(1,3))

end

end
