(* ===== verification/Access.thy ===== *)
theory Access
  imports Vm
begin

text \<open>
  What the kernel's accesses to user memory keep: a load changes nothing, a store only memory.
\<close>

lemma sint_nonneg_u32:
  assumes "0 \<le> sint (p :: u32)"
  shows "sint p = uint p \<and> uint p < 2 ^ 31"
proof -
  have s: "sint p = signed_take_bit 31 (uint p)" by (simp add: sint_uint)
  have lt: "sint p < 2 ^ 31" unfolding s by (rule signed_take_bit_int_less_exp)
  have u: "0 \<le> uint p" "uint p < 2 ^ 32" using uint_lt2p [of p] by simp_all
  have "sint p = take_bit 32 (uint p) - 2 ^ 32 * of_bool (bit (uint p) 31)"
    unfolding s by (simp add: signed_take_bit_eq_take_bit_minus)
  moreover have "take_bit 32 (uint p) = uint p" using u by (simp add: take_bit_int_eq_self_iff)
  ultimately have "sint p = uint p" using assms u by (cases "bit (uint p) 31") auto
  then show ?thesis using lt by simp
qed

lemma uint_add_of_int:
  assumes "0 \<le> n" and "uint (p :: u32) + n < 2 ^ 32"
  shows "uint (p + of_int n) = uint p + n"
proof -
  have "n < 2 ^ 32" using assms(2) uint_ge_0 [of p] by linarith
  then have "uint (of_int n :: u32) = n"
    using assms(1) by (simp add: unsigned_of_int take_bit_int_eq_self_iff)
  then show ?thesis using assms by (simp add: uint_word_ariths)
qed

lemma kread8_state: "kread8 a s = Done b t \<Longrightarrow> t = s"
  by (auto simp: kread8_def split: if_splits option.splits)

lemma kread8_cases: "(\<exists>b. kread8 a s = Done b s) \<or> kread8 a s = Fault a"
  by (auto simp: kread8_def split: option.splits)

lemma kread32_state: "kread32 a s = Done v t \<Longrightarrow> t = s"
  unfolding kread32_def bind_Done_iff by (auto dest!: kread8_state)

lemma kwrite8_keeps: "kwrite8 a b s = Done u t \<Longrightarrow> \<exists>m. t = s\<lparr>mem := m\<rparr>"
  by (auto simp: kwrite8_def split: if_splits option.splits)

lemma kwrite_bytes_keeps: "kwrite_bytes a bs s = Done u t \<Longrightarrow> \<exists>m. t = s\<lparr>mem := m\<rparr>"
proof (induction bs arbitrary: a s)
  case Nil
  then show ?case by (auto intro: exI [of _ "mem s"])
next
  case (Cons b bs)
  then obtain v where "kwrite8 a b s = Done () v" "kwrite_bytes (a + 1) bs v = Done u t" by (auto simp: bind_Done_iff)
  with Cons.IH [of "a + 1" v] kwrite8_keeps [of a b s "()" v] show ?case by auto
qed

lemma kread_bytes_length: "kread_bytes a n s = Done bs t \<Longrightarrow> length bs = n \<and> t = s"
  by (induction n arbitrary: a s bs) (auto simp: bind_Done_iff dest: kread8_state)

end
