(* ===== verification/Pipes.thy ===== *)
theory Pipes
  imports Machine Ring Access
begin

text \<open>
  Pipes are byte queues: the theory shows that \<^verbatim>\<open>pipewrite\<close> and \<^verbatim>\<open>piperead\<close> neither lose, duplicate
  nor reorder bytes, also when the counters wrap around, and that a writer sleeps only on a full pipe.
\<close>

definition pipe_ok :: "pipe \<Rightarrow> bool" where
  "pipe_ok q \<longleftrightarrow> length (pdata q) = 512 \<and> unat (nwrite q - nread q) \<le> 512"

definition pipe_bytes :: "pipe \<Rightarrow> bytes" where
  "pipe_bytes q = ring (pdata q) (nread q) (nwrite q)"

definition pipe_room :: "pipe \<Rightarrow> nat" where
  "pipe_room q = 512 - unat (nwrite q - nread q)"

lemma pipe_full_iff: "nwrite q = nread q + 512 \<longleftrightarrow> unat (nwrite q - nread q) = 512"
proof
  assume "nwrite q = nread q + 512"
  then show "unat (nwrite q - nread q) = 512" by simp
next
  assume "unat (nwrite q - nread q) = 512"
  then have "(of_nat (unat (nwrite q - nread q)) :: u32) = of_nat 512" by (simp only:)
  then show "nwrite q = nread q + 512" by (simp add: algebra_simps)
qed

lemma pipe_empty_iff: "nread q = nwrite q \<longleftrightarrow> pipe_bytes q = []"
  by (simp add: pipe_bytes_def ring_empty_iff)

interpretation pipe_q: byte_queue pipe_put pipe_get pipe_room pipe_bytes pipe_ok
proof unfold_locales
  fix q :: pipe and c
  assume ok: "pipe_ok q" and room: "0 < pipe_room q"
  have lt: "unat (nwrite q - nread q) < 512" using room by (simp add: pipe_room_def)
  then have suc: "unat (nwrite q + 1 - nread q) = Suc (unat (nwrite q - nread q))"
    using unat_Suc_u32 [of "nwrite q - nread q"] by (simp add: algebra_simps)
  show "pipe_bytes (pipe_put c q) = pipe_bytes q @ [c]"
    using ring_put [of "pdata q" "nwrite q" "nread q" c] ok lt by (simp add: pipe_bytes_def pipe_put_def pipe_ok_def)
  show "pipe_ok (pipe_put c q)" using ok lt suc by (simp add: pipe_ok_def pipe_put_def)
  show "pipe_room (pipe_put c q) = pipe_room q - 1" using lt suc by (simp add: pipe_room_def pipe_put_def)
next
  fix q :: pipe
  assume ok: "pipe_ok q" and ne: "pipe_bytes q \<noteq> []"
  have d: "nread q \<noteq> nwrite q" using ne by (simp add: pipe_empty_iff)
  show "pipe_bytes q = fst (pipe_get q) # pipe_bytes (snd (pipe_get q))"
    using ring_get [OF d, of "pdata q"] ok by (simp add: pipe_bytes_def pipe_get_def getb_def pipe_ok_def)
  have "length (pipe_bytes q) = Suc (length (pipe_bytes (snd (pipe_get q))))"
    using ring_get [OF d, of "pdata q"] by (simp add: pipe_bytes_def pipe_get_def)
  then show "pipe_ok (snd (pipe_get q))"
    using ok by (simp add: pipe_ok_def pipe_get_def pipe_bytes_def)
qed

section \<open>What the other parts of the kernel keep\<close>

lemma kread8_set_pipe: "kread8 a (set_pipe p g s) = bind (kread8 a s) (\<lambda>b _. Done b (set_pipe p g s))"
  by (auto simp: kread8_def set_pipe_def split: option.splits)

lemma fetch_set_pipe:
  "fetch src i (Suc 0) (set_pipe p g s) = bind (fetch src i (Suc 0) s) (\<lambda>b _. Done b (set_pipe p g s))"
  by (cases src) (simp_all add: fetch_def kread8_set_pipe bind_assoc)

lemma fetch_state: "fetch src i (Suc 0) s = Done bs t \<Longrightarrow> t = s"
  by (cases src) (auto simp: fetch_def bind_Done_iff dest: kread8_state)

lemma fetch_one: "fetch src i (Suc 0) s \<noteq> Swtch t"
  by (cases src) (auto simp: fetch_def kread8_def split: option.splits)

lemma emit_keeps: "emit dst bs s = Done u t \<Longrightarrow> \<exists>m. t = s\<lparr>mem := m\<rparr>"
  by (cases dst) (auto simp: emit_def intro: exI [of _ "mem s"] dest: kwrite_bytes_keeps)

lemma wakeup_pipes: "wakeup ch s = Done u t \<Longrightarrow> pipes t = pipes s"
  by (auto simp: wakeup_def wakeup1_def bind_Done_iff lock_Done_iff unlock_Done_iff)

lemma sleep_pipes: "sleep ch lk s = Swtch t \<Longrightarrow> pipes t = pipes s"
  by (auto simp: sleep_def sched_def set_proc_def lock_def unlock_def Let_def sleep_wake_def
      split: option.splits if_splits)

lemma sleep_not_Done: "sleep ch lk s \<noteq> Done u t"
  by (auto simp: sleep_def sched_def bind_Done_iff Let_def split: option.splits if_splits)

lemma killed_keeps: "killed s = Done b t \<Longrightarrow> t = s"
  by (auto simp: killed_def split: option.splits)

lemma killed_not_Swtch: "killed s \<noteq> Swtch t"
  by (auto simp: killed_def split: option.splits)

lemma wakeup_not_Swtch: "wakeup ch s \<noteq> Swtch t"
  by (auto simp: wakeup_def bind_Swtch_iff lock_def unlock_def)

lemma held_pipes: "pipes (s\<lparr>held := h\<rparr>) = pipes s"
  by simp

section \<open>Writing\<close>

lemma pipewrite_loop_room:
  assumes "pipe_ok (pipes s p)" and "length is \<le> pipe_room (pipes s p)" and "\<forall>i \<in> set is. fetch src i (Suc 0) s = Done [f i] s"
  shows "pipewrite_loop p src is s = Done True (set_pipe p (fold pipe_put (map f is)) s)"
  using assms
proof (induction "is" arbitrary: s)
  case Nil
  then show ?case by (simp add: set_pipe_def)
next
  case (Cons i is')
  let ?s = "set_pipe p (pipe_put (f i)) s"
  have room: "0 < pipe_room (pipes s p)" using Cons.prems(2) by simp
  then have "nwrite (pipes s p) \<noteq> nread (pipes s p) + 512"
    by (simp add: pipe_full_iff pipe_room_def)
  moreover have "\<forall>i \<in> set is'. fetch src i (Suc 0) ?s = Done [f i] ?s"
    using Cons.prems(3) unfolding fetch_set_pipe by simp
  then have "pipewrite_loop p src is' ?s = Done True (set_pipe p (fold pipe_put (map f is')) ?s)"
    using Cons.prems(1,2) room by (intro Cons.IH) (simp_all add: set_pipe_def pipe_q.put_ok pipe_q.put_room)
  ultimately show ?case using Cons.prems(3) by (simp add: getb_def set_pipe_def)
qed

lemma kread_bytes_fetch:
  "kread_bytes a n s = Done bs t \<Longrightarrow> i < n \<Longrightarrow> fetch (ADDR a) i (Suc 0) s = Done [bs ! i] s"
proof (induction n arbitrary: a bs i t)
  case (Suc n)
  from Suc.prems(1) obtain b bs' where b: "kread8 a s = Done b s" and r: "kread_bytes (a + 1) n s = Done bs' t"
    and bs: "bs = b # bs'"
    by (auto simp: bind_Done_iff dest: kread8_state)
  show ?case
  proof (cases i)
    case 0
    then show ?thesis using b bs by (simp add: fetch_def)
  next
    case (Suc j)
    then show ?thesis using Suc.IH [OF r, of j] Suc.prems(2) bs by (simp add: fetch_def algebra_simps)
  qed
qed simp

text \<open>
  Every outcome of the loop, with enough room or not: the bytes in the pipe are the old ones followed
  by the first bytes of the source.
\<close>

definition stream_step :: "u32 \<Rightarrow> u32 \<Rightarrow> nat list \<Rightarrow> 'z filest_scheme \<Rightarrow> 'z filest_scheme \<Rightarrow> bool" where
  "stream_step p a is s t \<longleftrightarrow> (\<exists>cs. length cs \<le> length is \<and>
     (\<forall>j < length cs. kread8 (a + of_nat (is ! j)) s = Done (cs ! j) s) \<and>
     pipe_ok (pipes t p) \<and> pipe_bytes (pipes t p) = pipe_bytes (pipes s p) @ cs \<and>
     (length cs = length is \<or> pipe_room (pipes t p) = 0))"

lemma fetch_ADDR: "fetch (ADDR a) i (Suc 0) s = bind (kread8 (a + of_nat i) s) (\<lambda>b s. Done [b] s)"
  by (simp add: fetch_def)

lemma pipewrite_loop_stream:
  assumes "pipe_ok (pipes s p)"
    and "pipewrite_loop p (ADDR a) is s = Done b t \<or> pipewrite_loop p (ADDR a) is s = Swtch t"
  shows "stream_step p a is s t"
  using assms
proof (induction "is" arbitrary: s)
  case Nil
  then show ?case by (auto simp: stream_step_def)
next
  case (Cons i is')
  show ?case
  proof (cases "nwrite (pipes s p) = nread (pipes s p) + 512")
    case True
    then have "pipes t = pipes s"
      using Cons.prems(2)
      by (auto simp: sleep_not_Done bind_Done_iff bind_Swtch_iff killed_not_Swtch wakeup_not_Swtch split: if_splits
          dest!: killed_keeps) (metis sleep_pipes wakeup_pipes)+
    then show ?thesis
      using Cons.prems(1) True unfolding stream_step_def
      by (intro exI [of _ "[]"]) (auto simp: pipe_room_def pipe_full_iff)
  next
    case False
    have room: "0 < pipe_room (pipes s p)"
      using False Cons.prems(1) by (auto simp: pipe_full_iff pipe_room_def pipe_ok_def)
    obtain c where c: "kread8 (a + of_nat i) s = Done c s"
      using Cons.prems(2) False fetch_one [of "ADDR a" i s]
      by (auto simp: bind_Done_iff bind_Swtch_iff fetch_ADDR dest: kread8_state)
    let ?s = "set_pipe p (pipe_put c) s"
    have "pipewrite_loop p (ADDR a) is' ?s = Done b t \<or> pipewrite_loop p (ADDR a) is' ?s = Swtch t"
      using Cons.prems(2) False c by (simp add: fetch_ADDR getb_def)
    moreover have ok: "pipe_ok (pipes ?s p)" "pipe_bytes (pipes ?s p) = pipe_bytes (pipes s p) @ [c]"
      using Cons.prems(1) room by (simp_all add: set_pipe_def pipe_q.put_ok pipe_q.put_contents)
    ultimately obtain cs where ih: "length cs \<le> length is'" "\<forall>j < length cs. kread8 (a + of_nat (is' ! j)) ?s = Done (cs ! j) ?s"
      "pipe_ok (pipes t p)" "pipe_bytes (pipes t p) = pipe_bytes (pipes s p) @ c # cs"
      "length cs = length is' \<or> pipe_room (pipes t p) = 0"
      using Cons.IH [of ?s] by (auto simp: stream_step_def)
    have "kread8 (a + of_nat (is' ! j)) s = Done (cs ! j) s" if "j < length cs" for j
      using ih(2) that by (auto simp: kread8_set_pipe bind_Done_iff dest: kread8_state)
    with ih c show ?thesis
      unfolding stream_step_def by (intro exI [of _ "c # cs"]) (auto simp: nth_Cons split: nat.splits)
  qed
qed


lemma wakeup_free: "PTABLE \<notin> set (held s) \<Longrightarrow> wakeup ch s = Done () (wakeup1 ch s)"
  by (simp add: wakeup_def lock_def unlock_def wakeup1_def)

lemma machine_pipe: "pipe_ok (pipes (machine d) p)" "pipe_bytes (pipes (machine d) p) = []" "pipe_room (pipes (machine d) p) = 512"
  by (simp_all add: machine_def pipe_zero_def pipe_ok_def pipe_bytes_def pipe_room_def)

lemma machine_kread: "KERNBASE \<le> a \<Longrightarrow> kread8 a (machine d) = Done 0 (machine d)"
  by (simp add: kread8_def machine_def)


section \<open>Reading\<close>

lemma piperead_loop_takes:
  assumes "pipe_ok (pipes s p)" and "piperead_loop p dst n s = Done bs t"
  shows "bs = take n (pipe_bytes (pipes s p)) \<and> pipe_bytes (pipes t p) = drop n (pipe_bytes (pipes s p)) \<and>
    pipe_ok (pipes t p) \<and> held t = held s"
  using assms
proof (induction p dst n s arbitrary: bs rule: piperead_loop.induct)
  case (1 p dst n s)
  show ?case
  proof (cases "n = 0 \<or> nread (pipes s p) = nwrite (pipes s p)")
    case True
    then show ?thesis using 1(2,3) by (auto simp: piperead_loop.simps [of p dst n s] pipe_empty_iff)
  next
    case False
    then have ne: "pipe_bytes (pipes s p) \<noteq> []" by (simp add: pipe_empty_iff)
    let ?c = "fst (pipe_get (pipes s p))" and ?s = "set_pipe p (\<lambda>q. snd (pipe_get q)) s"
    obtain v cs where e: "emit dst [?c] ?s = Done () v"
      and r: "piperead_loop p (map_option (\<lambda>a. a + 1) dst) (n - 1) v = Done cs t" and bs: "bs = ?c # cs"
      using 1(3) False by (auto simp: piperead_loop.simps [of p dst n s] Let_def bind_Done_iff)
    have pv: "pipes v p = snd (pipe_get (pipes s p))" "held v = held s"
      using emit_keeps [OF e] by (auto simp: set_pipe_def)
    then have "pipe_ok (pipes v p)" using 1(2) ne by (simp add: pipe_q.get_ok)
    from 1(1) [OF False refl e this r] pv pipe_q.get_contents [OF 1(2) ne] bs False show ?thesis
      by (cases n) auto
  qed
qed

lemma piperead_loop_None:
  "pipe_ok (pipes s p) \<Longrightarrow> \<exists>bs t. piperead_loop p None n s = Done bs t"
proof (induction n arbitrary: s)
  case 0
  then show ?case by (simp add: piperead_loop.simps)
next
  case (Suc n)
  show ?case
  proof (cases "pipe_bytes (pipes s p) = []")
    case True
    then show ?thesis by (simp add: piperead_loop.simps pipe_empty_iff)
  next
    case False
    let ?s = "set_pipe p (\<lambda>q. snd (pipe_get q)) s"
    have "pipe_ok (pipes ?s p)" using Suc.prems False by (simp add: set_pipe_def pipe_q.get_ok)
    from Suc.IH [OF this] obtain bs t where "piperead_loop p None n ?s = Done bs t" by blast
    then show ?thesis using False by (simp add: piperead_loop.simps [of p None "Suc n" s] pipe_empty_iff emit_def Let_def)
  qed
qed

text \<open>
  (C21) Bytes come out of a pipe in the order they went in: after a write of bytes for which there is
  room, a read of at most \<open>m\<close> bytes returns the first \<open>m\<close> of the old and the new bytes and
  leaves the others in the pipe.
\<close>

theorem pipe_fifo:
  assumes "pipe_ok (pipes s p)" and "held s = []" and "kread_bytes a n s = Done bs s"
    and "n \<le> pipe_room (pipes s p)" and "pipe_bytes (pipes s p) @ bs \<noteq> []"
  shows "\<exists>t u. pipewrite p (ADDR a) (int n) s = Done (int n) t \<and>
    piperead p None (int m) t = Done (Some (take m (pipe_bytes (pipes s p) @ bs))) u \<and>
    pipe_bytes (pipes u p) = drop m (pipe_bytes (pipes s p) @ bs) \<and> pipe_ok (pipes u p) \<and> held u = []"
proof -
  let ?s = "s\<lparr>held := [PIPELOCK p]\<rparr>"
  let ?q = "fold pipe_put bs (pipes s p)"
  have len: "length bs = n" using kread_bytes_length [OF assms(3)] by simp
  have fi: "fetch (ADDR a) i (Suc 0) ?s = Done [bs ! i] ?s" if "i < n" for i
    using kread_bytes_fetch [OF assms(3) that] by (auto simp: fetch_ADDR bind_Done_iff kread8_def split: option.splits if_splits)
  have mb: "map (nth bs) [0..<n] = bs" using len map_nth [of bs] by simp
  have q: "pipe_ok ?q" "pipe_bytes ?q = pipe_bytes (pipes s p) @ bs"
    using pipe_q.put_all [OF assms(1), of bs] assms(4) len by auto
  define t where "t = s\<lparr>pipes := (pipes s)(p := ?q), ptable := ptable (wakeup1 (PIPE_NREAD p) s)\<rparr>"
  have "pipewrite_loop p (ADDR a) [0..<n] ?s = Done True (set_pipe p (fold pipe_put (map (nth bs) [0..<n])) ?s)"
    using assms(1,4) fi by (intro pipewrite_loop_room) auto
  then have w: "pipewrite p (ADDR a) (int n) s = Done (int n) t"
    using assms(2) unfolding mb
    by (simp add: pipewrite_def lock_def wakeup_free unlock_def wakeup1_def set_pipe_def t_def)
  let ?t = "t\<lparr>held := [PIPELOCK p]\<rparr>"
  have tp: "pipes t p = ?q" "held t = []" using assms(2) by (simp_all add: t_def)
  obtain cs u where "piperead_loop p None m ?t = Done cs u"
    using piperead_loop_None [of ?t p m] tp(1) q(1) by auto
  moreover have "cs = take m (pipe_bytes (pipes s p) @ bs) \<and> pipe_bytes (pipes u p) = drop m (pipe_bytes (pipes s p) @ bs) \<and>
      pipe_ok (pipes u p) \<and> held u = [PIPELOCK p]"
    using piperead_loop_takes [of ?t p None m cs u] calculation tp q by simp
  moreover have "nread (pipes t p) \<noteq> nwrite (pipes t p)" using q(2) assms(5) by (simp add: pipe_empty_iff tp(1))
  ultimately show ?thesis
    using w tp(2)
    by (intro exI [of _ t] exI [of _ "(wakeup1 (PIPE_NWRITE p) u)\<lparr>held := []\<rparr>"])
       (simp add: piperead_def lock_def wakeup_free unlock_def wakeup1_def)
qed

theorem pipe_fifo_witness:
  "\<exists>t u. pipewrite 0x80300000 (ADDR 0x80000000) (int 3) (machine []) = Done (int 3) t \<and>
    piperead 0x80300000 None (int 2) t = Done (Some [0, 0]) u \<and> pipe_bytes (pipes u 0x80300000) = [0]"
proof -
  have three: "(3 :: nat) = Suc (Suc (Suc 0))" by simp
  have k: "kread_bytes 0x80000000 3 (machine []) = Done [0, 0, 0] (machine [])"
    unfolding three by (simp add: machine_kread word_le_nat_alt)
  have "held (machine []) = []" by (simp add: machine_def)
  then show ?thesis
    using pipe_fifo [OF machine_pipe(1) _ k, of "0x80300000" 2] machine_pipe [of "[]" "0x80300000"]
    by auto
qed

end
