(* ===== verification/Terminal.thy ===== *)
theory Terminal
  imports Machine Ring Access
begin

text \<open>
  The console as a terminal: the cursor stays on the screen, numbers are printed so that they can be
  read back, and the interrupt handler implements line editing on a pair of byte lists, the
  lines that are ready to be read and the line that is being typed.
\<close>

section \<open>The screen\<close>

definition on_screen :: "'z consst_scheme \<Rightarrow> bool" where
  "on_screen s \<longleftrightarrow> 0 \<le> cgapos s \<and> cgapos s < 24 * 80"

lemma cga_advance_range:
  assumes "0 \<le> pos" and "pos < 1920"
  shows "0 \<le> cga_advance c pos \<and> cga_advance c pos \<le> 1920"
proof -
  have "pos = 80 * (pos div 80) + pos mod 80" by simp
  moreover have "pos div 80 \<le> 23" using assms by simp
  ultimately have "pos + (80 - pos mod 80) \<le> 1920" by linarith
  moreover have "0 \<le> pos + (80 - pos mod 80)" using assms(1) pos_mod_bound [of 80 pos] by linarith
  ultimately show ?thesis using assms unfolding cga_advance_def by simp
qed

text \<open>The bytes of the 25 lines of the screen.\<close>

definition in_crt :: "u32 \<Rightarrow> bool" where
  "in_crt a \<longleftrightarrow> unat (a - CRT) < 4000"

definition crt_frame :: "mem \<Rightarrow> mem \<Rightarrow> bool" where
  "crt_frame m m' \<longleftrightarrow> (\<forall>a. \<not> in_crt a \<longrightarrow> m' a = m a)"

lemma crt_frame_refl [simp]: "crt_frame m m"
  by (simp add: crt_frame_def)

lemma crt_frame_trans: "crt_frame m m' \<Longrightarrow> crt_frame m' m'' \<Longrightarrow> crt_frame m m''"
  by (simp add: crt_frame_def)

lemma in_crt_offset:
  assumes "unat (x - (CRT + k)) < n" and "unat k + n \<le> 4000"
  shows "in_crt x"
proof -
  have e: "x - CRT = (x - (CRT + k)) + k" by simp
  have "unat (x - CRT) \<le> unat (x - (CRT + k)) + unat k"
    unfolding e unat_word_ariths(1) by (rule mod_less_eq_dividend)
  then show ?thesis using assms unfolding in_crt_def by linarith
qed

lemma unat_crt_pos: "0 \<le> pos \<Longrightarrow> pos < 2000 \<Longrightarrow> unat (2 * of_int pos :: u32) = 2 * nat pos"
proof -
  assume p: "0 \<le> pos" "pos < 2000"
  have "(2 * of_int pos :: u32) = of_nat (2 * nat pos)" using p(1) by simp
  moreover have "2 * nat pos < 4294967296" using p by simp
  ultimately show ?thesis using unat_of_nat_u32 [of "2 * nat pos"] by (simp only:)
qed

lemma store16_frame:
  assumes "0 \<le> pos" and "pos < 2000"
  shows "crt_frame m (store16 m (CRT + 2 * of_int pos) v)"
  unfolding crt_frame_def store16_def
proof (intro allI impI)
  fix a
  assume a: "\<not> in_crt a"
  have k: "unat (2 * of_int pos :: u32) + 2 \<le> 4000" using assms unat_crt_pos [OF assms] by simp
  have "a \<noteq> CRT + 2 * of_int pos" "a \<noteq> CRT + 2 * of_int pos + 1"
    using in_crt_offset [of a "2 * of_int pos" 2] k a by auto
  then show "(m(CRT + 2 * of_int pos := ucast v, CRT + 2 * of_int pos + 1 := ucast (drop_bit 8 v))) a = m a" by simp
qed

lemma cga_scroll_frame:
  assumes "cga_scroll pos s = (q, t)" and "0 \<le> pos" and "pos \<le> 1920"
  shows "crt_frame (mem s) (mem t) \<and> 0 \<le> q \<and> q < 1920"
proof (cases "pos div 80 \<ge> 24")
  case True
  then have pos: "pos = 1920" using assms(3) by simp
  let ?m = "memmove (mem s) CRT (CRT + 2 * 80) (2 * 23 * 80)"
  have mm: "crt_frame (mem s) ?m"
    unfolding crt_frame_def
  proof (intro allI impI)
    fix a
    assume "\<not> in_crt a"
    then have "\<not> a - CRT < 3680" by (simp add: in_crt_def word_less_nat_alt)
    then show "?m a = mem s a" by (simp add: memmove_apply)
  qed
  have ms: "crt_frame ?m (memset ?m (CRT + 2 * 1840) 0 160)"
    unfolding crt_frame_def
  proof (intro allI impI)
    fix a
    assume "\<not> in_crt a"
    then have "\<not> a - (CRT + 3680) < 160" using in_crt_offset [of a 3680 160] by (auto simp: word_less_nat_alt)
    then show "memset ?m (CRT + 2 * 1840) 0 160 a = ?m a" by (simp add: memset_apply)
  qed
  have "q = 1840" "mem t = memset ?m (CRT + 2 * 1840) 0 160"
    using assms(1) pos by (auto simp: cga_scroll_def Let_def)
  then show ?thesis using crt_frame_trans [OF mm ms] by simp
next
  case False
  then show ?thesis using assms by (auto simp: cga_scroll_def)
qed

lemma cgaputc_Done:
  assumes "on_screen s"
  shows "\<exists>t. cgaputc c s = Done () t \<and> on_screen t \<and> crt_frame (mem s) (mem t)"
proof -
  let ?p = "cga_advance c (cgapos s)" and ?s = "cga_write c (cgapos s) s"
  have pos: "0 \<le> cgapos s" "cgapos s < 1920" using assms by (auto simp: on_screen_def)
  have r: "0 \<le> ?p" "?p \<le> 1920" using cga_advance_range [OF pos, of c] by auto
  obtain q u where qu: "cga_scroll ?p ?s = (q, u)" by fastforce
  have w: "crt_frame (mem s) (mem ?s)" using store16_frame [of "cgapos s"] pos by (simp add: cga_write_def)
  have u: "crt_frame (mem ?s) (mem u)" "0 \<le> q" "q < 1920" using cga_scroll_frame [OF qu r] by auto
  have "crt_frame (mem u) (store16 (mem u) (CRT + 2 * of_int q) (0x20 OR 0x0700))"
    using store16_frame [of q] u by simp
  then have "crt_frame (mem s) (store16 (mem u) (CRT + 2 * of_int q) (0x20 OR 0x0700))"
    using crt_frame_trans w u(1) by blast
  then show ?thesis using r qu u(2,3) by (simp add: cgaputc_def Let_def on_screen_def)
qed

lemma consputc_Done:
  assumes "on_screen s" and "\<not> panicked s"
  shows "\<exists>t. consputc c s = Done () t \<and> on_screen t \<and> crt_frame (mem s) (mem t) \<and> cons_same s t"
proof -
  let ?s = "if c = BACKSPACE then uartputc 8 (uartputc 32 (uartputc 8 s)) else uartputc c s"
  have "on_screen ?s" "mem ?s = mem s" using assms(1) by (simp_all add: on_screen_def uartputc_def)
  then obtain t where t: "cgaputc c ?s = Done () t" "on_screen t" "crt_frame (mem s) (mem t)"
    using cgaputc_Done [of ?s c] by auto
  then have "consputc c s = Done () t" using assms(2) by (simp add: consputc_def Let_def)
  then show ?thesis using t consputc_same by blast
qed

lemma cons_same_trans: "cons_same s t \<Longrightarrow> cons_same t u \<Longrightarrow> cons_same s u"
proof -
  assume st: "cons_same s t" and tu: "cons_same t u"
  have e: "u\<lparr>mem := mem t, cgapos := cgapos t, uart_out := uart_out t\<rparr> = t" using tu by (simp add: cons_same_def)
  have "u\<lparr>mem := mem s, cgapos := cgapos s, uart_out := uart_out s\<rparr>
      = (u\<lparr>mem := mem t, cgapos := cgapos t, uart_out := uart_out t\<rparr>)\<lparr>mem := mem s, cgapos := cgapos s, uart_out := uart_out s\<rparr>"
    by simp
  also have "\<dots> = s" unfolding e using st by (simp add: cons_same_def)
  finally show ?thesis by (simp add: cons_same_def)
qed

text \<open>
  (C25) Printing never runs off the screen: from a cursor position on the first 24 lines, any text is
  printed without the panic of \<^verbatim>\<open>cgaputc\<close>, the cursor stays on these lines, and no memory outside the
  25 lines of the video memory is written.
\<close>

theorem print_stays_on_screen:
  assumes "on_screen s" and "\<not> panicked s"
  shows "\<exists>t. consputs bs s = Done () t \<and> on_screen t \<and> crt_frame (mem s) (mem t) \<and> cons_same s t"
  using assms
proof (induction bs arbitrary: s)
  case (Cons b bs)
  obtain t where t: "consputc (uint b) s = Done () t" "on_screen t" "crt_frame (mem s) (mem t)" "cons_same s t"
    using consputc_Done [OF Cons.prems] by blast
  have "\<not> panicked t" using cons_sameD(8) [OF t(4)] Cons.prems(2) by simp
  with Cons.IH [OF t(2)] obtain u where "consputs bs t = Done () u" "on_screen u" "crt_frame (mem t) (mem u)" "cons_same t u"
    by blast
  with t show ?case using crt_frame_trans cons_same_trans by (intro exI [of _ u]) auto
qed simp

lemma machine_screen: "on_screen (machine d)" "\<not> panicked (machine d)"
  by (simp_all add: machine_def on_screen_def)

theorem print_stays_on_screen_witness:
  "\<exists>t. consputs [10, 65] (machine []) = Done () t \<and> on_screen t \<and> crt_frame (mem (machine [])) (mem t)"
  using print_stays_on_screen [OF machine_screen, of "[10, 65]"] by blast

section \<open>Numbers\<close>

declare printint_loop.simps [simp del]

definition digit_val :: "u8 \<Rightarrow> nat" where
  "digit_val c = (if c < 97 then unat (c - 48) else unat (c - 87))"

fun low_first :: "nat \<Rightarrow> bytes \<Rightarrow> nat" where
  "low_first b [] = 0"
| "low_first b (d # ds) = digit_val d + b * low_first b ds"

text \<open>The number a reader sees in the digits, with an optional minus sign.\<close>

definition read_number :: "nat \<Rightarrow> bytes \<Rightarrow> int" where
  "read_number b bs = (if bs \<noteq> [] \<and> hd bs = 45 then - int (low_first b (rev (tl bs))) else int (low_first b (rev bs)))"

lemma digit_val_digits:
  assumes "k < 16"
  shows "digit_val (digits ! k) = k \<and> digits ! k \<noteq> 45"
proof -
  have "list_all (\<lambda>k. digit_val (digits ! k) = k \<and> digits ! k \<noteq> 45) [0..<16]" by code_simp
  then show ?thesis using assms by (simp add: list_all_iff)
qed

lemma printint_loop_value:
  assumes "unat x < b ^ n" and "b = unat base" and "2 \<le> b" and "b \<le> 16"
  shows "low_first b (printint_loop n x base) = unat x \<and> printint_loop n x base \<noteq> [] \<and>
    (\<forall>d \<in> set (printint_loop n x base). d \<noteq> 45) \<or> n = 0"
  using assms
proof (induction n x base rule: printint_loop.induct)
  case (1 n x base)
  show ?case
  proof (cases "n = 0")
    case False
    let ?d = "digits ! unat (x mod base)" and ?q = "x div base"
    have m: "unat (x mod base) < 16" "unat (x mod base) = unat x mod b" "unat ?q = unat x div b"
      using 1(3-5) by (simp_all add: unat_mod unat_div) (metis less_le_trans mod_less_divisor less_le_trans zero_less_numeral)
    have d: "digit_val ?d = unat x mod b" "?d \<noteq> 45" using digit_val_digits [OF m(1)] m(2) by auto
    show ?thesis
    proof (cases "?q = 0")
      case True
      then have "unat x < b" using m(3) 1(4) by (simp add: div_eq_0_iff)
      then show ?thesis using True False d by (simp add: printint_loop.simps [of n x base] Let_def)
    next
      case q: False
      have "unat ?q < b ^ (n - 1)"
        using 1(2) False m(3) by (simp add: less_mult_imp_div_less power_eq_if mult.commute)
      moreover have "n - 1 \<noteq> 0" 
      proof
        assume "n - 1 = 0"
        then have "n = 1" using False by simp
        then have "unat ?q = 0" using 1(2) m(3) by simp
        then show False using q unat_eq_zero by blast
      qed
      ultimately have "low_first b (printint_loop (n - 1) ?q base) = unat ?q \<and> printint_loop (n - 1) ?q base \<noteq> [] \<and>
        (\<forall>d \<in> set (printint_loop (n - 1) ?q base). d \<noteq> 45)"
        using 1(1) [OF False refl refl q] 1(3-5) by auto
      then show ?thesis
        using q False d m(3) by (simp add: printint_loop.simps [of n x base] Let_def)
    qed
  qed simp
qed

lemma uint_neg_u32:
  assumes "sint (x :: u32) < 0"
  shows "uint (- x) = - sint x"
proof -
  have "x \<noteq> 0" using assms by auto
  have u: "0 \<le> uint x" "uint x < 2 ^ 32" using uint_lt2p [of x] by simp_all
  have s: "sint x = signed_take_bit 31 (uint x)" by (simp add: sint_uint)
  have "sint x = take_bit 32 (uint x) - 2 ^ 32 * of_bool (bit (uint x) 31)"
    unfolding s by (simp add: signed_take_bit_eq_take_bit_minus)
  moreover have "take_bit 32 (uint x) = uint x" using u by (simp add: take_bit_int_eq_self_iff)
  ultimately have sx: "sint x = uint x - 2 ^ 32" using assms u by (cases "bit (uint x) 31") auto
  have "uint x \<noteq> 0" using \<open>x \<noteq> 0\<close> by (metis uint_0_iff)
  then have "(- uint x) mod 2 ^ 32 = 2 ^ 32 - uint x" using u by (simp add: zmod_zminus1_eq_if)
  then show ?thesis using sx by (simp add: uint_word_ariths)
qed

text \<open>
  (C24) What \<^verbatim>\<open>printint\<close> prints is the number: read back in base 10 or 16, the digits give the signed value
  for a signed conversion, down to the least integer, and the unsigned value otherwise.
\<close>

theorem printint_reads_back:
  assumes "base = 10 \<or> base = 16"
  shows "read_number (unat base) (printint xx base sg) = (if sg then sint xx else uint xx)"
proof -
  let ?n = "sg \<and> sint xx < 0"
  let ?x = "if ?n then - xx else xx"
  let ?L = "printint_loop 16 ?x base"
  have b: "2 \<le> unat base" "unat base \<le> 16" using assms by auto
  have "unat ?x < 4294967296" by (rule unat_u32_less)
  also have "(4294967296 :: nat) \<le> unat base ^ 16" using assms by auto
  finally have L: "low_first (unat base) ?L = unat ?x" "?L \<noteq> []" "\<forall>d \<in> set ?L. d \<noteq> 45"
    using printint_loop_value [of ?x "unat base" 16 base] b by auto
  have r: "printint xx base sg = (if ?n then 45 # rev ?L else rev ?L)"
    by (simp add: printint_def Let_def)
  show ?thesis
  proof (cases ?n)
    case True
    then show ?thesis using r L(1) uint_neg_u32 [of xx] by (simp add: read_number_def uint_nat [symmetric])
  next
    case False
    have "hd (rev ?L) \<noteq> 45" using L(2,3) by (metis hd_in_set rev_is_Nil_conv set_rev)
    then have "read_number (unat base) (printint xx base sg) = int (unat xx)"
      using r L(1,2) False by (simp add: read_number_def)
    moreover have "sg \<Longrightarrow> sint xx = uint xx" using False sint_nonneg_u32 [of xx] by simp
    ultimately show ?thesis by simp
  qed
qed

theorem printint_reads_back_witness:
  "printint 0xFFFFFFD6 10 True = [45, 52, 50] \<and> read_number (unat (10 :: u32)) (printint 0xFFFFFFD6 10 True) = -42"
proof -
  have "printint 0xFFFFFFD6 10 True = [45, 52, 50]" by code_simp
  moreover have "sint (0xFFFFFFD6 :: u32) = -42" by simp
  ultimately show ?thesis using printint_reads_back [of 10 "0xFFFFFFD6" True] by simp
qed

section \<open>Line editing\<close>

text \<open>
  The abstract terminal: the bytes that readers may take, and the line that is being typed. A line
  ends with a newline or control-D, or when 128 bytes wait; control-U drops the typed line and
  control-H and DEL its last byte.
\<close>

fun type_char :: "int \<Rightarrow> bytes \<times> bytes \<Rightarrow> bytes \<times> bytes" where
  "type_char c (ready, line) =
     (if c = 16 then (ready, line)
      else if c = 21 then (ready, [])
      else if c = 8 \<or> c = 127 then (ready, butlast line)
      else if c \<noteq> 0 \<and> length ready + length line < 128 then
        let c = (if c = 13 then 10 else c); line = line @ [of_int c]
        in if c = 10 \<or> c = 4 \<or> length ready + length line = 128 then (ready @ line, []) else (ready, line)
      else (ready, line))"

definition lines :: "'z consst_scheme \<Rightarrow> bytes \<times> bytes" where
  "lines s = (ring (input_buf s) (input_r s) (input_w s), ring (input_buf s) (input_w s) (input_e s))"

definition term_ok :: "'z consst_scheme \<Rightarrow> bool" where
  "term_ok s \<longleftrightarrow> length (input_buf s) = 128 \<and> unat (input_w s - input_r s) \<le> unat (input_e s - input_r s) \<and>
     unat (input_e s - input_r s) \<le> 128 \<and> 10 \<notin> set (snd (lines s)) \<and> on_screen s \<and> \<not> panicked s \<and> PTABLE \<notin> set (held s)"

lemma term_ok_lengths:
  assumes "term_ok s"
  shows "length (fst (lines s)) + length (snd (lines s)) = unat (input_e s - input_r s)"
  using assms unat_diff_diff [of "input_w s" "input_r s" "input_e s"] by (simp add: term_ok_def lines_def)

text \<open>Echoing a character changes nothing of this.\<close>

lemma echo_Done:
  assumes "on_screen s" and "\<not> panicked s"
  obtains t where "consputc c s = Done () t" and "on_screen t" and "cons_same s t"
    and "lines t = lines s" and "input_r t = input_r s" "input_w t = input_w s" "input_e t = input_e s"
    and "input_buf t = input_buf s" and "held t = held s" and "panicked t = panicked s"
proof -
  obtain t where t: "consputc c s = Done () t" "on_screen t" "cons_same s t" using consputc_Done [OF assms] by blast
  with that [OF t] cons_sameD [OF t(3)] show ?thesis by (simp add: lines_def)
qed

text \<open>Taking back the last typed character.\<close>

lemma term_ok_editing:
  assumes "term_ok s" and "input_e s \<noteq> input_w s"
  shows "unat (input_e s - 1 - input_r s) = unat (input_e s - input_r s) - 1 \<and>
    unat (input_w s - input_r s) < unat (input_e s - input_r s)"
proof -
  have le: "unat (input_w s - input_r s) \<le> unat (input_e s - input_r s)" using assms(1) by (simp add: term_ok_def)
  have "0 < unat (input_e s - input_w s)" using assms(2) by (simp add: unat_gt_0)
  then have lt: "unat (input_w s - input_r s) < unat (input_e s - input_r s)"
    using unat_diff_diff [OF le] by simp
  then have "unat (input_e s - input_r s - of_nat 1) = unat (input_e s - input_r s) - 1"
    by (intro unat_diff_u32) simp
  then show ?thesis using lt by (simp add: algebra_simps)
qed

lemma erase_Done:
  assumes "term_ok s" and "input_e s \<noteq> input_w s"
  shows "\<exists>t. consputc BACKSPACE (s\<lparr>input_e := input_e s - 1\<rparr>) = Done () t \<and> term_ok t \<and>
    lines t = (fst (lines s), butlast (snd (lines s)))"
proof -
  let ?s = "s\<lparr>input_e := input_e s - 1\<rparr>" and ?d = "input_buf s"
  have rl: "ring ?d (input_w s) (input_e s) = ring ?d (input_w s) (input_e s - 1) @ [?d ! (unat (input_e s - 1) mod length ?d)]"
    by (rule ring_last [OF assms(2)])
  have nl: "10 \<notin> set (ring ?d (input_w s) (input_e s - 1))"
    using assms(1) rl by (auto simp: term_ok_def lines_def)
  have "on_screen ?s" "\<not> panicked ?s" using assms(1) by (simp_all add: term_ok_def on_screen_def)
  then obtain t where t: "consputc BACKSPACE ?s = Done () t" "on_screen t" "lines t = lines ?s"
    "input_r t = input_r s" "input_w t = input_w s" "input_e t = input_e s - 1" "input_buf t = ?d" "held t = held s"
    "panicked t = panicked s"
    by (rule echo_Done) auto
  have ok: "term_ok t" using assms(1) t term_ok_editing [OF assms] nl by (auto simp: term_ok_def lines_def)
  show ?thesis using t(1) ok t(3) rl by (intro exI [of _ t]) (simp add: lines_def)
qed

lemma kill_line_Done:
  assumes "term_ok s"
  shows "\<exists>t. kill_line s = Done () t \<and> term_ok t \<and> lines t = (fst (lines s), [])"
  using assms
proof (induction s rule: kill_line.induct)
  case (1 s)
  show ?case
  proof (cases "input_e s = input_w s")
    case True
    then show ?thesis using "1.prems" by (simp add: kill_line.simps [of s] lines_def)
  next
    case False
    have "length (input_buf s) = 128" using "1.prems" by (simp add: term_ok_def)
    then have "inbuf s (input_e s - 1) \<in> set (snd (lines s))"
      using ring_last [OF False, of "input_buf s"] by (simp add: inbuf_def unat_mod lines_def)
    then have g: "input_e s \<noteq> input_w s \<and> inbuf s (input_e s - 1) \<noteq> 10"
      using False "1.prems" by (auto simp: term_ok_def)
    obtain t where t: "consputc BACKSPACE (s\<lparr>input_e := input_e s - 1\<rparr>) = Done () t" "term_ok t"
      "fst (lines t) = fst (lines s)"
      using erase_Done [OF "1.prems" False] by auto
    from "1.IH" [OF g t(1,2)] t(1,3) g show ?thesis by (simp add: kill_line.simps [of s])
  qed
qed

text \<open>Typing a character that is stored.\<close>

lemma put_lines:
  assumes "term_ok s" and "unat (input_e s - input_r s) < 128"
  shows "lines (s\<lparr>input_buf := (input_buf s)[unat (input_e s mod 128) := c], input_e := input_e s + 1\<rparr>)
    = (fst (lines s), snd (lines s) @ [c])"
    and "unat (input_e s + 1 - input_r s) = Suc (unat (input_e s - input_r s))"
proof -
  let ?d = "input_buf s" and ?d' = "(input_buf s)[unat (input_e s mod 128) := c]"
  have len: "length ?d = 128" and le: "unat (input_w s - input_r s) \<le> unat (input_e s - input_r s)"
    using assms(1) by (simp_all add: term_ok_def)
  have suc: "unat (input_e s + 1 - input_r s) = Suc (unat (input_e s - input_r s))"
    using unat_Suc_u32 [of "input_e s - input_r s"] assms(2) by (simp add: algebra_simps)
  then show "unat (input_e s + 1 - input_r s) = Suc (unat (input_e s - input_r s))" .
  have "ring ?d' (input_r s) (input_e s + 1) = ring ?d (input_r s) (input_e s) @ [c]"
    using ring_put [of ?d "input_e s" "input_r s" c] len assms(2) by (simp add: unat_mod)
  moreover have "ring ?d' (input_r s) (input_e s + 1) = ring ?d' (input_r s) (input_w s) @ ring ?d' (input_w s) (input_e s + 1)"
    using suc le by (intro ring_append) simp
  moreover have "ring ?d (input_r s) (input_e s) = ring ?d (input_r s) (input_w s) @ ring ?d (input_w s) (input_e s)"
    by (rule ring_append [OF le])
  ultimately show "lines (s\<lparr>input_buf := ?d', input_e := input_e s + 1\<rparr>) = (fst (lines s), snd (lines s) @ [c])"
    by (simp add: lines_def)
qed

lemma store_Done:
  fixes s :: "'z consst_scheme"
  assumes "term_ok s" and "unat (input_e s - input_r s) < 128" and "0 \<le> c" and "c < 256"
  defines "s' \<equiv> s\<lparr>input_buf := (input_buf s)[unat (input_e s mod 128) := of_int c], input_e := input_e s + 1\<rparr>"
  shows "\<exists>t. bind (consputc c s') (\<lambda>_ s.
      if c = 10 \<or> c = 4 \<or> input_e s = input_r s + INPUT_BUF then
        let s = s\<lparr>input_w := input_e s\<rparr> in bind (wakeup INPUT_R s) (\<lambda>_ s. Done d0 s)
      else Done d0 s) = Done d0 t \<and> term_ok t \<and>
    lines t = (if c = 10 \<or> c = 4 \<or> Suc (unat (input_e s - input_r s)) = 128
      then (fst (lines s) @ snd (lines s) @ [of_int c], []) else (fst (lines s), snd (lines s) @ [of_int c]))"
proof -
  note pl = put_lines [OF assms(1,2)]
  have l': "lines s' = (fst (lines s), snd (lines s) @ [of_int c])" unfolding s'_def by (rule pl(1))
  have "on_screen s'" "\<not> panicked s'" using assms(1) by (simp_all add: s'_def term_ok_def on_screen_def)
  then obtain t where t: "consputc c s' = Done () t" "on_screen t" "lines t = lines s'"
    "input_r t = input_r s" "input_w t = input_w s" "input_e t = input_e s + 1" "length (input_buf t) = length (input_buf s)"
    "held t = held s" "panicked t = panicked s"
    by (rule echo_Done [where c = c]) (auto simp: s'_def)
  have full: "input_e s + 1 = input_r s + 128 \<longleftrightarrow> Suc (unat (input_e s - input_r s)) = 128"
  proof
    assume "input_e s + 1 = input_r s + 128"
    then have "input_e s + 1 - input_r s = 128" by simp
    then show "Suc (unat (input_e s - input_r s)) = 128" using pl(2) by simp
  next
    assume "Suc (unat (input_e s - input_r s)) = 128"
    then have "of_nat (unat (input_e s + 1 - input_r s)) = (of_nat 128 :: u32)" using pl(2) by simp
    then show "input_e s + 1 = input_r s + 128" by (simp add: algebra_simps)
  qed
  show ?thesis
  proof (cases "c = 10 \<or> c = 4 \<or> Suc (unat (input_e s - input_r s)) = 128")
    case True
    let ?u = "wakeup1 INPUT_R (t\<lparr>input_w := input_e t\<rparr>)"
    have r: "ring (input_buf t) (input_r s) (input_e s + 1) = fst (lines s) @ snd (lines s) @ [of_int c]"
      using ring_append [of "input_w s" "input_r s" "input_e s + 1" "input_buf t"] t(3-6) l' pl(2) assms(1)
      by (simp add: lines_def term_ok_def)
    have "term_ok ?u" "lines ?u = (fst (lines s) @ snd (lines s) @ [of_int c], [])"
      using assms(1,2) t pl(2) r by (simp_all add: term_ok_def lines_def wakeup1_def on_screen_def)
    moreover have "wakeup INPUT_R (t\<lparr>input_w := input_e t\<rparr>) = Done () ?u"
      using assms(1) t(8) by (simp add: wakeup_def lock_def unlock_def wakeup1_def term_ok_def)
    ultimately show ?thesis using True t(1,4,6) full by (intro exI [of _ ?u]) simp
  next
    case False
    have "take_bit 8 c = c" using assms(3,4) by (simp add: take_bit_int_eq_self_iff)
    moreover have "uint (of_int c :: u8) = take_bit 8 c" by (simp add: unsigned_of_int)
    ultimately have "uint (of_int c :: u8) = c" by (rule trans [rotated])
    then have "(of_int c :: u8) \<noteq> 10" using False by auto
    then have "term_ok t" using assms(1,2) t l' pl(2) by (simp add: term_ok_def)
    then show ?thesis using False t(1,3,4,6) full l' by (intro exI [of _ t]) simp
  qed
qed

lemma type_Done:
  assumes "term_ok s" and "0 \<le> c" and "c < 256"
  shows "\<exists>d t. consoleintr_char c d0 s = Done d t \<and> term_ok t \<and> lines t = type_char c (lines s)"
proof -
  obtain ready line where rl: "lines s = (ready, line)" by fastforce
  have len: "length ready + length line = unat (input_e s - input_r s)"
    using term_ok_lengths [OF assms(1)] rl by simp
  have lt: "input_e s - input_r s < 128 \<longleftrightarrow> unat (input_e s - input_r s) < 128" by (simp add: word_less_nat_alt)
  consider "c = 16" | "c = 21" | "c = 8 \<or> c = 127" | "c \<notin> {16, 21, 8, 127}" "c \<noteq> 0" "unat (input_e s - input_r s) < 128"
    | "c \<notin> {16, 21, 8, 127}" "c = 0 \<or> \<not> unat (input_e s - input_r s) < 128"
    by auto
  then show ?thesis
  proof cases
    case 1
    then show ?thesis using assms(1) rl by (intro exI [of _ True]) (simp add: consoleintr_char_def)
  next
    case 2
    then show ?thesis using kill_line_Done [OF assms(1)] rl by (auto simp: consoleintr_char_def)
  next
    case 3
    show ?thesis
    proof (cases "input_e s = input_w s")
      case True
      then have "line = []" using rl by (auto simp: lines_def)
      then show ?thesis using 3 True assms(1) rl by (auto simp: consoleintr_char_def)
    next
      case False
      then show ?thesis using erase_Done [OF assms(1) False] 3 rl by (auto simp: consoleintr_char_def)
    qed
  next
    case 4
    let ?c = "if c = 13 then 10 else c"
    have "0 \<le> ?c" "?c < 256" using assms(2,3) by auto
    from store_Done [OF assms(1) 4(3) this, of d0] obtain t where "consoleintr_char c d0 s = Done d0 t" "term_ok t"
      "lines t = (if ?c = 10 \<or> ?c = 4 \<or> Suc (unat (input_e s - input_r s)) = 128
        then (ready @ line @ [of_int ?c], []) else (ready, line @ [of_int ?c]))"
      using 4 lt rl by (auto simp: consoleintr_char_def Let_def)
    then show ?thesis using 4 rl len by (intro exI [of _ d0] exI [of _ t]) (simp add: Let_def)
  next
    case 5
    then show ?thesis using assms(1) rl len lt by (auto simp: consoleintr_char_def)
  qed
qed

text \<open>
  (C22) The console's interrupt handler is the abstract terminal: whatever characters the keyboard or the
  serial line deliver, the bytes that are ready and the line being typed change as \<open>type_char\<close> says,
  the counters stay in range, and no character is lost or stored twice when they wrap around.
\<close>

theorem consoleintr_refines_terminal:
  assumes "term_ok s" and "\<forall>c \<in> set cs. 0 \<le> c \<and> c < 256"
  shows "\<exists>d t. consoleintr_loop cs d0 s = Done d t \<and> term_ok t \<and> lines t = fold type_char cs (lines s)"
  using assms
proof (induction cs arbitrary: s d0)
  case (Cons c cs)
  obtain d t where t: "consoleintr_char c d0 s = Done d t" "term_ok t" "lines t = type_char c (lines s)"
    using type_Done [OF Cons.prems(1), of c d0] Cons.prems(2) by auto
  from Cons.IH [OF t(2), of d] Cons.prems(2) t show ?case by auto
qed simp

lemma machine_term: "term_ok (machine d)" "lines (machine d) = ([], [])"
  by (simp_all add: machine_def term_ok_def lines_def on_screen_def)

theorem consoleintr_refines_terminal_witness:
  "\<exists>d t. consoleintr_loop [97, 98, 8, 99, 13, 100] False (machine []) = Done d t \<and> lines t = ([97, 99, 10], [100])"
  using consoleintr_refines_terminal [OF machine_term(1), of "[97, 98, 8, 99, 13, 100]" False "[]"]
  by (auto simp: machine_term(2) Let_def)

section \<open>Reading lines\<close>

declare consoleread_loop.simps [simp del]

text \<open>
  What a reader gets from the bytes that are ready: up to \<open>n\<close> bytes, no more than one line, and an
  end-of-file mark when control-D comes first; \<open>None\<close> when it has to wait.
\<close>

fun take_line :: "nat \<Rightarrow> nat \<Rightarrow> bytes \<Rightarrow> (bytes \<times> bytes) option" where
  "take_line target 0 l = Some ([], l)"
| "take_line target (Suc n) [] = None"
| "take_line target (Suc n) (c # l) =
     (if c = 4 then Some ([], if Suc n < target then c # l else l)
      else if c = 10 then Some ([c], l)
      else map_option (\<lambda>(bs, l'). (c # bs, l')) (take_line target n l))"

text \<open>
  (C23) When the bytes that are ready satisfy a read from the console, it returns what \<open>take_line\<close> says of
  them, at most one line, and leaves the rest.
\<close>

theorem consoleread_takes_line:
  assumes "length (input_buf s) = 128" and "take_line target n (fst (lines s)) = Some (bs, rest)"
  shows "\<exists>t. consoleread_loop None target n s = Done (Some bs) t \<and> fst (lines t) = rest \<and> input_buf t = input_buf s"
  using assms
proof (induction n arbitrary: s bs)
  case 0
  then show ?case by (simp add: consoleread_loop.simps)
next
  case (Suc n)
  let ?s = "s\<lparr>input_r := input_r s + 1\<rparr>"
  have ne: "input_r s \<noteq> input_w s"
    using Suc.prems(2) by (cases "fst (lines s)") (auto simp: lines_def ring_empty_iff)
  have l: "fst (lines s) = inbuf s (input_r s) # fst (lines ?s)"
    using ring_get [OF ne, of "input_buf s"] Suc.prems(1) by (simp add: lines_def inbuf_def unat_mod)
  show ?case
  proof (cases "inbuf s (input_r s) = 4 \<or> inbuf s (input_r s) = 10")
    case True
    then show ?thesis using Suc.prems ne l by (auto simp: consoleread_loop.simps [of None target "Suc n" s] emit_def Let_def)
  next
    case False
    then obtain bs' where b: "take_line target n (fst (lines ?s)) = Some (bs', rest)" "bs = inbuf s (input_r s) # bs'"
      using Suc.prems(2) l by auto
    from Suc.IH [of ?s bs'] b Suc.prems(1) obtain t where
      "consoleread_loop None target n ?s = Done (Some bs') t" "fst (lines t) = rest" "input_buf t = input_buf s"
      by auto
    then show ?thesis using False ne b(2) by (simp add: consoleread_loop.simps [of None target "Suc n" s] emit_def Let_def)
  qed
qed

theorem consoleread_takes_line_witness:
  "\<exists>t. consoleread_loop None 5 5 ((machine [])\<lparr>input_buf := [97, 10, 98] @ replicate 125 0, input_w := 3, input_e := 3\<rparr>)
    = Done (Some [97, 10]) t \<and> fst (lines t) = [98]"
proof -
  let ?s = "(machine [])\<lparr>input_buf := [97, 10, 98] @ replicate 125 0, input_w := 3, input_e := 3\<rparr>"
  have "[0..<3] = [0, 1, 2 :: nat]" by (simp add: upt_rec)
  then have "fst (lines ?s) = [97, 10, 98]" by (simp add: lines_def ring_def machine_def)
  moreover have "take_line 5 5 [97, 10, 98] = Some ([97, 10], [98])" by code_simp
  ultimately have "take_line 5 5 (fst (lines ?s)) = Some ([97, 10], [98])" by simp
  from consoleread_takes_line [OF _ this] show ?thesis by auto
qed

end
