(* ===== verification/Exec.thy ===== *)
theory Exec
  imports Process
begin

text \<open>
  The arguments of system calls (\<^verbatim>\<open>syscall.c\<close>, up to the dispatch) and \<^verbatim>\<open>exec.c\<close>. A string
  argument is a pointer into user memory in the C code, which the kernel has checked to end before
  the end of the process; here it is the bytes the pointer points to, without the final NUL.
\<close>

section \<open>Arguments\<close>

definition fetchint :: "u32 \<Rightarrow> 'z procst_scheme \<Rightarrow> ('z procst_scheme, u32 option) outcome" where
  "fetchint addr s =
     (case curproc s of None \<Rightarrow> Fault 0
      | Some c \<Rightarrow>
        if addr \<ge> p_sz (ptable s ! c) \<or> addr + 4 > p_sz (ptable s ! c) then Done None s
        else bind (kread32 addr s) (\<lambda>v s. Done (Some v) s))"

fun fetchstr_loop :: "nat \<Rightarrow> u32 \<Rightarrow> 'z vmst_scheme \<Rightarrow> ('z vmst_scheme, bytes option) outcome" where
  "fetchstr_loop 0 a s = Done None s"
| "fetchstr_loop (Suc n) a s =
     bind (kread8 a s) (\<lambda>c s.
     if c = 0 then Done (Some []) s
     else bind (fetchstr_loop n (a + 1) s) (\<lambda>r s. Done (map_option (\<lambda>cs. c # cs) r) s))"

definition fetchstr :: "u32 \<Rightarrow> 'z procst_scheme \<Rightarrow> ('z procst_scheme, bytes option) outcome" where
  "fetchstr addr s =
     (case curproc s of None \<Rightarrow> Fault 0
      | Some c \<Rightarrow>
        if addr \<ge> p_sz (ptable s ! c) then Done None s
        else fetchstr_loop (unat (p_sz (ptable s ! c) - addr)) addr s)"

definition argint :: "nat \<Rightarrow> 'z procst_scheme \<Rightarrow> ('z procst_scheme, u32 option) outcome" where
  "argint n s =
     (case curproc s of None \<Rightarrow> Fault 24
      | Some c \<Rightarrow> fetchint (load32 (mem s) (p_tf (ptable s ! c) + TF_ESP) + 4 + 4 * of_nat n) s)"

definition argptr :: "nat \<Rightarrow> int \<Rightarrow> 'z procst_scheme \<Rightarrow> ('z procst_scheme, u32 option) outcome" where
  "argptr n sz s =
     (case curproc s of None \<Rightarrow> Fault 24
      | Some c \<Rightarrow>
        bind (argint n s) (\<lambda>r s.
        case r of None \<Rightarrow> Done None s
        | Some i \<Rightarrow>
          if sint i < 4096 then Done None s
          else if sz < 0 \<or> i \<ge> p_sz (ptable s ! c) \<or> i + of_int sz > p_sz (ptable s ! c) then Done None s
          else Done (Some i) s))"

definition argstr :: "nat \<Rightarrow> 'z procst_scheme \<Rightarrow> ('z procst_scheme, bytes option) outcome" where
  "argstr n s =
     bind (argint n s) (\<lambda>r s. case r of None \<Rightarrow> Done None s | Some addr \<Rightarrow> fetchstr addr s)"

section \<open>exec\<close>

abbreviation (input) ELF_MAGIC :: u32 where "ELF_MAGIC \<equiv> 0x464C457F"
abbreviation (input) ELF_PROG_LOAD :: u32 where "ELF_PROG_LOAD \<equiv> 1"
abbreviation (input) MAXARG :: nat where "MAXARG \<equiv> 32"

record elfhdr =
  e_magic :: u32
  e_elf :: bytes
  e_type :: u16
  e_machine :: u16
  e_version :: u32
  e_entry :: u32
  e_phoff :: u32
  e_shoff :: u32
  e_flags :: u32
  e_ehsize :: u16
  e_phentsize :: u16
  e_phnum :: u16
  e_shentsize :: u16
  e_shnum :: u16
  e_shstrndx :: u16

record proghdr =
  ph_type :: u32
  ph_off :: u32
  ph_vaddr :: u32
  ph_paddr :: u32
  ph_filesz :: u32
  ph_memsz :: u32
  ph_flags :: u32
  ph_align :: u32

definition elfhdr_of :: "bytes \<Rightarrow> elfhdr" where
  "elfhdr_of d = \<lparr>e_magic = get32 d 0, e_elf = slice d 4 12, e_type = get16 d 16, e_machine = get16 d 18,
     e_version = get32 d 20, e_entry = get32 d 24, e_phoff = get32 d 28, e_shoff = get32 d 32, e_flags = get32 d 36,
     e_ehsize = get16 d 40, e_phentsize = get16 d 42, e_phnum = get16 d 44, e_shentsize = get16 d 46,
     e_shnum = get16 d 48, e_shstrndx = get16 d 50\<rparr>"

definition proghdr_of :: "bytes \<Rightarrow> proghdr" where
  "proghdr_of d = \<lparr>ph_type = get32 d 0, ph_off = get32 d 4, ph_vaddr = get32 d 8, ph_paddr = get32 d 12,
     ph_filesz = get32 d 16, ph_memsz = get32 d 20, ph_flags = get32 d 24, ph_align = get32 d 28\<rparr>"

definition exec_bad :: "u32 \<Rightarrow> nat option \<Rightarrow> 'z fsst_scheme \<Rightarrow> ('z fsst_scheme, int) outcome" where
  "exec_bad pgdir ip s =
     bind (if pgdir \<noteq> 0 then freevm pgdir s else Done () s) (\<lambda>_ s.
     case ip of None \<Rightarrow> Done (- 1) s
     | Some i \<Rightarrow> bind (iunlockput i s) (\<lambda>_ s. bind (end_op s) (\<lambda>_ s. Done (- 1) s)))"

text \<open>One program header: the size of the image with its segment loaded, or \<open>None\<close> for \<^verbatim>\<open>goto bad\<close>.\<close>

definition exec_segment :: "nat \<Rightarrow> u32 \<Rightarrow> u32 \<Rightarrow> proghdr \<Rightarrow> 'z fsst_scheme \<Rightarrow> ('z fsst_scheme, u32 option) outcome" where
  "exec_segment ip pgdir sz ph s =
     (if ph_type ph \<noteq> ELF_PROG_LOAD then Done (Some sz) s
      else if ph_memsz ph < ph_filesz ph then Done None s
      else if ph_vaddr ph + ph_memsz ph < ph_vaddr ph then Done None s
      else bind (allocuvm pgdir sz (ph_vaddr ph + ph_memsz ph) s) (\<lambda>sz s.
        if sz = 0 then Done None s
        else if ph_vaddr ph mod PGSIZE \<noteq> 0 then Done None s
        else bind (loaduvm pgdir (ph_vaddr ph) ip (ph_off ph) (ph_filesz ph) s) (\<lambda>r s.
          if r < 0 then Done None s else Done (Some sz) s)))"

fun exec_load :: "nat \<Rightarrow> u32 \<Rightarrow> nat \<Rightarrow> u32 \<Rightarrow> u32 \<Rightarrow> 'z fsst_scheme \<Rightarrow> ('z fsst_scheme, u32 option) outcome" where
  "exec_load 0 off ip pgdir sz s = Done (Some sz) s"
| "exec_load (Suc k) off ip pgdir sz s =
     bind (readi ip None off 32 s) (\<lambda>r s.
     case r of None \<Rightarrow> Done None s
     | Some d \<Rightarrow>
       if length d \<noteq> 32 then Done None s
       else bind (exec_segment ip pgdir sz (proghdr_of d) s) (\<lambda>r s.
         case r of None \<Rightarrow> Done None s | Some sz \<Rightarrow> exec_load k (off + 32) ip pgdir sz s))"

text \<open>The strings of \<^verbatim>\<open>argv\<close> go to the stack, the last one lowest; the result is their addresses.\<close>

fun exec_args :: "bytes list \<Rightarrow> nat \<Rightarrow> u32 \<Rightarrow> u32 \<Rightarrow> 'z vmst_scheme \<Rightarrow> ('z vmst_scheme, (u32 \<times> u32 list) option) outcome" where
  "exec_args [] argc pgdir sp s = Done (Some (sp, [])) s"
| "exec_args (a # as) argc pgdir sp s =
     (if argc \<ge> MAXARG then Done None s
      else let sp = (sp - (of_nat (length a) + 1)) AND NOT 3 in
        bind (copyout pgdir sp (a @ [0]) s) (\<lambda>r s.
        if r < 0 then Done None s
        else bind (exec_args as (argc + 1) pgdir sp s) (\<lambda>r s.
          Done (map_option (\<lambda>(sp', us). (sp', sp # us)) r) s)))"

definition ustack :: "u32 \<Rightarrow> u32 list \<Rightarrow> u32 list" where
  "ustack sp us = [0xffffffff, of_nat (length us), sp - (of_nat (length us) + 1) * 4] @ us @ [0]"

fun last_elem :: "bytes \<Rightarrow> bytes \<Rightarrow> bytes" where
  "last_elem l [] = l"
| "last_elem l (c # cs) = (if c = SLASH then last_elem cs cs else last_elem l cs)"

definition exec_commit :: "nat \<Rightarrow> bytes \<Rightarrow> u32 \<Rightarrow> u32 \<Rightarrow> u32 \<Rightarrow> u32 \<Rightarrow> 'z procst_scheme \<Rightarrow> ('z procst_scheme, int) outcome" where
  "exec_commit c path pgdir sz sp entry s =
     (let s = set_proc c (\<lambda>q. q\<lparr>p_name := safestrcpy_bytes (p_name q) (last_elem path path) 16\<rparr>) s;
          oldpgdir = p_pgdir (ptable s ! c);
          s = set_proc c (\<lambda>q. q\<lparr>p_pgdir := pgdir\<rparr>) s;
          s = set_proc c (\<lambda>q. q\<lparr>p_sz := sz\<rparr>) s;
          s = tf32 TF_EIP entry c s;
          s = tf32 TF_ESP sp c s
      in bind (switchuvm (Some (p_kstack (ptable s ! c), p_pgdir (ptable s ! c))) s) (\<lambda>_ s.
         bind (freevm oldpgdir s) (\<lambda>_ s. Done 0 s)))"

definition exec_stack :: "nat \<Rightarrow> bytes \<Rightarrow> bytes list \<Rightarrow> u32 \<Rightarrow> u32 \<Rightarrow> u32 \<Rightarrow> 'z fsst_scheme \<Rightarrow> ('z fsst_scheme, int) outcome" where
  "exec_stack c path argv pgdir sz entry s =
     (let sz = PGROUNDUP sz in
      bind (allocuvm pgdir sz (sz + 2 * PGSIZE) s) (\<lambda>sz s.
      if sz = 0 then exec_bad pgdir None s
      else bind (clearpteu pgdir (sz - 2 * PGSIZE) s) (\<lambda>_ s.
        bind (exec_args argv 0 pgdir sz s) (\<lambda>r s.
        case r of None \<Rightarrow> exec_bad pgdir None s
        | Some (sp, us) \<Rightarrow>
          let st = ustack sp us; sp = sp - (3 + of_nat (length us) + 1) * 4 in
          bind (copyout pgdir sp (concat (map bytes32 st)) s) (\<lambda>r s.
          if r < 0 then exec_bad pgdir None s
          else exec_commit c path pgdir sz sp entry s)))))"

definition exec :: "bytes \<Rightarrow> bytes list \<Rightarrow> 'z fsst_scheme \<Rightarrow> ('z fsst_scheme, int) outcome" where
  "exec path argv s =
     (case curproc s of None \<Rightarrow> Fault 0
      | Some c \<Rightarrow>
        bind (begin_op s) (\<lambda>_ s.
        bind (namei path s) (\<lambda>r s.
        case r of None \<Rightarrow> bind (end_op s) (\<lambda>_ s. Done (- 1) (klog ''exec: fail'' s))
        | Some ip \<Rightarrow>
          bind (ilock ip s) (\<lambda>_ s.
          bind (readi ip None 0 52 s) (\<lambda>r s.
          case r of None \<Rightarrow> exec_bad 0 (Some ip) s
          | Some d \<Rightarrow>
            let elf = elfhdr_of d in
            if length d \<noteq> 52 then exec_bad 0 (Some ip) s
            else if e_magic elf \<noteq> ELF_MAGIC then exec_bad 0 (Some ip) s
            else bind (setupkvm s) (\<lambda>pgdir s.
              if pgdir = 0 then exec_bad 0 (Some ip) s
              else bind (exec_load (unat (e_phnum elf)) (e_phoff elf) ip pgdir PGSIZE s) (\<lambda>r s.
                case r of None \<Rightarrow> exec_bad pgdir (Some ip) s
                | Some sz \<Rightarrow>
                  bind (iunlockput ip s) (\<lambda>_ s.
                  bind (end_op s) (\<lambda>_ s.
                  exec_stack c path argv pgdir sz (e_entry elf) s)))))))))"

end
