(* ===== verification/Sysfile.thy ===== *)
theory Sysfile
  imports Exec
begin

text \<open>
  The system calls of \<^verbatim>\<open>sysfile.c\<close>. A call returns the value that goes to the caller's
  \<^verbatim>\<open>eax\<close>, -1 for each of its error returns. Each \<^verbatim>\<open>goto bad\<close> is a call of the definition
  that stands for the label.
\<close>

abbreviation (input) O_RDONLY :: u32 where "O_RDONLY \<equiv> 0x000"
abbreviation (input) O_WRONLY :: u32 where "O_WRONLY \<equiv> 0x001"
abbreviation (input) O_RDWR :: u32 where "O_RDWR \<equiv> 0x002"
abbreviation (input) O_CREATE :: u32 where "O_CREATE \<equiv> 0x200"

definition argfd :: "nat \<Rightarrow> 'z filest_scheme \<Rightarrow> ('z filest_scheme, (nat \<times> nat) option) outcome" where
  "argfd n s =
     bind (argint n s) (\<lambda>r s.
     case r of None \<Rightarrow> Done None s
     | Some v \<Rightarrow>
       if sint v < 0 \<or> sint v \<ge> int NOFILE then Done None s
       else case curproc s of None \<Rightarrow> Fault 40
       | Some c \<Rightarrow> Done (map_option (\<lambda>f. (nat (sint v), f)) (p_ofile (ptable s ! c) ! nat (sint v))) s)"

fun find_fd :: "nat list \<Rightarrow> nat option list \<Rightarrow> nat option" where
  "find_fd [] ofs = None"
| "find_fd (fd # fds) ofs = (if ofs ! fd = None then Some fd else find_fd fds ofs)"

definition fdalloc :: "nat \<Rightarrow> 'z procst_scheme \<Rightarrow> ('z procst_scheme, int) outcome" where
  "fdalloc f s =
     (case curproc s of None \<Rightarrow> Fault 40
      | Some c \<Rightarrow>
        (case find_fd [0..<NOFILE] (p_ofile (ptable s ! c)) of
           None \<Rightarrow> Done (- 1) s
         | Some fd \<Rightarrow> Done (int fd) (set_proc c (\<lambda>q. q\<lparr>p_ofile := (p_ofile q)[fd := Some f]\<rparr>) s)))"

definition set_ofile :: "nat \<Rightarrow> nat option \<Rightarrow> 'z procst_scheme \<Rightarrow> ('z procst_scheme, unit) outcome" where
  "set_ofile fd v s =
     (case curproc s of None \<Rightarrow> Fault 40
      | Some c \<Rightarrow> Done () (set_proc c (\<lambda>q. q\<lparr>p_ofile := (p_ofile q)[fd := v]\<rparr>) s))"

definition sys_dup :: "'z filest_scheme \<Rightarrow> ('z filest_scheme, int) outcome" where
  "sys_dup s =
     bind (argfd 0 s) (\<lambda>r s.
     case r of None \<Rightarrow> Done (- 1) s
     | Some (_, f) \<Rightarrow>
       bind (fdalloc f s) (\<lambda>fd s.
       if fd < 0 then Done (- 1) s
       else bind (filedup f s) (\<lambda>_ s. Done fd s)))"

text \<open>The arguments of \<^verbatim>\<open>read\<close> and \<^verbatim>\<open>write\<close>: a file, a buffer and its length.\<close>

definition arg_io :: "'z filest_scheme \<Rightarrow> ('z filest_scheme, (nat \<times> u32 \<times> int) option) outcome" where
  "arg_io s =
     bind (argfd 0 s) (\<lambda>r s.
     case r of None \<Rightarrow> Done None s
     | Some (_, f) \<Rightarrow>
       bind (argint 2 s) (\<lambda>n s.
       case n of None \<Rightarrow> Done None s
       | Some n \<Rightarrow>
         bind (argptr 1 (sint n) s) (\<lambda>p s. Done (map_option (\<lambda>p. (f, p, sint n)) p) s)))"

definition sys_read :: "'z filest_scheme \<Rightarrow> ('z filest_scheme, int) outcome" where
  "sys_read s = bind (arg_io s) (\<lambda>r s. case r of None \<Rightarrow> Done (- 1) s | Some (f, p, n) \<Rightarrow> fileread f p n s)"

definition sys_write :: "'z filest_scheme \<Rightarrow> ('z filest_scheme, int) outcome" where
  "sys_write s = bind (arg_io s) (\<lambda>r s. case r of None \<Rightarrow> Done (- 1) s | Some (f, p, n) \<Rightarrow> filewrite f p n s)"

definition sys_close :: "'z filest_scheme \<Rightarrow> ('z filest_scheme, int) outcome" where
  "sys_close s =
     bind (argfd 0 s) (\<lambda>r s.
     case r of None \<Rightarrow> Done (- 1) s
     | Some (fd, f) \<Rightarrow>
       bind (set_ofile fd None s) (\<lambda>_ s.
       bind (fileclose f s) (\<lambda>_ s. Done 0 s)))"

definition sys_fstat :: "'z filest_scheme \<Rightarrow> ('z filest_scheme, int) outcome" where
  "sys_fstat s =
     bind (argfd 0 s) (\<lambda>r s.
     case r of None \<Rightarrow> Done (- 1) s
     | Some (_, f) \<Rightarrow>
       bind (argptr 1 20 s) (\<lambda>st s.
       case st of None \<Rightarrow> Done (- 1) s | Some st \<Rightarrow> filestat f st s))"

definition fail_op :: "'z logst_scheme \<Rightarrow> ('z logst_scheme, int) outcome" where
  "fail_op s = bind (end_op s) (\<lambda>_ s. Done (- 1) s)"

definition link_bad :: "nat \<Rightarrow> 'z fsst_scheme \<Rightarrow> ('z fsst_scheme, int) outcome" where
  "link_bad ip s =
     bind (ilock ip s) (\<lambda>_ s.
     bind (iupdate ip (set_inode ip (\<lambda>q. q\<lparr>i_nlink := i_nlink q - 1\<rparr>) s)) (\<lambda>_ s.
     bind (iunlockput ip s) (\<lambda>_ s. fail_op s)))"

text \<open>The second half of \<^verbatim>\<open>sys_link\<close>, which enters the name \<open>new\<close> for the inode.\<close>

definition link_new :: "nat \<Rightarrow> bytes \<Rightarrow> 'z fsst_scheme \<Rightarrow> ('z fsst_scheme, int) outcome" where
  "link_new ip new s =
     bind (nameiparent new s) (\<lambda>r s.
     case r of None \<Rightarrow> link_bad ip s
     | Some (dp, name) \<Rightarrow>
       bind (ilock dp s) (\<lambda>_ s.
       bind (if i_dev (icache s ! dp) \<noteq> i_dev (icache s ! ip) then Done (- 1) s
             else dirlink dp name (i_inum (icache s ! ip)) s) (\<lambda>r s.
       if r < 0 then bind (iunlockput dp s) (\<lambda>_ s. link_bad ip s)
       else bind (iunlockput dp s) (\<lambda>_ s.
         bind (iput ip s) (\<lambda>_ s.
         bind (end_op s) (\<lambda>_ s. Done 0 s))))))"

definition link_old :: "bytes \<Rightarrow> bytes \<Rightarrow> 'z fsst_scheme \<Rightarrow> ('z fsst_scheme, int) outcome" where
  "link_old old new s =
     bind (begin_op s) (\<lambda>_ s.
     bind (namei old s) (\<lambda>r s.
     case r of None \<Rightarrow> fail_op s
     | Some ip \<Rightarrow>
       bind (ilock ip s) (\<lambda>_ s.
       if i_type (icache s ! ip) = T_DIR then bind (iunlockput ip s) (\<lambda>_ s. fail_op s)
       else bind (iupdate ip (set_inode ip (\<lambda>q. q\<lparr>i_nlink := i_nlink q + 1\<rparr>) s)) (\<lambda>_ s.
         bind (iunlock ip s) (\<lambda>_ s. link_new ip new s)))))"

definition sys_link :: "'z fsst_scheme \<Rightarrow> ('z fsst_scheme, int) outcome" where
  "sys_link s =
     bind (argstr 0 s) (\<lambda>old s.
     case old of None \<Rightarrow> Done (- 1) s
     | Some old \<Rightarrow>
       bind (argstr 1 s) (\<lambda>new s.
       case new of None \<Rightarrow> Done (- 1) s | Some new \<Rightarrow> link_old old new s))"

fun isdirempty_loop :: "nat \<Rightarrow> nat list \<Rightarrow> 'z fsst_scheme \<Rightarrow> ('z fsst_scheme, bool) outcome" where
  "isdirempty_loop dp [] s = Done True s"
| "isdirempty_loop dp (off # offs) s =
     bind (read_dirent dp off ''isdirempty: readi'' s) (\<lambda>de s.
     if get16 de 0 \<noteq> 0 then Done False s else isdirempty_loop dp offs s)"

definition isdirempty :: "nat \<Rightarrow> 'z fsst_scheme \<Rightarrow> ('z fsst_scheme, bool) outcome" where
  "isdirempty dp s = isdirempty_loop dp (drop 2 (dirents (i_size (icache s ! dp)))) s"

definition unlink_bad :: "nat \<Rightarrow> 'z fsst_scheme \<Rightarrow> ('z fsst_scheme, int) outcome" where
  "unlink_bad dp s = bind (iunlockput dp s) (\<lambda>_ s. fail_op s)"

text \<open>The part of \<^verbatim>\<open>sys_unlink\<close> that removes the entry at \<open>off\<close> of \<open>dp\<close>, for the inode \<open>ip\<close>.\<close>

definition unlink_entry :: "nat \<Rightarrow> nat \<Rightarrow> nat \<Rightarrow> 'z fsst_scheme \<Rightarrow> ('z fsst_scheme, int) outcome" where
  "unlink_entry dp ip off s =
     bind (writei dp (KBYTES (replicate 16 0)) (of_nat off) 16 s) (\<lambda>r s.
     if r \<noteq> 16 then Panic ''unlink: writei''
     else bind (if i_type (icache s ! ip) = T_DIR
                then iupdate dp (set_inode dp (\<lambda>q. q\<lparr>i_nlink := i_nlink q - 1\<rparr>) s) else Done () s) (\<lambda>_ s.
       bind (iunlockput dp s) (\<lambda>_ s.
       bind (iupdate ip (set_inode ip (\<lambda>q. q\<lparr>i_nlink := i_nlink q - 1\<rparr>) s)) (\<lambda>_ s.
       bind (iunlockput ip s) (\<lambda>_ s.
       bind (end_op s) (\<lambda>_ s. Done 0 s))))))"

definition unlink_path :: "bytes \<Rightarrow> 'z fsst_scheme \<Rightarrow> ('z fsst_scheme, int) outcome" where
  "unlink_path path s =
     bind (begin_op s) (\<lambda>_ s.
     bind (nameiparent path s) (\<lambda>r s.
     case r of None \<Rightarrow> fail_op s
     | Some (dp, name) \<Rightarrow>
       bind (ilock dp s) (\<lambda>_ s.
       if namecmp_eq name [46] \<or> namecmp_eq name [46, 46] then unlink_bad dp s
       else bind (dirlookup dp name s) (\<lambda>r s.
         case r of None \<Rightarrow> unlink_bad dp s
         | Some (ip, off) \<Rightarrow>
           bind (ilock ip s) (\<lambda>_ s.
           if sint (i_nlink (icache s ! ip)) < 1 then Panic ''unlink: nlink < 1''
           else bind (if i_type (icache s ! ip) = T_DIR then isdirempty ip s else Done True s) (\<lambda>ok s.
             if \<not> ok then bind (iunlockput ip s) (\<lambda>_ s. unlink_bad dp s)
             else unlink_entry dp ip off s))))))"

definition sys_unlink :: "'z fsst_scheme \<Rightarrow> ('z fsst_scheme, int) outcome" where
  "sys_unlink s =
     bind (argstr 0 s) (\<lambda>path s. case path of None \<Rightarrow> Done (- 1) s | Some path \<Rightarrow> unlink_path path s)"

text \<open>The part of \<^verbatim>\<open>create\<close> that makes a new inode in the locked directory \<open>dp\<close>.\<close>

definition create_new :: "nat \<Rightarrow> bytes \<Rightarrow> u16 \<Rightarrow> u16 \<Rightarrow> u16 \<Rightarrow> 'z fsst_scheme \<Rightarrow> ('z fsst_scheme, nat) outcome" where
  "create_new dp name type major minor s =
     bind (ialloc (i_dev (icache s ! dp)) type s) (\<lambda>ip s.
     bind (ilock ip s) (\<lambda>_ s.
     bind (iupdate ip (set_inode ip (\<lambda>q. q\<lparr>i_major := major, i_minor := minor, i_nlink := 1\<rparr>) s)) (\<lambda>_ s.
     bind (if type = T_DIR then
             bind (iupdate dp (set_inode dp (\<lambda>q. q\<lparr>i_nlink := i_nlink q + 1\<rparr>) s)) (\<lambda>_ s.
             bind (dirlink ip [46] (i_inum (icache s ! ip)) s) (\<lambda>r s.
             if r < 0 then Panic ''create dots''
             else bind (dirlink ip [46, 46] (i_inum (icache s ! dp)) s) (\<lambda>r s.
               if r < 0 then Panic ''create dots'' else Done () s)))
           else Done () s) (\<lambda>_ s.
     bind (dirlink dp name (i_inum (icache s ! ip)) s) (\<lambda>r s.
     if r < 0 then Panic ''create: dirlink''
     else bind (iunlockput dp s) (\<lambda>_ s. Done ip s))))))"

definition create :: "bytes \<Rightarrow> u16 \<Rightarrow> u16 \<Rightarrow> u16 \<Rightarrow> 'z fsst_scheme \<Rightarrow> ('z fsst_scheme, nat option) outcome" where
  "create path type major minor s =
     bind (nameiparent path s) (\<lambda>r s.
     case r of None \<Rightarrow> Done None s
     | Some (dp, name) \<Rightarrow>
       bind (ilock dp s) (\<lambda>_ s.
       bind (dirlookup dp name s) (\<lambda>r s.
       case r of
         Some (ip, _) \<Rightarrow>
           bind (iunlockput dp s) (\<lambda>_ s.
           bind (ilock ip s) (\<lambda>_ s.
           if type = T_FILE \<and> i_type (icache s ! ip) = T_FILE then Done (Some ip) s
           else bind (iunlockput ip s) (\<lambda>_ s. Done None s)))
       | None \<Rightarrow> bind (create_new dp name type major minor s) (\<lambda>ip s. Done (Some ip) s))))"

text \<open>The inode that \<^verbatim>\<open>sys_open\<close> opens, locked.\<close>

definition open_inode :: "bytes \<Rightarrow> u32 \<Rightarrow> 'z fsst_scheme \<Rightarrow> ('z fsst_scheme, nat option) outcome" where
  "open_inode path omode s =
     (if omode AND O_CREATE \<noteq> 0 then create path T_FILE 0 0 s
      else bind (namei path s) (\<lambda>r s.
        case r of None \<Rightarrow> Done None s
        | Some ip \<Rightarrow>
          bind (ilock ip s) (\<lambda>_ s.
          if i_type (icache s ! ip) = T_DIR \<and> omode \<noteq> O_RDONLY
          then bind (iunlockput ip s) (\<lambda>_ s. Done None s)
          else Done (Some ip) s)))"

definition open_path :: "bytes \<Rightarrow> u32 \<Rightarrow> 'z filest_scheme \<Rightarrow> ('z filest_scheme, int) outcome" where
  "open_path path omode s =
     bind (begin_op s) (\<lambda>_ s.
     bind (open_inode path omode s) (\<lambda>r s.
     case r of None \<Rightarrow> fail_op s
     | Some ip \<Rightarrow>
       bind (filealloc s) (\<lambda>f s.
       case f of None \<Rightarrow> bind (iunlockput ip s) (\<lambda>_ s. fail_op s)
       | Some f \<Rightarrow>
         bind (fdalloc f s) (\<lambda>fd s.
         if fd < 0 then bind (fileclose f s) (\<lambda>_ s. bind (iunlockput ip s) (\<lambda>_ s. fail_op s))
         else bind (iunlock ip s) (\<lambda>_ s.
           bind (end_op s) (\<lambda>_ s.
           Done fd (set_file f (\<lambda>q. q\<lparr>f_type := FD_INODE, f_ip := ip, f_off := 0,
             f_readable := (omode AND O_WRONLY = 0),
             f_writable := (omode AND O_WRONLY \<noteq> 0 \<or> omode AND O_RDWR \<noteq> 0)\<rparr>) s)))))))"

definition sys_open :: "'z filest_scheme \<Rightarrow> ('z filest_scheme, int) outcome" where
  "sys_open s =
     bind (argstr 0 s) (\<lambda>path s.
     case path of None \<Rightarrow> Done (- 1) s
     | Some path \<Rightarrow>
       bind (argint 1 s) (\<lambda>omode s.
       case omode of None \<Rightarrow> Done (- 1) s | Some omode \<Rightarrow> open_path path omode s))"

text \<open>The end of \<^verbatim>\<open>sys_mkdir\<close> and \<^verbatim>\<open>sys_mknod\<close>.\<close>

definition create_done :: "nat option \<Rightarrow> 'z fsst_scheme \<Rightarrow> ('z fsst_scheme, int) outcome" where
  "create_done r s =
     (case r of None \<Rightarrow> fail_op s
      | Some ip \<Rightarrow> bind (iunlockput ip s) (\<lambda>_ s. bind (end_op s) (\<lambda>_ s. Done 0 s)))"

definition sys_mkdir :: "'z fsst_scheme \<Rightarrow> ('z fsst_scheme, int) outcome" where
  "sys_mkdir s =
     bind (begin_op s) (\<lambda>_ s.
     bind (argstr 0 s) (\<lambda>path s.
     case path of None \<Rightarrow> fail_op s
     | Some path \<Rightarrow> bind (create path T_DIR 0 0 s) (\<lambda>r s. create_done r s)))"

definition sys_mknod :: "'z fsst_scheme \<Rightarrow> ('z fsst_scheme, int) outcome" where
  "sys_mknod s =
     bind (begin_op s) (\<lambda>_ s.
     bind (argstr 0 s) (\<lambda>path s.
     case path of None \<Rightarrow> fail_op s
     | Some path \<Rightarrow>
       bind (argint 1 s) (\<lambda>major s.
       case major of None \<Rightarrow> fail_op s
       | Some major \<Rightarrow>
         bind (argint 2 s) (\<lambda>minor s.
         case minor of None \<Rightarrow> fail_op s
         | Some minor \<Rightarrow>
           bind (create path T_DEV (ucast major) (ucast minor) s) (\<lambda>r s. create_done r s)))))"

definition chdir_path :: "nat \<Rightarrow> bytes \<Rightarrow> 'z fsst_scheme \<Rightarrow> ('z fsst_scheme, int) outcome" where
  "chdir_path c path s =
     bind (namei path s) (\<lambda>r s.
     case r of None \<Rightarrow> fail_op s
     | Some ip \<Rightarrow>
       bind (ilock ip s) (\<lambda>_ s.
       if i_type (icache s ! ip) \<noteq> T_DIR then bind (iunlockput ip s) (\<lambda>_ s. fail_op s)
       else bind (iunlock ip s) (\<lambda>_ s.
         case p_cwd (ptable s ! c) of None \<Rightarrow> Fault 12
         | Some w \<Rightarrow>
           bind (iput w s) (\<lambda>_ s.
           bind (end_op s) (\<lambda>_ s.
           Done 0 (set_proc c (\<lambda>q. q\<lparr>p_cwd := Some ip\<rparr>) s))))))"

definition sys_chdir :: "'z fsst_scheme \<Rightarrow> ('z fsst_scheme, int) outcome" where
  "sys_chdir s =
     bind (begin_op s) (\<lambda>_ s.
     bind (argstr 0 s) (\<lambda>path s.
     case path of None \<Rightarrow> fail_op s
     | Some path \<Rightarrow> (case curproc s of None \<Rightarrow> Fault 104 | Some c \<Rightarrow> chdir_path c path s)))"

text \<open>The strings of the argument vector at \<open>uargv\<close>, of which \<open>n\<close> more may come.\<close>

fun exec_argv :: "nat \<Rightarrow> u32 \<Rightarrow> 'z procst_scheme \<Rightarrow> ('z procst_scheme, bytes list option) outcome" where
  "exec_argv 0 uargv s = Done None s"
| "exec_argv (Suc n) uargv s =
     bind (fetchint uargv s) (\<lambda>u s.
     case u of None \<Rightarrow> Done None s
     | Some uarg \<Rightarrow>
       if uarg = 0 then Done (Some []) s
       else bind (fetchstr uarg s) (\<lambda>a s.
         case a of None \<Rightarrow> Done None s
         | Some a \<Rightarrow> bind (exec_argv n (uargv + 4) s) (\<lambda>r s. Done (map_option (\<lambda>as. a # as) r) s)))"

definition sys_exec :: "'z fsst_scheme \<Rightarrow> ('z fsst_scheme, int) outcome" where
  "sys_exec s =
     bind (argstr 0 s) (\<lambda>path s.
     case path of None \<Rightarrow> Done (- 1) s
     | Some path \<Rightarrow>
       bind (argint 1 s) (\<lambda>uargv s.
       case uargv of None \<Rightarrow> Done (- 1) s
       | Some uargv \<Rightarrow>
         bind (exec_argv MAXARG uargv s) (\<lambda>argv s.
         case argv of None \<Rightarrow> Done (- 1) s | Some argv \<Rightarrow> exec path argv s)))"

definition pipe_fail :: "int \<Rightarrow> nat \<Rightarrow> nat \<Rightarrow> 'z filest_scheme \<Rightarrow> ('z filest_scheme, int) outcome" where
  "pipe_fail fd0 rfl wfl s =
     bind (if fd0 \<ge> 0 then set_ofile (nat fd0) None s else Done () s) (\<lambda>_ s.
     bind (fileclose rfl s) (\<lambda>_ s.
     bind (fileclose wfl s) (\<lambda>_ s. Done (- 1) s)))"

definition sys_pipe :: "'z filest_scheme \<Rightarrow> ('z filest_scheme, int) outcome" where
  "sys_pipe s =
     bind (argptr 0 8 s) (\<lambda>fd s.
     case fd of None \<Rightarrow> Done (- 1) s
     | Some fd \<Rightarrow>
       bind (pipealloc s) (\<lambda>r s.
       case r of None \<Rightarrow> Done (- 1) s
       | Some (rfl, wfl) \<Rightarrow>
         bind (fdalloc rfl s) (\<lambda>fd0 s.
         if fd0 < 0 then pipe_fail fd0 rfl wfl s
         else bind (fdalloc wfl s) (\<lambda>fd1 s.
           if fd1 < 0 then pipe_fail fd0 rfl wfl s
           else bind (kwrite32 fd (of_int fd0) s) (\<lambda>_ s.
             bind (kwrite32 (fd + 4) (of_int fd1) s) (\<lambda>_ s. Done 0 s))))))"

end
