(* ===== verification/Sysproc.thy ===== *)
theory Sysproc
  imports Exec
begin

text \<open>
  The system calls of \<^verbatim>\<open>sysproc.c\<close>. A sleeping caller has left the processor (\<open>Swtch\<close>); when it runs
  again it evaluates the loop \<open>sleep_loop\<close> anew with the \<^verbatim>\<open>ticks0\<close> it remembers.
\<close>

definition sys_fork :: "'z filest_scheme \<Rightarrow> ('z filest_scheme, int) outcome" where
  "sys_fork s = fork s"

definition sys_exit :: "'z filest_scheme \<Rightarrow> ('z filest_scheme, int) outcome" where
  "sys_exit s = bind (exit s) (\<lambda>_ s. Done 0 s)"

definition sys_wait :: "'z procst_scheme \<Rightarrow> ('z procst_scheme, int) outcome" where
  "sys_wait s = wait s"

definition sys_kill :: "'z procst_scheme \<Rightarrow> ('z procst_scheme, int) outcome" where
  "sys_kill s = bind (argint 0 s) (\<lambda>r s. case r of None \<Rightarrow> Done (- 1) s | Some pid \<Rightarrow> kill (sint pid) s)"

definition sys_getpid :: "'z procst_scheme \<Rightarrow> ('z procst_scheme, int) outcome" where
  "sys_getpid s = mypid s"

definition sys_sbrk :: "'z procst_scheme \<Rightarrow> ('z procst_scheme, int) outcome" where
  "sys_sbrk s =
     bind (argint 0 s) (\<lambda>r s.
     case r of None \<Rightarrow> Done (- 1) s
     | Some n \<Rightarrow>
       (case curproc s of None \<Rightarrow> Fault 0
        | Some c \<Rightarrow>
          let addr = sint (p_sz (ptable s ! c)) in
          bind (growproc (sint n) s) (\<lambda>r s. if r < 0 then Done (- 1) s else Done addr s)))"

definition sleep_loop :: "u32 \<Rightarrow> u32 \<Rightarrow> 'z kernst_scheme \<Rightarrow> ('z kernst_scheme, int) outcome" where
  "sleep_loop ticks0 n s =
     (if ticks s - ticks0 < n then
        bind (killed s) (\<lambda>dead s.
        if dead then bind (unlock TICKSLOCK s) (\<lambda>_ s. Done (- 1) s)
        else bind (sleep TICKS TICKSLOCK s) (\<lambda>_ s. Diverge))
      else bind (unlock TICKSLOCK s) (\<lambda>_ s. Done 0 s))"

definition sys_sleep :: "'z kernst_scheme \<Rightarrow> ('z kernst_scheme, int) outcome" where
  "sys_sleep s =
     bind (argint 0 s) (\<lambda>r s.
     case r of None \<Rightarrow> Done (- 1) s
     | Some n \<Rightarrow> bind (lock TICKSLOCK s) (\<lambda>_ s. sleep_loop (ticks s) n s))"

definition sys_uptime :: "'z kernst_scheme \<Rightarrow> ('z kernst_scheme, int) outcome" where
  "sys_uptime s =
     bind (lock TICKSLOCK s) (\<lambda>_ s.
     let xticks = sint (ticks s) in
     bind (unlock TICKSLOCK s) (\<lambda>_ s. Done xticks s))"

definition sys_settickets :: "'z procst_scheme \<Rightarrow> ('z procst_scheme, int) outcome" where
  "sys_settickets s =
     bind (argint 0 s) (\<lambda>r s. case r of None \<Rightarrow> Done (- 1) s | Some ticket \<Rightarrow> settickets (sint ticket) s)"

text \<open>\<^verbatim>\<open>struct pstat\<close> holds four arrays of \<^verbatim>\<open>NPROC\<close> words.\<close>

definition sys_getpinfo :: "'z procst_scheme \<Rightarrow> ('z procst_scheme, int) outcome" where
  "sys_getpinfo s =
     bind (argptr 0 (4 * 4 * int NPROC) s) (\<lambda>r s.
     case r of None \<Rightarrow> Done (- 1) s
     | Some p \<Rightarrow> if p = 0 then Done (- 1) s else getpinfo p s)"

text \<open>\<^verbatim>\<open>sizeof(*addr)\<close> of a \<^verbatim>\<open>void\<close> pointer is 1 in GNU C.\<close>

definition arg_range :: "'z procst_scheme \<Rightarrow> ('z procst_scheme, (u32 \<times> int) option) outcome" where
  "arg_range s =
     bind (argptr 0 1 s) (\<lambda>r s.
     case r of None \<Rightarrow> Done None s
     | Some addr \<Rightarrow> bind (argint 1 s) (\<lambda>n s. Done (map_option (\<lambda>n. (addr, sint n)) n) s))"

definition sys_mprotect :: "'z procst_scheme \<Rightarrow> ('z procst_scheme, int) outcome" where
  "sys_mprotect s =
     bind (arg_range s) (\<lambda>r s.
     case r of None \<Rightarrow> Done (- 1) s
     | Some (addr, n) \<Rightarrow>
       (case curproc s of None \<Rightarrow> Fault 0
        | Some c \<Rightarrow> mprotect (p_pgdir (ptable s ! c)) addr n s))"

definition sys_munprotect :: "'z procst_scheme \<Rightarrow> ('z procst_scheme, int) outcome" where
  "sys_munprotect s =
     bind (arg_range s) (\<lambda>r s.
     case r of None \<Rightarrow> Done (- 1) s
     | Some (addr, n) \<Rightarrow>
       (case curproc s of None \<Rightarrow> Fault 0
        | Some c \<Rightarrow> munprotect (p_pgdir (ptable s ! c)) addr n s))"

end
