(* ===== verification/Trap.thy ===== *)
theory Trap
  imports Sysfile Sysproc
begin

text \<open>
  Traps (\<^verbatim>\<open>trap.c\<close>), the system call dispatch of \<^verbatim>\<open>syscall.c\<close> and the interrupt handlers of
  \<^verbatim>\<open>kbd.c\<close> and \<^verbatim>\<open>uart.c\<close>. The trap frame is in memory at the address \<open>tf\<close>. The end-of-interrupt
  messages to the local APIC have no effect on the kernel's state, and \<^verbatim>\<open>ideintr\<close> of
  \<^verbatim>\<open>memide.c\<close> does nothing. A process that yields has left the processor; \<open>trap_back\<close> is what it
  does when it runs again.
\<close>

abbreviation (input) T_SYSCALL :: u32 where "T_SYSCALL \<equiv> 64"
abbreviation (input) T_IRQ0 :: u32 where "T_IRQ0 \<equiv> 32"

definition tvinit :: "'z kernst_scheme \<Rightarrow> 'z kernst_scheme" where
  "tvinit s =
     s\<lparr>idt := (map (\<lambda>i. SETGATE False (push_bit 3 (of_nat SEG_KCODE)) (vectors s i) 0) [0..<256])
       [64 := SETGATE True (push_bit 3 (of_nat SEG_KCODE)) (vectors s 64) DPL_USER]\<rparr>"

text \<open>The table \<^verbatim>\<open>syscalls\<close>; it has no entry at 0 and ends at 25.\<close>

definition syscalls :: "int \<Rightarrow> ('z kernst_scheme \<Rightarrow> ('z kernst_scheme, int) outcome) option" where
  "syscalls num =
     (if num = 1 then Some sys_fork
      else if num = 2 then Some sys_exit
      else if num = 3 then Some sys_wait
      else if num = 4 then Some sys_pipe
      else if num = 5 then Some sys_read
      else if num = 6 then Some sys_kill
      else if num = 7 then Some sys_exec
      else if num = 8 then Some sys_fstat
      else if num = 9 then Some sys_chdir
      else if num = 10 then Some sys_dup
      else if num = 11 then Some sys_getpid
      else if num = 12 then Some sys_sbrk
      else if num = 13 then Some sys_sleep
      else if num = 14 then Some sys_uptime
      else if num = 15 then Some sys_open
      else if num = 16 then Some sys_write
      else if num = 17 then Some sys_mknod
      else if num = 18 then Some sys_unlink
      else if num = 19 then Some sys_link
      else if num = 20 then Some sys_mkdir
      else if num = 21 then Some sys_close
      else if num = 22 then Some sys_settickets
      else if num = 23 then Some sys_getpinfo
      else if num = 24 then Some sys_mprotect
      else if num = 25 then Some sys_munprotect
      else None)"

definition syscall :: "'z kernst_scheme \<Rightarrow> ('z kernst_scheme, unit) outcome" where
  "syscall s =
     (case curproc s of None \<Rightarrow> Fault 24
      | Some c \<Rightarrow>
        (case syscalls (sint (load32 (mem s) (p_tf (ptable s ! c) + TF_EAX))) of
           Some f \<Rightarrow> bind (f s) (\<lambda>r s. Done () (tf32 TF_EAX (of_int r) c s))
         | None \<Rightarrow> Done () (tf32 TF_EAX (- 1) c (klog ''%d %s: unknown sys call %d'' s))))"

section \<open>Interrupts\<close>

definition kbdintr :: "'z kernst_scheme \<Rightarrow> ('z kernst_scheme, unit) outcome" where
  "kbdintr s =
     (let (cs, shift) = kbd_chars (kbd_in s) (kbd_shift s)
      in consoleintr cs (s\<lparr>kbd_in := [], kbd_shift := shift\<rparr>))"

definition uartintr :: "'z kernst_scheme \<Rightarrow> ('z kernst_scheme, unit) outcome" where
  "uartintr s =
     (if uart s then consoleintr (map uint (uart_in s)) (s\<lparr>uart_in := []\<rparr>) else consoleintr [] s)"

definition timer :: "'z kernst_scheme \<Rightarrow> ('z kernst_scheme, unit) outcome" where
  "timer s =
     (if cpuid s = 0 then
        bind (lock TICKSLOCK s) (\<lambda>_ s.
        bind (wakeup TICKS (s\<lparr>ticks := ticks s + 1\<rparr>)) (\<lambda>_ s.
        unlock TICKSLOCK s))
      else Done () s)"

definition unexpected :: "u32 \<Rightarrow> 'z procst_scheme \<Rightarrow> ('z procst_scheme, unit) outcome" where
  "unexpected tf s =
     (case curproc s of
        None \<Rightarrow> Panic ''trap''
      | Some c \<Rightarrow>
        if load32 (mem s) (tf + TF_CS) AND 3 = 0 then Panic ''trap''
        else Done () (set_proc c (\<lambda>q. q\<lparr>p_killed := True\<rparr>)
          (klog ''pid %d %s: trap %d err %d on cpu %d eip 0x%x addr 0x%x--kill proc'' s)))"

definition interrupt :: "u32 \<Rightarrow> 'z kernst_scheme \<Rightarrow> ('z kernst_scheme, unit) outcome" where
  "interrupt tf s =
     (let trapno = load32 (mem s) (tf + TF_TRAPNO) in
      if trapno = T_IRQ0 + 0 then timer s
      else if trapno = T_IRQ0 + 14 then Done () s
      else if trapno = T_IRQ0 + 14 + 1 then Done () s
      else if trapno = T_IRQ0 + 1 then kbdintr s
      else if trapno = T_IRQ0 + 4 then uartintr s
      else if trapno = T_IRQ0 + 7 \<or> trapno = T_IRQ0 + 31 then Done () (klog ''cpu%d: spurious interrupt at %x:%x'' s)
      else unexpected tf s)"

section \<open>trap\<close>

definition exit_killed :: "u32 \<Rightarrow> 'z filest_scheme \<Rightarrow> ('z filest_scheme, unit) outcome" where
  "exit_killed tf s =
     (case curproc s of None \<Rightarrow> Done () s
      | Some c \<Rightarrow>
        if p_killed (ptable s ! c) \<and> load32 (mem s) (tf + TF_CS) AND 3 = 3 then exit s else Done () s)"

definition trap_back :: "u32 \<Rightarrow> 'z filest_scheme \<Rightarrow> ('z filest_scheme, unit) outcome" where
  "trap_back tf s = exit_killed tf s"

definition trap_syscall :: "u32 \<Rightarrow> 'z kernst_scheme \<Rightarrow> ('z kernst_scheme, unit) outcome" where
  "trap_syscall tf s =
     (case curproc s of None \<Rightarrow> Fault 36
      | Some c \<Rightarrow>
        bind (if p_killed (ptable s ! c) then exit s else Done () s) (\<lambda>_ s.
        bind (syscall (set_proc c (\<lambda>q. q\<lparr>p_tf := tf\<rparr>) s)) (\<lambda>_ s.
        if p_killed (ptable s ! c) then exit s else Done () s)))"

definition trap :: "u32 \<Rightarrow> 'z kernst_scheme \<Rightarrow> ('z kernst_scheme, unit) outcome" where
  "trap tf s =
     (if load32 (mem s) (tf + TF_TRAPNO) = T_SYSCALL then trap_syscall tf s
      else bind (interrupt tf s) (\<lambda>_ s.
        bind (exit_killed tf s) (\<lambda>_ s.
        bind (case curproc s of None \<Rightarrow> Done () s
              | Some c \<Rightarrow> if p_state (ptable s ! c) = RUNNING \<and> load32 (mem s) (tf + TF_TRAPNO) = T_IRQ0 + 0
                  then yield s else Done () s) (\<lambda>_ s.
        trap_back tf s))))"

end
