(* ===== verification/Args.thy ===== *)
theory Args
  imports Sysfile Machine Access Protect
begin

text \<open>
  What the checks of system call arguments guarantee: a buffer that passes \<^verbatim>\<open>argptr\<close> lies in the
  process and above the unmapped first page. The checks of strings and words do not know about that
  page.
\<close>

lemma fetchint_state: "fetchint a s = Done r t \<Longrightarrow> t = s"
  by (auto simp: fetchint_def bind_Done_iff split: option.splits if_splits dest: kread32_state)

lemma argint_state: "argint n s = Done r t \<Longrightarrow> t = s"
  by (auto simp: argint_def split: option.splits dest: fetchint_state)

text \<open>
  (C26) A pointer that \<^verbatim>\<open>argptr\<close> accepts for a buffer of \<open>sz\<close> bytes is at least a page away from 0,
  and the whole buffer lies below the size of the process, without wrap-around of the 32-bit sum.
  Nothing else changes.
\<close>

theorem argptr_in_process:
  assumes "argptr n sz s = Done (Some p) t" and "curproc s = Some c" and "sz < 2 ^ 31"
  shows "t = s \<and> 0 \<le> sz \<and> 4096 \<le> uint p \<and> uint p + sz \<le> uint (p_sz (ptable s ! c))"
proof -
  obtain r u where ru: "argint n s = Done r u"
    and k: "(case r of None \<Rightarrow> Done None u
      | Some i \<Rightarrow> if sint i < 4096 then Done None u
          else if sz < 0 \<or> i \<ge> p_sz (ptable u ! c) \<or> i + of_int sz > p_sz (ptable u ! c) then Done None u
          else Done (Some i) u) = Done (Some p) t"
    using assms(1) unfolding argptr_def assms(2) option.case bind_Done_iff by blast
  from k have r: "r = Some p" "u = t" and p: "4096 \<le> sint p" and sz: "0 \<le> sz"
    and le: "p + of_int sz \<le> p_sz (ptable t ! c)"
    by (simp_all add: not_less split: option.splits if_splits)
  have a: "argint n s = Done (Some p) t" using ru r by simp
  have t: "t = s" by (rule argint_state [OF a])
  have u: "sint p = uint p" "uint p < 2 ^ 31"
    using sint_nonneg_u32 [of p] p by simp_all
  have "uint (p + of_int sz) = uint p + sz"
    using sz assms(3) u(2) by (intro uint_add_of_int) simp_all
  then show ?thesis using t le p sz u(1) by (simp add: word_le_def)
qed

section \<open>A process with a stack page\<close>

text \<open>
  A process of three pages of which only the second is mapped, at physical address \<^verbatim>\<open>0x102000\<close>; its stack
  pointer is \<^verbatim>\<open>0x1000\<close>, and the first argument of its system call is \<open>v\<close>.
\<close>

definition user_mem :: "u32 \<Rightarrow> mem" where
  "user_mem v = store32 (store32 (store32 (store32 (\<lambda>_. 0) 0x80100000 0x101007) 0x80101004 0x102007)
     0x80103044 0x1000) 0x80102004 v"

definition user_machine :: "u32 \<Rightarrow> kernst" where
  "user_machine v = (machine [])\<lparr>mem := user_mem v,
     ptable := (proc_run 1 1 RUNNING)\<lparr>p_sz := 0x3000, p_tf := 0x80103000\<rparr> # replicate 63 proc_zero\<rparr>"

lemma load32_user_mem:
  "load32 (user_mem v) 0x80100000 = 0x101007" "load32 (user_mem v) 0x80101004 = 0x102007"
  "load32 (user_mem v) 0x80103044 = 0x1000" "load32 (user_mem v) 0x80102004 = v" "load32 (user_mem v) 0x80101000 = 0"
  by (simp_all add: user_mem_def load32_store32_apart apart4_def load32_zero)

lemma user_machine_simps:
  "mem (user_machine v) = user_mem v" "cr3 (user_machine v) = 0x100000" "curproc (user_machine v) = Some 0"
  "ptable (user_machine v) ! 0 = (proc_run 1 1 RUNNING)\<lparr>p_sz := 0x3000, p_tf := 0x80103000\<rparr>" "held (user_machine v) = []"
  by (simp_all add: user_machine_def machine_def)

lemma user_xlate:
  "xlate (user_mem v) 0x80100000 0 = None" "xlate (user_mem v) 0x80100000 0x1004 = Some 0x80102004"
  "xlate (user_mem v) 0x80100000 0x1005 = Some 0x80102005" "xlate (user_mem v) 0x80100000 0x1006 = Some 0x80102006"
  "xlate (user_mem v) 0x80100000 0x1007 = Some 0x80102007"
  by (simp_all add: xlate_def pte_of_def pde_of_def PDX_def PTX_def load32_user_mem P2V_def PTE_ADDR_def PTE_FLAGS_def)

lemma user_argint: "argint 0 (user_machine v) = Done (Some v) (user_machine v)"
proof -
  have "kread32 0x1004 (user_machine v) = Done (load32 (user_mem v) 0x80102004) (user_machine v)"
    by (simp add: kread32_def kread8_def user_machine_simps P2V_def user_xlate load32_def)
  then show ?thesis
    by (simp add: argint_def fetchint_def user_machine_simps load32_user_mem proc_run_def)
qed

theorem argptr_in_process_witness:
  "argptr 0 0x100 (user_machine 0x2000) = Done (Some 0x2000) (user_machine 0x2000) \<and>
    4096 \<le> uint (0x2000 :: u32) \<and> uint (0x2000 :: u32) + 0x100 \<le> uint (p_sz (ptable (user_machine 0x2000) ! 0))"
proof -
  have a: "argptr 0 0x100 (user_machine 0x2000) = Done (Some 0x2000) (user_machine 0x2000)"
    by (simp add: argptr_def user_argint user_machine_simps proc_run_def)
  from argptr_in_process [OF a, of 0] a show ?thesis by (simp add: user_machine_simps)
qed

section \<open>Strings on the unmapped page\<close>

text \<open>
  (C27) The page at address 0 is not mapped, but \<^verbatim>\<open>fetchstr\<close> only compares a pointer with the size of the
  process. A process that passes a null pointer as a path makes the kernel itself fault, in each of
  these system calls; \<^verbatim>\<open>trap\<close> then panics.
\<close>

theorem null_path_faults:
  assumes "curproc s = Some c" and "argint 0 s = Done (Some a) s" and "a < p_sz (ptable s ! c)"
    and "a < KERNBASE" and "xlate (mem s) (P2V (cr3 s)) a = None"
  shows "sys_open s = Fault a \<and> sys_unlink s = Fault a \<and> sys_link s = Fault a \<and> sys_exec s = Fault a"
proof -
  have "0 < unat (p_sz (ptable s ! c) - a)"
    using assms(3) by (simp add: unat_gt_0)
  then obtain k where "unat (p_sz (ptable s ! c) - a) = Suc k" by (meson gr0_implies_Suc)
  moreover have "kread8 a s = Fault a" using assms(4,5) by (simp add: kread8_def)
  ultimately have "argstr 0 s = Fault a"
    using assms(1-3) by (simp add: argstr_def fetchstr_def)
  then show ?thesis by (simp add: sys_open_def sys_unlink_def sys_link_def sys_exec_def)
qed

theorem null_path_faults_witness: "sys_open (user_machine 0) = Fault 0"
  using null_path_faults [of "user_machine 0" 0 0] user_argint [of 0]
  by (simp add: user_machine_simps proc_run_def P2V_def user_xlate)

end
