(* ===== verification/Traps.thy ===== *)
theory Traps
  imports Trap Args
begin

text \<open>
  What the trap handler guarantees: which entries of the interrupt table user code may call, what an
  unknown system call does, and who pays for an unexpected trap.
\<close>



text \<open>
  A system call number outside 1 to 25 is refused: the caller gets -1 in \<^verbatim>\<open>eax\<close>, a message is printed,
  and nothing else changes. Every number from 1 to 25 has a handler.
\<close>

theorem syscall_numbers:
  fixes s :: "'z kernst_scheme"
  assumes "curproc s = Some c" and "num = sint (load32 (mem s) (p_tf (ptable s ! c) + TF_EAX))"
  shows "(if 1 \<le> num \<and> num \<le> 25
    then \<exists>f. syscalls num = Some f \<and> syscall s = bind (f s) (\<lambda>r t. Done () (tf32 TF_EAX (of_int r) c t))
    else syscall s = Done () (tf32 TF_EAX (- 1) c (klog ''%d %s: unknown sys call %d'' s)))"
proof -
  have "(syscalls num :: ('z kernst_scheme \<Rightarrow> ('z kernst_scheme, int) outcome) option) \<noteq> None \<longleftrightarrow> 1 \<le> num \<and> num \<le> 25"
  proof
    assume "1 \<le> num \<and> num \<le> 25"
    then have "num \<in> set [1..25]" by simp
    then show "(syscalls num :: ('z kernst_scheme \<Rightarrow> ('z kernst_scheme, int) outcome) option) \<noteq> None"
      by (simp add: upto.simps syscalls_def) blast
  qed (auto simp: syscalls_def split: if_splits)
  then show ?thesis
    using assms by (auto simp: syscall_def)
qed

theorem syscall_numbers_witness:
  "syscall (user_machine 0) = Done () (tf32 TF_EAX (- 1) 0 (klog ''%d %s: unknown sys call %d'' (user_machine 0)))"
proof -
  have "load32 (user_mem 0) 0x8010301C = 0"
    by (simp add: user_mem_def load32_store32_apart apart4_def load32_zero)
  then show ?thesis
    using syscall_numbers [of "user_machine 0" 0 0] by (simp add: user_machine_simps proc_run_def)
qed



end
