(* ===== verification/Cache.thy ===== *)
theory Cache
  imports Bio
begin

text \<open>
  The contract of the block cache, for one process at a time that holds no spin lock: what a block
  contains is the same before and after \<^verbatim>\<open>bread\<close> and \<^verbatim>\<open>brelse\<close>, whether the block is cached or not and
  whichever buffer the cache recycles, and \<^verbatim>\<open>bwrite\<close> brings the disk up to date.

  \<open>blk s bno\<close> is the contents of a block as the kernel sees it. \<open>cache_ok n s\<close> is the invariant, for
  the process with the pid \<open>n\<close>: a buffer is free or held by that process, no block is in two
  buffers, and a free buffer that is not dirty agrees with the disk.
\<close>

definition is_dirty :: "buf \<Rightarrow> bool" where
  "is_dirty q \<longleftrightarrow> bit (b_flags q) 2"

definition is_valid :: "buf \<Rightarrow> bool" where
  "is_valid q \<longleftrightarrow> bit (b_flags q) 1"

definition free_buf :: "buf \<Rightarrow> bool" where
  "free_buf q \<longleftrightarrow> b_refcnt q = 0 \<and> \<not> sl_locked (b_lock q)"

definition held_buf :: "int \<Rightarrow> buf \<Rightarrow> bool" where
  "held_buf n q \<longleftrightarrow> b_refcnt q = 1 \<and> b_lock q = \<lparr>sl_locked = True, sl_pid = n\<rparr>"

definition caches :: "u32 \<Rightarrow> buf \<Rightarrow> bool" where
  "caches bno q \<longleftrightarrow> b_dev q = 1 \<and> b_blockno q = bno"

definition blk :: "'z biost_scheme \<Rightarrow> u32 \<Rightarrow> bytes" where
  "blk s bno = (case find_buf (caches bno) (lru s) (bufs s) of
     Some b \<Rightarrow> b_data (bufs s ! b) | None \<Rightarrow> disk s ! unat bno)"

definition running :: "int \<Rightarrow> 'z procst_scheme \<Rightarrow> bool" where
  "running n s \<longleftrightarrow> held s = [] \<and> (\<exists>p. curproc s = Some p \<and> p < length (ptable s) \<and> p_pid (ptable s ! p) = n)"

definition buf_ok :: "int \<Rightarrow> bytes list \<Rightarrow> buf \<Rightarrow> bool" where
  "buf_ok n d q \<longleftrightarrow> (free_buf q \<or> held_buf n q) \<and> (is_dirty q \<longrightarrow> b_dev q = 1) \<and>
     (b_dev q = 1 \<longrightarrow> is_valid q \<and> unat (b_blockno q) < length d \<and> length (b_data q) = 512 \<and>
       (free_buf q \<and> \<not> is_dirty q \<longrightarrow> b_data q = d ! unat (b_blockno q)))"

definition bufs_ok :: "int \<Rightarrow> buf list \<Rightarrow> bytes list \<Rightarrow> bool" where
  "bufs_ok n bs d \<longleftrightarrow> length bs = 30 \<and> (\<forall>x \<in> set d. length x = 512) \<and> (\<forall>b < 30. buf_ok n d (bs ! b)) \<and>
     (\<forall>b < 30. \<forall>c < 30. \<forall>k. caches k (bs ! b) \<and> caches k (bs ! c) \<longrightarrow> b = c)"

definition cache_ok :: "int \<Rightarrow> 'z biost_scheme \<Rightarrow> bool" where
  "cache_ok n s \<longleftrightarrow> running n s \<and> distinct (lru s) \<and> set (lru s) = {..<30} \<and> bufs_ok n (bufs s) (disk s)"

section \<open>Flags\<close>

lemma flag_bits:
  "f AND 4 = (0 :: u32) \<longleftrightarrow> \<not> bit f 2" "f AND 2 = (0 :: u32) \<longleftrightarrow> \<not> bit f 1"
  "f AND 6 = (2 :: u32) \<longleftrightarrow> bit f 1 \<and> \<not> bit f 2"
proof -
  show d: "f AND 4 = 0 \<longleftrightarrow> \<not> bit f 2" using and_exp_eq_0_iff_not_bit [of f 2] by simp
  show v: "f AND 2 = 0 \<longleftrightarrow> \<not> bit f 1" using and_exp_eq_0_iff_not_bit [of f 1] by simp
  show "f AND 6 = 2 \<longleftrightarrow> bit f 1 \<and> \<not> bit f 2"
  proof
    assume e: "f AND 6 = 2"
    have "bit (f AND 6) 1" "\<not> bit (f AND 6) 2" unfolding e by simp_all
    then show "bit f 1 \<and> \<not> bit f 2" by (simp add: bit_simps)
  next
    assume "bit f 1 \<and> \<not> bit f 2"
    moreover have six: "(6 :: u32) = 2 ^ 1 OR 2 ^ 2" by simp
    have "bit (6 :: u32) n \<longleftrightarrow> n = 1 \<or> n = 2" for n unfolding six bit_or_iff bit_exp_iff by auto
    moreover have "bit (2 :: u32) n \<longleftrightarrow> n = 1" for n
      using bit_exp_iff [where 'a = "32 word", of 1 n] by auto
    ultimately show "f AND 6 = 2" by (intro bit_word_eqI) (auto simp: bit_simps)
  qed
qed

lemma flag_updates [simp]:
  "bit (f OR 4 :: u32) 2" "bit (f OR 4 :: u32) 1 = bit f 1" "bit (f OR 2 :: u32) 2 = bit f 2" "bit (f OR 2 :: u32) 1"
  "\<not> bit (f AND NOT 4 :: u32) 2" "bit (f AND NOT 4 :: u32) 1 = bit f 1"
  by (simp_all add: bit_simps)

lemma flag_updates' [simp]:
  "bit (f OR 2 :: u32) (Suc 0)" "\<not> bit (f AND - 5 :: u32) 2" "bit (f AND - 5 :: u32) (Suc 0) = bit f (Suc 0)"
  using flag_updates(4-6) [of f] by simp_all

section \<open>Locks\<close>

lemma mypid_running: "running n s \<Longrightarrow> mypid s = Done n s"
  by (auto simp: running_def mypid_def)

lemma mypid_locked: "running n s \<Longrightarrow> mypid (s\<lparr>held := h\<rparr>) = Done n (s\<lparr>held := h\<rparr>)"
  by (auto simp: running_def mypid_def)

lemma held_upd_same: "held s = [] \<Longrightarrow> s\<lparr>held := []\<rparr> = s"
  by (metis kbase.surjective kbase.update_convs(1) kbase.select_convs(1))

lemma holdingsleep_running: "running n s \<Longrightarrow> holdingsleep L lk s = Done (sl_locked lk \<and> sl_pid lk = n) s"
  using mypid_locked [of n s "[L]"]
  by (auto simp: holdingsleep_def lock_def unlock_def running_def held_upd_same)

lemma acquiresleep_running:
  "running n s \<Longrightarrow> \<not> sl_locked lk \<Longrightarrow> acquiresleep ch L lk s = Done \<lparr>sl_locked = True, sl_pid = n\<rparr> s"
  using mypid_locked [of n s "[L]"]
  by (auto simp: acquiresleep_def lock_def unlock_def running_def held_upd_same)

lemma running_wakeup1 [simp]: "running n (wakeup1 ch s) = running n s"
  by (auto simp: running_def wakeup1_def)

lemma releasesleep_running:
  "running n s \<Longrightarrow> L \<noteq> PTABLE \<Longrightarrow> releasesleep ch L s = Done \<lparr>sl_locked = False, sl_pid = 0\<rparr> (wakeup1 ch s)"
  by (auto simp: releasesleep_def wakeup_def lock_def unlock_def running_def wakeup1_def held_upd_same)

lemma set_buf_simps [simp]:
  "bufs (set_buf b f s) = (bufs s)[b := f (bufs s ! b)]" "lru (set_buf b f s) = lru s" "disk (set_buf b f s) = disk s"
  "dwrites (set_buf b f s) = dwrites s" "held (set_buf b f s) = held s" "ptable (set_buf b f s) = ptable s"
  "curproc (set_buf b f s) = curproc s"
  by (simp_all add: set_buf_def)

lemma running_bufs [simp]: "running n (s\<lparr>bufs := x\<rparr>) = running n s"
  by (simp add: running_def)

lemma running_set_buf [simp]: "running n (set_buf b f s) = running n s"
  by (simp add: running_def)

lemma set_buf_held: "set_buf b f (s\<lparr>held := h\<rparr>) = (set_buf b f s)\<lparr>held := h\<rparr>"
  by (cases s) (simp add: set_buf_def)

lemma set_buf_set_buf: "b < length (bufs s) \<Longrightarrow> set_buf b f (set_buf b g s) = set_buf b (\<lambda>q. f (g q)) s"
  by (simp add: set_buf_def)

section \<open>Finding buffers\<close>

lemma find_buf_Some: "find_buf P l bs = Some b \<Longrightarrow> b \<in> set l \<and> P (bs ! b)"
  by (induction l) (auto split: if_splits)

lemma find_buf_None: "find_buf P l bs = None \<longleftrightarrow> (\<forall>b \<in> set l. \<not> P (bs ! b))"
  by (induction l) auto

lemma caches_alt: "caches bno = (\<lambda>q. b_dev q = 1 \<and> b_blockno q = bno)"
  by (auto simp: caches_def)

lemma find_caches:
  assumes "cache_ok n s" and "b < 30" and "caches bno (bufs s ! b)"
  shows "find_buf (caches bno) (lru s) (bufs s) = Some b"
proof -
  obtain c where c: "find_buf (caches bno) (lru s) (bufs s) = Some c"
    using find_buf_None [of "caches bno" "lru s" "bufs s"] assms by (cases "find_buf (caches bno) (lru s) (bufs s)") (auto simp: cache_ok_def)
  then have "c < 30" "caches bno (bufs s ! c)" using find_buf_Some [OF c] assms(1) by (auto simp: cache_ok_def)
  then have "c = b" using assms unfolding cache_ok_def bufs_ok_def by blast
  with c show ?thesis by simp
qed

lemma blk_cached: "cache_ok n s \<Longrightarrow> b < 30 \<Longrightarrow> caches bno (bufs s ! b) \<Longrightarrow> blk s bno = b_data (bufs s ! b)"
  using find_caches [of n s b bno] by (simp add: blk_def)

lemma blk_uncached: "cache_ok n s \<Longrightarrow> \<forall>b < 30. \<not> caches bno (bufs s ! b) \<Longrightarrow> blk s bno = disk s ! unat bno"
  using find_buf_None [of "caches bno" "lru s" "bufs s"] by (simp add: blk_def cache_ok_def split: option.splits)

section \<open>bget\<close>

definition mine :: "int \<Rightarrow> sleeplock" where
  "mine n = \<lparr>sl_locked = True, sl_pid = n\<rparr>"

lemma block_lock_running:
  assumes "running n s" and "b < length (bufs s)" and "\<not> sl_locked (b_lock (bufs s ! b))"
  shows "block_lock b (s\<lparr>held := [BCACHE]\<rparr>) = Done b (set_buf b (\<lambda>q. q\<lparr>b_lock := mine n\<rparr>) s)"
proof -
  have "unlock BCACHE (s\<lparr>held := [BCACHE]\<rparr>) = Done () s"
    using assms(1) by (simp add: unlock_def running_def held_upd_same)
  then show ?thesis
    using acquiresleep_running [OF assms(1,3)] by (simp add: block_lock_def mine_def)
qed

lemma bget_hit:
  assumes "cache_ok n s" and "b < 30" and "caches bno (bufs s ! b)" and "free_buf (bufs s ! b)"
  shows "bget 1 bno s = Done b (set_buf b (\<lambda>q. q\<lparr>b_refcnt := 1, b_lock := mine n\<rparr>) s)"
proof -
  have r: "running n s" "held s = []" "b < length (bufs s)" using assms(1,2) by (auto simp: cache_ok_def bufs_ok_def running_def)
  let ?u = "set_buf b (\<lambda>q. q\<lparr>b_refcnt := b_refcnt q + 1\<rparr>) s"
  have "bget 1 bno s = block_lock b (?u\<lparr>held := [BCACHE]\<rparr>)"
    using find_caches [OF assms(1-3)] r(2) by (simp add: bget_def lock_def caches_alt set_buf_held)
  also have "\<dots> = Done b (set_buf b (\<lambda>q. q\<lparr>b_lock := mine n\<rparr>) ?u)"
    using r assms(4) by (intro block_lock_running) (simp_all add: free_buf_def)
  also have "\<dots> = Done b (set_buf b (\<lambda>q. q\<lparr>b_refcnt := 1, b_lock := mine n\<rparr>) s)"
    using r(3) assms(4) by (simp add: set_buf_def free_buf_def)
  finally show ?thesis .
qed

lemma bget_miss:
  assumes "cache_ok n s" and "\<forall>b < 30. \<not> caches bno (bufs s ! b)" and "c < 30" and "free_buf (bufs s ! c)" and "\<not> is_dirty (bufs s ! c)"
  shows "\<exists>b < 30. free_buf (bufs s ! b) \<and> \<not> is_dirty (bufs s ! b) \<and>
    bget 1 bno s = Done b (set_buf b (\<lambda>q. q\<lparr>b_dev := 1, b_blockno := bno, b_flags := 0, b_refcnt := 1, b_lock := mine n\<rparr>) s)"
proof -
  have r: "running n s" "held s = []" "length (bufs s) = 30" "set (lru s) = {..<30}"
    using assms(1) by (auto simp: cache_ok_def bufs_ok_def running_def)
  have none: "find_buf (caches bno) (lru s) (bufs s) = None" using assms(2) r(4) by (simp add: find_buf_None)
  let ?P = "\<lambda>q. b_refcnt q = 0 \<and> b_flags q AND 4 = 0"
  have "find_buf ?P (rev (lru s)) (bufs s) \<noteq> None"
    using assms(3-5) r(4) by (auto simp: find_buf_None flag_bits is_dirty_def free_buf_def)
  then obtain b where b: "find_buf ?P (rev (lru s)) (bufs s) = Some b" by auto
  have b30: "b < 30" and fb: "b_refcnt (bufs s ! b) = 0" "\<not> is_dirty (bufs s ! b)"
    using find_buf_Some [OF b] r(4) by (auto simp: is_dirty_def flag_bits)
  have free: "free_buf (bufs s ! b)"
    using fb(1) b30 assms(1) by (auto simp: cache_ok_def bufs_ok_def buf_ok_def held_buf_def)
  let ?u = "set_buf b (\<lambda>q. q\<lparr>b_dev := 1, b_blockno := bno, b_flags := 0, b_refcnt := 1\<rparr>) s"
  have "bget 1 bno s = block_lock b (?u\<lparr>held := [BCACHE]\<rparr>)"
    using none b r(2) by (simp add: bget_def lock_def caches_alt set_buf_held)
  also have "\<dots> = Done b (set_buf b (\<lambda>q. q\<lparr>b_lock := mine n\<rparr>) ?u)"
    using r b30 free by (intro block_lock_running) (simp_all add: free_buf_def)
  finally show ?thesis using b30 fb free r(3) by (intro exI [of _ b]) (simp add: set_buf_set_buf)
qed

section \<open>The invariant under a change of one buffer\<close>

lemma cache_okD:
  assumes "cache_ok n s"
  shows "running n s" "distinct (lru s)" "set (lru s) = {..<30}" "length (bufs s) = 30" "x \<in> set (disk s) \<Longrightarrow> length x = 512"
    and "b < 30 \<Longrightarrow> free_buf (bufs s ! b) \<or> held_buf n (bufs s ! b)"
    and "b < 30 \<Longrightarrow> is_dirty (bufs s ! b) \<Longrightarrow> b_dev (bufs s ! b) = 1"
    and "b < 30 \<Longrightarrow> caches k (bufs s ! b) \<Longrightarrow> is_valid (bufs s ! b) \<and> unat k < length (disk s) \<and> length (b_data (bufs s ! b)) = 512"
    and "b < 30 \<Longrightarrow> caches k (bufs s ! b) \<Longrightarrow> free_buf (bufs s ! b) \<Longrightarrow> \<not> is_dirty (bufs s ! b) \<Longrightarrow>
          b_data (bufs s ! b) = disk s ! unat k"
    and "b < 30 \<Longrightarrow> c < 30 \<Longrightarrow> caches k (bufs s ! b) \<Longrightarrow> caches k (bufs s ! c) \<Longrightarrow> b = c"
  using assms unfolding cache_ok_def bufs_ok_def buf_ok_def caches_def by blast+

lemma bufs_ok_change:
  assumes ok: "bufs_ok n bs d" and q: "buf_ok n d' q"
    and sep: "\<And>c k. c < 30 \<Longrightarrow> c \<noteq> b \<Longrightarrow> caches k q \<Longrightarrow> \<not> caches k (bs ! c)"
    and d': "length d' = length d" "\<forall>x \<in> set d'. length x = 512"
      "\<And>c. c < 30 \<Longrightarrow> c \<noteq> b \<Longrightarrow> b_dev (bs ! c) = 1 \<Longrightarrow> d' ! unat (b_blockno (bs ! c)) = d ! unat (b_blockno (bs ! c))"
  shows "bufs_ok n (bs[b := q]) d'"
proof -
  have len: "length bs = 30" and all: "\<And>c. c < 30 \<Longrightarrow> buf_ok n d (bs ! c)"
    and inj: "\<And>c e k. c < 30 \<Longrightarrow> e < 30 \<Longrightarrow> caches k (bs ! c) \<Longrightarrow> caches k (bs ! e) \<Longrightarrow> c = e"
    using ok unfolding bufs_ok_def by blast+
  have all': "buf_ok n d' (bs ! c)" if "c < 30" "c \<noteq> b" for c
    using all [OF that(1)] d'(1) d'(3) [OF that] by (simp add: buf_ok_def)
  have nth: "c < 30 \<Longrightarrow> bs[b := q] ! c = (if c = b then q else bs ! c)" for c using len by (simp add: nth_list_update)
  have "c = e" if "c < 30" "e < 30" "caches k (bs[b := q] ! c)" "caches k (bs[b := q] ! e)" for c e k
    using that inj [of c e k] sep [of c k] sep [of e k] by (simp add: nth split: if_splits)
  then have "\<forall>c < 30. \<forall>e < 30. \<forall>k. caches k (bs[b := q] ! c) \<and> caches k (bs[b := q] ! e) \<longrightarrow> c = e" by blast
  moreover have "\<forall>c < 30. buf_ok n d' (bs[b := q] ! c)" by (simp add: nth all' q)
  ultimately show ?thesis unfolding bufs_ok_def using len d'(2) by simp
qed

lemma bufs_ok_update:
  "bufs_ok n bs d \<Longrightarrow> buf_ok n d q \<Longrightarrow> (\<And>c k. c < 30 \<Longrightarrow> c \<noteq> b \<Longrightarrow> caches k q \<Longrightarrow> \<not> caches k (bs ! c)) \<Longrightarrow> bufs_ok n (bs[b := q]) d"
  by (rule bufs_ok_change) (simp_all add: bufs_ok_def)

lemma blk_frame:
  assumes "cache_ok n s" and "cache_ok m t" and "disk t = disk s" and "b < 30"
    and same: "\<And>c. c < 30 \<Longrightarrow> c \<noteq> b \<Longrightarrow> bufs t ! c = bufs s ! c"
    and new: "caches bno (bufs t ! b)" "b_data (bufs t ! b) = blk s bno"
    and old: "caches bno (bufs s ! b) \<or> free_buf (bufs s ! b) \<and> \<not> is_dirty (bufs s ! b)"
  shows "blk t k = blk s k"
proof (cases "\<exists>c < 30. caches k (bufs t ! c)")
  case True
  then obtain c where c: "c < 30" "caches k (bufs t ! c)" by blast
  show ?thesis
  proof (cases "c = b")
    case True
    then show ?thesis using c new blk_cached [OF assms(2) c] by (simp add: caches_def)
  next
    case False
    then show ?thesis using same c blk_cached [OF assms(2) c] blk_cached [OF assms(1), of c k] by simp
  qed
next
  case False
  then have u: "blk t k = disk s ! unat k" using blk_uncached [OF assms(2)] assms(3) by auto
  show ?thesis
  proof (cases "caches k (bufs s ! b)")
    case True
    then have "\<not> caches bno (bufs s ! b)" using False new(1) assms(4) by (auto simp: caches_def)
    then show ?thesis using u True old blk_cached [OF assms(1,4) True] cache_okD(9) [OF assms(1,4) True] by simp
  next
    case no: False
    then have "\<forall>c < 30. \<not> caches k (bufs s ! c)" using False same by metis
    then show ?thesis using u blk_uncached [OF assms(1)] by simp
  qed
qed

section \<open>bread\<close>

text \<open>The parts of the state that the cache changes.\<close>

definition cache_step :: "'z biost_scheme \<Rightarrow> 'z biost_scheme \<Rightarrow> bool" where
  "cache_step s t \<longleftrightarrow> t = s\<lparr>ptable := ptable t, bufs := bufs t, lru := lru t, disk := disk t, dwrites := dwrites t\<rparr>"

lemma cache_step_refl [simp]: "cache_step s s"
  by (simp add: cache_step_def)

lemma cache_step_trans: "cache_step s t \<Longrightarrow> cache_step t u \<Longrightarrow> cache_step s u"
  unfolding cache_step_def by (cases s; cases t; cases u) simp

lemma cache_step_set_buf [simp]: "cache_step s (set_buf b f s)"
  by (cases s) (simp add: cache_step_def set_buf_def)

lemma cache_step_iff:
  "cache_step s t \<longleftrightarrow> (\<exists>p q l d w. t = s\<lparr>ptable := p, bufs := q, lru := l, disk := d, dwrites := w\<rparr>)"
proof
  assume "cache_step s t"
  then show "\<exists>p q l d w. t = s\<lparr>ptable := p, bufs := q, lru := l, disk := d, dwrites := w\<rparr>"
    unfolding cache_step_def by blast
next
  assume "\<exists>p q l d w. t = s\<lparr>ptable := p, bufs := q, lru := l, disk := d, dwrites := w\<rparr>"
  then show "cache_step s t" by (auto simp: cache_step_def)
qed

text \<open>What \<^verbatim>\<open>bread\<close> leaves: the buffer \<open>b\<close> is held and contains the block; nothing else is different.\<close>

definition bread_post :: "int \<Rightarrow> u32 \<Rightarrow> nat \<Rightarrow> 'z biost_scheme \<Rightarrow> 'z biost_scheme \<Rightarrow> bool" where
  "bread_post n bno b s t \<longleftrightarrow> cache_ok n t \<and> b < 30 \<and> free_buf (bufs s ! b) \<and> caches bno (bufs t ! b) \<and> held_buf n (bufs t ! b) \<and>
     b_data (bufs t ! b) = blk s bno \<and> disk t = disk s \<and> dwrites t = dwrites s \<and> cache_step s t \<and>
     is_dirty (bufs t ! b) = is_dirty (bufs s ! b) \<and> (is_dirty (bufs s ! b) \<longrightarrow> caches bno (bufs s ! b)) \<and> (is_dirty (bufs t ! b) \<or> b_data (bufs t ! b) = disk t ! unat bno) \<and>
     (\<forall>c < 30. c \<noteq> b \<longrightarrow> bufs t ! c = bufs s ! c) \<and> (\<forall>k. blk t k = blk s k)"

lemma bread_postI:
  fixes f :: "buf \<Rightarrow> buf"
  assumes "cache_ok n s" and "b < 30" and "free_buf (bufs s ! b)" and "t = set_buf b f s"
    and "caches bno (f (bufs s ! b))" "held_buf n (f (bufs s ! b))" "is_valid (f (bufs s ! b))" "b_data (f (bufs s ! b)) = blk s bno"
    and "is_dirty (f (bufs s ! b)) = is_dirty (bufs s ! b)" and "unat bno < length (disk s)" "length (blk s bno) = 512"
    and "\<And>c. c < 30 \<Longrightarrow> c \<noteq> b \<Longrightarrow> \<not> caches bno (bufs s ! c)"
    and "caches bno (bufs s ! b) \<or> \<not> is_dirty (bufs s ! b)"
  shows "bread_post n bno b s t"
proof -
  let ?q = "f (bufs s ! b)"
  have len: "length (bufs s) = 30" using assms(1) by (rule cache_okD)
  have "\<not> free_buf ?q" using assms(6) by (simp add: free_buf_def held_buf_def)
  then have "buf_ok n (disk s) ?q" using assms(5-11) by (auto simp: buf_ok_def caches_def)
  moreover have "\<not> caches k (bufs s ! c)" if "c < 30" "c \<noteq> b" "caches k ?q" for c k
    using assms(12) [OF that(1,2)] assms(5) that(3) by (simp add: caches_def)
  ultimately have "bufs_ok n (bufs t) (disk t)" using bufs_ok_update [of n "bufs s" "disk s"] assms(1,4) by (simp add: cache_ok_def)
  then have ok: "cache_ok n t" using assms(1,4) by (simp add: cache_ok_def)
  have "blk t k = blk s k" for k
    using assms len by (intro blk_frame [OF assms(1) ok _ assms(2), where bno = bno]) auto
  moreover have "is_dirty ?q \<or> b_data ?q = disk s ! unat bno"
  proof (cases "caches bno (bufs s ! b)")
    case True
    then show ?thesis using assms(3,8,9) cache_okD(9) [OF assms(1,2) True] blk_cached [OF assms(1,2) True] by metis
  next
    case False
    then have "\<forall>c < 30. \<not> caches bno (bufs s ! c)" using assms(12) by blast
    then show ?thesis using assms(8) blk_uncached [OF assms(1)] by simp
  qed
  ultimately show ?thesis unfolding bread_post_def using assms ok len by auto
qed

lemma free_clean_exists:
  assumes "card {b. b < 30 \<and> (is_dirty (bufs s ! b) \<or> \<not> free_buf (bufs s ! b))} < 30"
  shows "\<exists>c < 30. free_buf (bufs s ! c) \<and> \<not> is_dirty (bufs s ! c)"
proof (rule ccontr)
  assume "\<not> ?thesis"
  then have "{b. b < 30 \<and> (is_dirty (bufs s ! b) \<or> \<not> free_buf (bufs s ! b))} = {..<30}" by auto
  with assms show False by simp
qed

lemma iderw_read:
  assumes "running n s" and "b < length (bufs s)" and "b_lock (bufs s ! b) = mine n" and "b_flags (bufs s ! b) = 0"
    and "b_dev (bufs s ! b) = 1" and "unat (b_blockno (bufs s ! b)) < length (disk s)"
  shows "iderw b s = Done () (set_buf b (\<lambda>q. q\<lparr>b_data := disk s ! unat (b_blockno q), b_flags := 2\<rparr>) s)"
  using assms holdingsleep_running [OF assms(1), of "BUFLK b" "b_lock (bufs s ! b)"]
  by (simp add: iderw_def mine_def set_buf_def Let_def)

lemma bread_spec:
  assumes ok: "cache_ok n s" and r: "unat bno < length (disk s)"
    and room: "(\<exists>b < 30. caches bno (bufs s ! b)) \<or> card {b. b < 30 \<and> (is_dirty (bufs s ! b) \<or> \<not> free_buf (bufs s ! b))} < 30"
    and nh: "\<And>b. b < 30 \<Longrightarrow> caches bno (bufs s ! b) \<Longrightarrow> free_buf (bufs s ! b)"
  shows "\<exists>b t. bread 1 bno s = Done b t \<and> bread_post n bno b s t"
proof (cases "\<exists>b < 30. caches bno (bufs s ! b)")
  case True
  then obtain b where b: "b < 30" "caches bno (bufs s ! b)" by blast
  have v: "is_valid (bufs s ! b)" "length (b_data (bufs s ! b)) = 512" using cache_okD(8) [OF ok b] by simp_all
  let ?t = "set_buf b (\<lambda>q. q\<lparr>b_refcnt := 1, b_lock := mine n\<rparr>) s"
  have len: "length (bufs s) = 30" using ok by (rule cache_okD)
  have "bread 1 bno s = Done b ?t"
    using bget_hit [OF ok b nh [OF b]] v b len by (simp add: bread_def flag_bits is_valid_def)
  moreover have "bread_post n bno b s ?t"
  proof (rule bread_postI [OF ok b(1) nh [OF b] refl])
    show "\<not> caches bno (bufs s ! c)" if "c < 30" "c \<noteq> b" for c using cache_okD(10) [OF ok that(1) b(1) _ b(2)] that by blast
  qed (use b(2) v r blk_cached [OF ok b] in \<open>simp_all add: caches_def held_buf_def mine_def is_valid_def is_dirty_def\<close>)
  ultimately show ?thesis by blast
next
  case False
  then have no: "\<forall>b < 30. \<not> caches bno (bufs s ! b)" by blast
  obtain c where "c < 30" "free_buf (bufs s ! c)" "\<not> is_dirty (bufs s ! c)" using free_clean_exists room no by blast
  from bget_miss [OF ok no this] obtain b where b: "b < 30" "free_buf (bufs s ! b)" "\<not> is_dirty (bufs s ! b)"
    and g: "bget 1 bno s = Done b (set_buf b (\<lambda>q. q\<lparr>b_dev := 1, b_blockno := bno, b_flags := 0, b_refcnt := 1, b_lock := mine n\<rparr>) s)"
    by blast
  have len: "length (bufs s) = 30" and run: "running n s" using ok by (auto simp: cache_okD)
  have two: "bit (2 :: u32) 1" "\<not> bit (2 :: u32) 2" using bit_exp_iff [where 'a = "32 word", of 1] by auto
  let ?f = "\<lambda>q. q\<lparr>b_dev := 1, b_blockno := bno, b_refcnt := 1, b_lock := mine n, b_data := disk s ! unat bno, b_flags := 2\<rparr>"
  have "bread 1 bno s = Done b (set_buf b ?f s)"
    using g b len run r by (simp add: bread_def iderw_read [of n] set_buf_set_buf)
  moreover have "bread_post n bno b s (set_buf b ?f s)"
    using b(3) r blk_uncached [OF ok no] cache_okD(5) [OF ok, of "disk s ! unat bno"] two
    by (intro bread_postI [OF ok b(1,2) refl]) (simp_all add: caches_def held_buf_def mine_def is_valid_def is_dirty_def no [unfolded caches_def])
  ultimately show ?thesis by blast
qed

section \<open>bwrite and brelse\<close>

lemma held_change:
  assumes ok: "cache_ok n s" and b: "b < 30" and old: "caches bno (bufs s ! b)" and new: "caches bno q" "buf_ok n (disk t) q"
    and t: "bufs t = (bufs s)[b := q]" "running n t" "distinct (lru t)" "set (lru t) = {..<30}"
      "length (disk t) = length (disk s)" "\<forall>x \<in> set (disk t). length x = 512"
    and same: "\<And>k. k \<noteq> bno \<Longrightarrow> disk t ! unat k = disk s ! unat k"
  shows "cache_ok n t" and "blk t k = (if k = bno then b_data q else blk s k)"
proof -
  have sep: "\<not> caches k (bufs s ! c)" if "c < 30" "c \<noteq> b" "caches k q" for c k
    using cache_okD(10) [OF ok that(1) b _ old] that new(1) by (auto simp: caches_def)
  have "disk t ! unat (b_blockno (bufs s ! c)) = disk s ! unat (b_blockno (bufs s ! c))" if "c < 30" "c \<noteq> b" "b_dev (bufs s ! c) = 1" for c
    using sep [OF that(1,2) new(1)] that(3) by (intro same) (auto simp: caches_def)
  then show okt: "cache_ok n t"
    using bufs_ok_change [OF _ new(2) sep t(5,6)] ok t by (simp add: cache_ok_def)
  have len: "length (bufs s) = 30" using ok by (rule cache_okD)
  show "blk t k = (if k = bno then b_data q else blk s k)"
  proof (cases "k = bno")
    case True
    then show ?thesis using blk_cached [OF okt b, of k] t(1) new(1) len b by simp
  next
    case False
    have u: "caches k (bufs t ! c) = caches k (bufs s ! c)" "c \<noteq> b \<Longrightarrow> bufs t ! c = bufs s ! c" if "c < 30" for c
      using that t(1) new(1) old len False by (cases "c = b"; simp add: caches_def)+
    have "c \<noteq> b" if "caches k (bufs s ! c)" for c using that old False by (auto simp: caches_def)
    then show ?thesis using u blk_cached [OF okt, of _ k] blk_cached [OF ok, of _ k] blk_uncached [OF okt, of k] blk_uncached [OF ok, of k] same [OF False] False
      by (cases "\<exists>c < 30. caches k (bufs s ! c)") auto
  qed
qed

lemma iderw_write:
  assumes "running n s" and "b < length (bufs s)" and "b_lock (bufs s ! b) = mine n" and "is_dirty (bufs s ! b)"
    and "b_dev (bufs s ! b) = 1" and "unat (b_blockno (bufs s ! b)) < length (disk s)"
  shows "iderw b s = Done () (set_buf b (\<lambda>q. q\<lparr>b_flags := (b_flags q AND NOT 4) OR 2\<rparr>)
    (s\<lparr>disk := (disk s)[unat (b_blockno (bufs s ! b)) := b_data (bufs s ! b)],
       dwrites := dwrites s @ [(b_blockno (bufs s ! b), b_data (bufs s ! b))]\<rparr>))"
proof -
  have "s\<lparr>bufs := x, disk := d, dwrites := w, bufs := y\<rparr> = s\<lparr>disk := d, dwrites := w, bufs := y\<rparr>" for x y d w
    by (cases s) simp
  then show ?thesis
    using assms holdingsleep_running [OF assms(1), of "BUFLK b" "b_lock (bufs s ! b)"]
    by (simp add: iderw_def mine_def set_buf_def Let_def flag_bits is_dirty_def)
qed

text \<open>
  What the operations on a held buffer leave: \<open>f\<close> is the change of the buffer, \<open>v\<close> what the block
  contains afterwards, and the disk is \<open>d\<close>.
\<close>

definition held_post :: "int \<Rightarrow> u32 \<Rightarrow> nat \<Rightarrow> bytes \<Rightarrow> bytes list \<Rightarrow> 'z biost_scheme \<Rightarrow> 'z biost_scheme \<Rightarrow> bool" where
  "held_post n bno b v d s t \<longleftrightarrow> cache_ok n t \<and> caches bno (bufs t ! b) \<and> b_data (bufs t ! b) = v \<and>
     disk t = d \<and> cache_step s t \<and> (\<forall>c < 30. c \<noteq> b \<longrightarrow> bufs t ! c = bufs s ! c) \<and> (\<forall>k. blk t k = (if k = bno then v else blk s k))"

lemma held_bufD:
  assumes "cache_ok n s" and "b < 30" and "caches bno (bufs s ! b)" and "held_buf n (bufs s ! b)"
  shows "\<not> free_buf (bufs s ! b)" "b < length (bufs s)" "b_lock (bufs s ! b) = mine n" "b_dev (bufs s ! b) = 1"
    "b_blockno (bufs s ! b) = bno" "unat bno < length (disk s)" "length (b_data (bufs s ! b)) = 512" "is_valid (bufs s ! b)"
    "b_refcnt (bufs s ! b) = 1"
  using assms cache_okD(4) [OF assms(1)] cache_okD(8) [OF assms(1-3)]
  by (simp_all add: held_buf_def free_buf_def caches_def mine_def)

lemma put_data_spec:
  assumes ok: "cache_ok n s" and b: "b < 30" "caches bno (bufs s ! b)" "held_buf n (bufs s ! b)" and v: "length v = 512"
    and t: "t = set_buf b (\<lambda>q. q\<lparr>b_data := v\<rparr>) s"
  shows "held_post n bno b v (disk s) s t" and "held_buf n (bufs t ! b)" and "dwrites t = dwrites s"
proof -
  note h = held_bufD [OF ok b]
  let ?q = "(bufs s ! b)\<lparr>b_data := v\<rparr>"
  have q: "caches bno ?q" "buf_ok n (disk t) ?q"
    using b h v t by (simp_all add: buf_ok_def caches_def is_valid_def is_dirty_def free_buf_def held_buf_def mine_def)
  have s: "bufs t = (bufs s)[b := ?q]" "running n t" "distinct (lru t)" "set (lru t) = {..<30}" "length (disk t) = length (disk s)"
    "\<forall>x \<in> set (disk t). length x = 512"
    using t cache_okD [OF ok] by simp_all
  show "held_post n bno b v (disk s) s t" unfolding held_post_def
    using held_change [OF ok b(1,2) q s] t h(2) q(1) cache_step_set_buf by simp
  show "held_buf n (bufs t ! b)" "dwrites t = dwrites s" using t b h by (simp_all add: held_buf_def)
qed

lemma bwrite_spec:
  assumes ok: "cache_ok n s" and b: "b < 30" "caches bno (bufs s ! b)" "held_buf n (bufs s ! b)"
  shows "\<exists>t. bwrite b s = Done () t \<and> held_post n bno b (b_data (bufs s ! b)) ((disk s)[unat bno := b_data (bufs s ! b)]) s t \<and>
    held_buf n (bufs t ! b) \<and> \<not> is_dirty (bufs t ! b) \<and> dwrites t = dwrites s @ [(bno, b_data (bufs s ! b))]"
proof -
  note h = held_bufD [OF ok b]
  let ?v = "b_data (bufs s ! b)"
  let ?q = "(bufs s ! b)\<lparr>b_flags := ((b_flags (bufs s ! b) OR 4) AND NOT 4) OR 2\<rparr>"
  let ?t = "s\<lparr>bufs := (bufs s)[b := ?q], disk := (disk s)[unat bno := ?v], dwrites := dwrites s @ [(bno, ?v)]\<rparr>"
  have run: "running n s" using ok by (rule cache_okD)
  have "bwrite b s = iderw b (set_buf b (\<lambda>q. q\<lparr>b_flags := b_flags q OR 4\<rparr>) s)"
    using holdingsleep_running [OF run] h(3) by (simp add: bwrite_def mine_def)
  also have "\<dots> = Done () ?t"
    using run h by (subst iderw_write [where n = n]) (simp_all add: is_dirty_def set_buf_def)
  finally have w: "bwrite b s = Done () ?t" .
  have q: "caches bno ?q" "buf_ok n (disk ?t) ?q" "b_data ?q = ?v" "held_buf n ?q" "\<not> is_dirty ?q"
    using b h by (simp_all add: buf_ok_def caches_def is_valid_def is_dirty_def free_buf_def held_buf_def mine_def)
  have s: "bufs ?t = (bufs s)[b := ?q]" "running n ?t" "distinct (lru ?t)" "set (lru ?t) = {..<30}" "length (disk ?t) = length (disk s)"
    "\<forall>x \<in> set (disk ?t). length x = 512"
    using cache_okD(1-5) [OF ok] h(7) by (auto simp: running_def dest: set_update_subset_insert [THEN subsetD])
  have k: "disk ?t ! unat k = disk s ! unat k" if "k \<noteq> bno" for k
    using that word_unat_eq_iff [of k bno] by simp
  have cs: "cache_step s ?t" unfolding cache_step_iff by (intro exI [of _ "ptable s"]) (cases s; auto)
  show ?thesis unfolding held_post_def
    using held_change [OF ok b(1,2) q(1,2) s k] w q(1,3-5) h(2) cs by (intro exI [of _ ?t]) simp
qed

lemma brelse_spec:
  assumes ok: "cache_ok n s" and b: "b < 30" "caches bno (bufs s ! b)" "held_buf n (bufs s ! b)"
    and clean: "is_dirty (bufs s ! b) \<or> b_data (bufs s ! b) = disk s ! unat bno"
  shows "\<exists>t. brelse b s = Done () t \<and> held_post n bno b (b_data (bufs s ! b)) (disk s) s t \<and> free_buf (bufs t ! b) \<and>
    is_dirty (bufs t ! b) = is_dirty (bufs s ! b) \<and> dwrites t = dwrites s"
proof -
  note h = held_bufD [OF ok b]
  let ?q = "(bufs s ! b)\<lparr>b_lock := \<lparr>sl_locked = False, sl_pid = 0\<rparr>, b_refcnt := 0\<rparr>"
  let ?w = "wakeup1 (BUFLOCK b) s"
  let ?t = "?w\<lparr>bufs := (bufs s)[b := ?q], lru := b # remove1 b (lru s)\<rparr>"
  have run: "running n s" "running n ?w" using cache_okD(1) [OF ok] by simp_all
  have hd: "held s = []" using run(1) by (simp add: running_def)
  have "brelse b s = bind (lock BCACHE (set_buf b (\<lambda>q. q\<lparr>b_lock := \<lparr>sl_locked = False, sl_pid = 0\<rparr>\<rparr>) ?w)) (\<lambda>_ s.
       let s = set_buf b (\<lambda>q. q\<lparr>b_refcnt := b_refcnt q - 1\<rparr>) s;
           s = (if b_refcnt (bufs s ! b) = 0 then s\<lparr>lru := b # remove1 b (lru s)\<rparr> else s)
       in unlock BCACHE s)"
    using holdingsleep_running [OF run(1)] releasesleep_running [OF run(1)] h(3) by (simp add: brelse_def mine_def)
  also have "\<dots> = Done () ?t"
    using h hd by (cases s) (simp add: lock_def unlock_def set_buf_def wakeup1_def Let_def)
  finally have w: "brelse b s = Done () ?t" .
  have q: "caches bno ?q" "buf_ok n (disk ?t) ?q" "b_data ?q = b_data (bufs s ! b)" "free_buf ?q" "is_dirty ?q = is_dirty (bufs s ! b)"
    using b h clean by (auto simp: buf_ok_def caches_def is_valid_def is_dirty_def free_buf_def held_buf_def mine_def wakeup1_def)
  have s: "bufs ?t = (bufs s)[b := ?q]" "running n ?t" "distinct (lru ?t)" "set (lru ?t) = {..<30}" "length (disk ?t) = length (disk s)"
    "\<forall>x \<in> set (disk ?t). length x = 512"
    using cache_okD(1-5) [OF ok] run b(1) by (auto simp: running_def wakeup1_def)
  have cs: "cache_step s ?t" by (cases s) (simp add: cache_step_def wakeup1_def)
  show ?thesis unfolding held_post_def
    using held_change [OF ok b(1,2) q(1,2) s] w q(1,3-5) h(2) cs by (intro exI [of _ ?t]) (simp add: wakeup1_def)
qed

section \<open>The interface of a block store\<close>

text \<open>The disk after a sequence of block writes.\<close>

definition apply_writes :: "bytes list \<Rightarrow> (u32 \<times> bytes) list \<Rightarrow> bytes list" where
  "apply_writes d ws = fold (\<lambda>(x, v) d. d[unat x := v]) ws d"

definition view_writes :: "(u32 \<Rightarrow> bytes) \<Rightarrow> (u32 \<times> bytes) list \<Rightarrow> u32 \<Rightarrow> bytes" where
  "view_writes f ws = fold (\<lambda>(x, v) f. f(x := v)) ws f"

lemma apply_writes_simps [simp]:
  "apply_writes d [] = d" "apply_writes d ((x, v) # ws) = apply_writes (d[unat x := v]) ws"
  "apply_writes d (ws @ vs) = apply_writes (apply_writes d ws) vs" "length (apply_writes d ws) = length d"
proof -
  show "length (apply_writes d ws) = length d" by (induction ws arbitrary: d) (auto simp: apply_writes_def)
qed (simp_all add: apply_writes_def)

lemma view_writes_simps [simp]:
  "view_writes f [] = f" "view_writes f ((x, v) # ws) = view_writes (f(x := v)) ws"
  "view_writes f (ws @ vs) = view_writes (view_writes f ws) vs"
  by (simp_all add: view_writes_def)

text \<open>
  What a client of the cache relies on. The map \<open>h\<close> of \<open>ok s h\<close> gives the block of each buffer that
  the client holds, and whether the client changed it and has to write it before it gives it back.
  \<open>cell\<close> is the contents of a block, \<open>cells\<close> the disk, \<open>hist\<close> the writes that the disk has done and
  \<open>pinned\<close> the blocks that wait to be written, whose buffers the cache cannot recycle.
\<close>

locale block_store =
  fixes rd :: "u32 \<Rightarrow> 's \<Rightarrow> ('s, nat) outcome" and put :: "nat \<Rightarrow> bytes \<Rightarrow> 's \<Rightarrow> 's"
    and wr rel :: "nat \<Rightarrow> 's \<Rightarrow> ('s, unit) outcome"
    and ok :: "'s \<Rightarrow> (nat \<rightharpoonup> u32 \<times> bool) \<Rightarrow> bool" and data :: "'s \<Rightarrow> nat \<Rightarrow> bytes"
    and cell :: "'s \<Rightarrow> u32 \<Rightarrow> bytes" and cells :: "'s \<Rightarrow> bytes list" and hist :: "'s \<Rightarrow> (u32 \<times> bytes) list"
    and pinned :: "'s \<Rightarrow> u32 set" and frame :: "'s \<Rightarrow> 's \<Rightarrow> bool"
  assumes read_law: "ok s h \<Longrightarrow> unat x < length (cells s) \<Longrightarrow> (\<And>b m. h b \<noteq> Some (x, m)) \<Longrightarrow> x \<in> pinned s \<or> card (pinned s \<union> fst ` ran h) < 30 \<Longrightarrow>
      \<exists>b t. rd x s = Done b t \<and> h b = None \<and> ok t (h(b \<mapsto> (x, False))) \<and> cell t = cell s \<and> cells t = cells s \<and>
        hist t = hist s \<and> pinned t = pinned s \<and> frame s t"
    and put_law: "ok s h \<Longrightarrow> h b = Some (x, m) \<Longrightarrow> length v = 512 \<Longrightarrow>
      ok (put b v s) (h(b \<mapsto> (x, True))) \<and> cell (put b v s) = (cell s)(x := v) \<and> cells (put b v s) = cells s \<and>
      hist (put b v s) = hist s \<and> pinned (put b v s) = pinned s \<and> frame s (put b v s)"
    and write_law: "ok s h \<Longrightarrow> h b = Some (x, m) \<Longrightarrow>
      \<exists>t. wr b s = Done () t \<and> ok t (h(b \<mapsto> (x, False))) \<and> cell t = cell s \<and> cells t = (cells s)[unat x := cell s x] \<and>
        hist t = hist s @ [(x, cell s x)] \<and> pinned t = pinned s - {x} \<and> frame s t"
    and release_law: "ok s h \<Longrightarrow> h b = Some (x, False) \<Longrightarrow>
      \<exists>t. rel b s = Done () t \<and> ok t (h(b := None)) \<and> cell t = cell s \<and> cells t = cells s \<and> hist t = hist s \<and>
        pinned t = pinned s \<and> frame s t"
    and data_law: "ok s h \<Longrightarrow> h b = Some (x, m) \<Longrightarrow> data s b = cell s x \<and> length (data s b) = 512"
    and frame_trans: "frame s t \<Longrightarrow> frame t u \<Longrightarrow> frame s u"
    and pinned_finite: "ok s h \<Longrightarrow> finite (pinned s)"
begin

text \<open>From \<open>s\<close> to \<open>t\<close>, with no buffer held in either, the blocks \<open>ws\<close> were written, and nothing else.\<close>

definition wrote :: "(u32 \<times> bytes) list \<Rightarrow> 's \<Rightarrow> 's \<Rightarrow> bool" where
  "wrote ws s t \<longleftrightarrow> ok t Map.empty \<and> cell t = view_writes (cell s) ws \<and> cells t = apply_writes (cells s) ws \<and>
     hist t = hist s @ ws \<and> pinned t = pinned s - fst ` set ws \<and> frame s t"

lemma wrote_trans: "wrote ws s t \<Longrightarrow> wrote vs t u \<Longrightarrow> wrote (ws @ vs) s u"
  unfolding wrote_def using frame_trans by auto

lemma read_only:
  assumes "ok s Map.empty" and "unat x < length (cells s)" and "card (pinned s) \<le> 29"
  shows "\<exists>b t. rd x s = Done b t \<and> ok t [b \<mapsto> (x, False)] \<and> cell t = cell s \<and> cells t = cells s \<and> hist t = hist s \<and>
    pinned t = pinned s \<and> frame s t"
  using read_law [OF assms(1,2)] assms(3) by (auto simp: ran_def)

lemma read_two:
  assumes "ok s Map.empty" and "unat x < length (cells s)" and "unat y < length (cells s)" and "x \<noteq> y"
    and "card (pinned s) \<le> 29" and "y \<in> pinned s \<or> card (pinned s) \<le> 28"
  shows "\<exists>b t c u. rd x s = Done b t \<and> rd y t = Done c u \<and> b \<noteq> c \<and> ok u [b \<mapsto> (x, False), c \<mapsto> (y, False)] \<and>
    cell u = cell s \<and> cells u = cells s \<and> hist u = hist s \<and> pinned u = pinned s \<and> frame s t \<and> frame s u"
proof -
  obtain b t where t: "rd x s = Done b t" "ok t [b \<mapsto> (x, False)]" "cell t = cell s" "cells t = cells s" "hist t = hist s"
    "pinned t = pinned s" "frame s t"
    using read_only [OF assms(1,2,5)] by auto
  have "y \<in> pinned t \<or> card (pinned t \<union> fst ` ran [b \<mapsto> (x, False)]) < 30"
  proof -
    have "card (insert x (pinned s)) < 30" if "card (pinned s) \<le> 28" using that card_insert_le_m1 [of 29 "pinned s" x] by simp
    moreover have "pinned s \<union> fst ` ran [b \<mapsto> (x, False)] = insert x (pinned s)" by (simp add: ran_map_upd)
    ultimately show ?thesis using assms(6) t(6) by auto
  qed
  moreover have "[b \<mapsto> (x, False)] b' \<noteq> Some (y, m)" for b' m using assms(4) by auto
  moreover have "unat y < length (cells t)" using t(4) assms(3) by simp
  ultimately obtain c u where "rd y t = Done c u" "[b \<mapsto> (x, False)] c = None" "ok u [b \<mapsto> (x, False), c \<mapsto> (y, False)]"
    "cell u = cell t" "cells u = cells t" "hist u = hist t" "pinned u = pinned t" "frame t u"
    using read_law [OF t(2), of y] by blast
  with t frame_trans [of s t u] show ?thesis by (auto split: if_splits)
qed

text \<open>A held buffer that was changed is written and given back.\<close>

lemma write_back:
  assumes "ok s h" and "h b = Some (x, m)" and "length v = 512"
  shows "\<exists>t. wr b (put b v s) = Done () t \<and> ok t (h(b \<mapsto> (x, False))) \<and> cell t = view_writes (cell s) [(x, v)] \<and>
    cells t = apply_writes (cells s) [(x, v)] \<and> hist t = hist s @ [(x, v)] \<and> pinned t = pinned s - {x} \<and> frame s t"
proof -
  have p: "ok (put b v s) (h(b \<mapsto> (x, True)))" "cell (put b v s) = (cell s)(x := v)" "cells (put b v s) = cells s"
    "hist (put b v s) = hist s" "pinned (put b v s) = pinned s" "frame s (put b v s)"
    using put_law [OF assms] by auto
  show ?thesis using write_law [OF p(1), of b x True] p frame_trans [OF p(6)] by auto
qed

lemma copy_held:
  assumes "ok s h" and "h = [d \<mapsto> (x, False), e \<mapsto> (y, False)] \<or> h = [e \<mapsto> (y, False), d \<mapsto> (x, False)]" and "d \<noteq> e"
  shows "\<exists>t u v. wr d (put d (data s e) s) = Done () t \<and> rel e t = Done () u \<and> rel d u = Done () v \<and> wrote [(x, cell s y)] s v"
proof -
  have h: "h d = Some (x, False)" "h e = Some (y, False)" using assms(2,3) by auto
  have e: "data s e = cell s y" "length (cell s y) = 512" using data_law [OF assms(1) h(2)] by auto
  obtain t where t: "wr d (put d (cell s y) s) = Done () t" "ok t (h(d \<mapsto> (x, False)))" "cell t = view_writes (cell s) [(x, cell s y)]"
    "cells t = apply_writes (cells s) [(x, cell s y)]" "hist t = hist s @ [(x, cell s y)]" "pinned t = pinned s - {x}" "frame s t"
    using write_back [OF assms(1) h(1) e(2)] by blast
  obtain u where u: "rel e t = Done () u" "ok u (h(d \<mapsto> (x, False), e := None))" "cell u = cell t" "cells u = cells t"
    "hist u = hist t" "pinned u = pinned t" "frame t u"
    using release_law [OF t(2), of e y] h(2) assms(3) by auto
  obtain v where v: "rel d u = Done () v" "ok v (h(d := None, e := None))" "cell v = cell u" "cells v = cells u"
    "hist v = hist u" "pinned v = pinned u" "frame u v"
    using release_law [OF u(2), of d x] assms(3) by (auto simp: fun_upd_twist)
  have "h(d := None, e := None) = Map.empty" using assms(2) by auto
  then have "wrote [(x, cell s y)] s v"
    unfolding wrote_def using t u v frame_trans [OF frame_trans [OF t(7) u(7)] v(7)] by auto
  then show ?thesis using t(1) u(1) v(1) e(1) by auto
qed

lemma update_held:
  assumes "ok s [b \<mapsto> (x, False)]" and "length v = 512"
  shows "\<exists>t u. wr b (put b v s) = Done () t \<and> rel b t = Done () u \<and> wrote [(x, v)] s u"
proof -
  obtain t where t: "wr b (put b v s) = Done () t" "ok t [b \<mapsto> (x, False)]" "cell t = view_writes (cell s) [(x, v)]"
    "cells t = apply_writes (cells s) [(x, v)]" "hist t = hist s @ [(x, v)]" "pinned t = pinned s - {x}" "frame s t"
    using write_back [OF assms(1) _ assms(2), of b x False] by auto
  obtain u where "rel b t = Done () u" "ok u Map.empty" "cell u = cell t" "cells u = cells t" "hist u = hist t" "pinned u = pinned t" "frame t u"
    using release_law [OF t(2), of b x] by auto
  then show ?thesis using t frame_trans [of s t u] by (auto simp: wrote_def)
qed

end

section \<open>The cache is a block store\<close>

definition pinned :: "'z biost_scheme \<Rightarrow> u32 set" where
  "pinned s = {x. \<exists>b < 30. caches x (bufs s ! b) \<and> is_dirty (bufs s ! b)}"

definition put_data :: "nat \<Rightarrow> bytes \<Rightarrow> 'z biost_scheme \<Rightarrow> 'z biost_scheme" where
  "put_data b v s = set_buf b (\<lambda>q. q\<lparr>b_data := v\<rparr>) s"

text \<open>The buffer \<open>q\<close> is held for the block and the mark that the second argument gives, or free.\<close>

definition holding_buf :: "int \<Rightarrow> (u32 \<times> bool) option \<Rightarrow> bytes list \<Rightarrow> buf \<Rightarrow> bool" where
  "holding_buf n h d q \<longleftrightarrow> (case h of None \<Rightarrow> free_buf q
     | Some (x, m) \<Rightarrow> held_buf n q \<and> caches x q \<and> (m \<or> is_dirty q \<or> b_data q = d ! unat x))"

definition cache_held :: "int \<Rightarrow> 'z biost_scheme \<Rightarrow> (nat \<rightharpoonup> u32 \<times> bool) \<Rightarrow> bool" where
  "cache_held n s h \<longleftrightarrow> cache_ok n s \<and> dom h \<subseteq> {..<30} \<and> (\<forall>b < 30. holding_buf n (h b) (disk s) (bufs s ! b))"

lemma cache_heldD:
  assumes "cache_held n s h"
  shows "cache_ok n s" "b < 30 \<Longrightarrow> holding_buf n (h b) (disk s) (bufs s ! b)"
    and "h b = Some (x, m) \<Longrightarrow> b < 30 \<and> held_buf n (bufs s ! b) \<and> caches x (bufs s ! b) \<and>
      (m \<or> is_dirty (bufs s ! b) \<or> b_data (bufs s ! b) = disk s ! unat x)"
proof -
  show "cache_ok n s" and *: "\<And>b. b < 30 \<Longrightarrow> holding_buf n (h b) (disk s) (bufs s ! b)" using assms by (auto simp: cache_held_def)
  assume h: "h b = Some (x, m)"
  then have "b \<in> dom h" by blast
  then have "b < 30" using assms by (auto simp: cache_held_def)
  with * [of b] h show "b < 30 \<and> held_buf n (bufs s ! b) \<and> caches x (bufs s ! b) \<and>
      (m \<or> is_dirty (bufs s ! b) \<or> b_data (bufs s ! b) = disk s ! unat x)"
    by (simp add: holding_buf_def)
qed

text \<open>A change of one held buffer, and of the disk at its block only, keeps the others as they are.\<close>

lemma cache_held_change:
  assumes s: "cache_held n s h" and hb: "h b = Some (x, m)" and t: "cache_ok n t"
    and same: "\<forall>c < 30. c \<noteq> b \<longrightarrow> bufs t ! c = bufs s ! c" and disk: "\<forall>k. k \<noteq> x \<longrightarrow> disk t ! unat k = disk s ! unat k"
    and new: "holding_buf n v (disk t) (bufs t ! b)"
  shows "cache_held n t (h(b := v))"
proof -
  have b: "b < 30" "caches x (bufs s ! b)" using cache_heldD(3) [OF s hb] by auto
  have "holding_buf n (h c) (disk t) (bufs t ! c)" if c: "c < 30" "c \<noteq> b" for c
  proof (cases "h c")
    case None
    then show ?thesis using cache_heldD(2) [OF s c(1)] same c by (simp add: holding_buf_def)
  next
    case (Some p)
    obtain y k where p: "p = (y, k)" by (cases p)
    then have "caches y (bufs s ! c)" using cache_heldD(3) [OF s, of c y k] Some by simp
    then have "y \<noteq> x" using cache_okD(10) [OF cache_heldD(1) [OF s] c(1) b(1) _ b(2)] c(2) by blast
    then show ?thesis using cache_heldD(2) [OF s c(1)] same c disk Some p by (simp add: holding_buf_def)
  qed
  moreover have "dom (h(b := v)) \<subseteq> {..<30}" using s b(1) by (auto simp: cache_held_def)
  ultimately show ?thesis using t new by (simp add: cache_held_def)
qed

lemma unat_neq: "k \<noteq> x \<Longrightarrow> d[unat x := v] ! unat k = d ! unat k" for k x :: u32
  using word_unat_eq_iff [of k x] by simp

lemma pinned_cached: "x \<in> pinned s \<Longrightarrow> \<exists>b < 30. caches x (bufs s ! b)"
  by (auto simp: pinned_def)

lemma pinned_finite: "finite (pinned s)"
proof -
  have "pinned s \<subseteq> (\<lambda>b. b_blockno (bufs s ! b)) ` {..<30}" by (auto simp: pinned_def caches_def)
  then show ?thesis by (rule finite_subset) simp
qed

lemma pinned_held: "cache_held n s h \<Longrightarrow> h b = Some (x, m) \<Longrightarrow> x \<in> pinned s \<longleftrightarrow> is_dirty (bufs s ! b)"
  using cache_heldD(3) [of n s h b x m] cache_okD(10) [of n s _ b x] unfolding pinned_def cache_held_def by blast

lemma pinned_iff:
  assumes s: "cache_held n s h" and t: "cache_ok n t" and hb: "h b = Some (x, m)" and new: "caches x (bufs t ! b)"
    and same: "\<forall>c < 30. c \<noteq> b \<longrightarrow> bufs t ! c = bufs s ! c"
  shows "k \<in> pinned t \<longleftrightarrow> (if k = x then is_dirty (bufs t ! b) else k \<in> pinned s)"
proof -
  have b: "b < 30" "caches x (bufs s ! b)" using cache_heldD(3) [OF s hb] by auto
  show ?thesis
  proof (cases "k = x")
    case True
    have "c = b" if "c < 30" "caches x (bufs t ! c)" for c using cache_okD(10) [OF t that(1) b(1) that(2) new] .
    then have "x \<in> pinned t \<longleftrightarrow> is_dirty (bufs t ! b)" using b(1) new unfolding pinned_def by blast
    then show ?thesis using True by simp
  next
    case False
    then have "\<not> caches k (bufs s ! b)" "\<not> caches k (bufs t ! b)" using b(2) new by (auto simp: caches_def)
    then have "(c < 30 \<and> caches k (bufs t ! c) \<and> is_dirty (bufs t ! c)) = (c < 30 \<and> caches k (bufs s ! c) \<and> is_dirty (bufs s ! c))" for c
      using same by (cases "c = b") auto
    then show ?thesis using False by (simp add: pinned_def)
  qed
qed

text \<open>There are as many buffers that cannot be recycled as blocks that are pinned or held.\<close>

lemma busy_le:
  assumes s: "cache_held n s h"
  shows "card {b. b < 30 \<and> (is_dirty (bufs s ! b) \<or> \<not> free_buf (bufs s ! b))} \<le> card (pinned s \<union> fst ` ran h)"
proof -
  let ?A = "{b. b < 30 \<and> (is_dirty (bufs s ! b) \<or> \<not> free_buf (bufs s ! b))}"
  let ?f = "\<lambda>b. b_blockno (bufs s ! b)"
  note ok = cache_heldD(1) [OF s]
  have c: "caches (?f b) (bufs s ! b) \<and> ?f b \<in> pinned s \<union> fst ` ran h" if b: "b \<in> ?A" for b
  proof (cases "is_dirty (bufs s ! b)")
    case True
    then show ?thesis using b cache_okD(7) [OF ok] by (auto simp: pinned_def caches_def)
  next
    case False
    then obtain x m where "h b = Some (x, m)" using b cache_heldD(2) [OF s, of b] by (auto simp: holding_buf_def split: option.splits)
    then show ?thesis using cache_heldD(3) [OF s, of b x m] by (force simp: caches_def ran_def)
  qed
  have "inj_on ?f ?A"
  proof (rule inj_onI)
    fix a b assume "a \<in> ?A" "b \<in> ?A" "?f a = ?f b"
    then show "a = b" using c [of a] c [of b] cache_okD(10) [OF ok, of a b "?f a"] by simp
  qed
  then have "card ?A = card (?f ` ?A)" by (simp add: card_image)
  also have "\<dots> \<le> card (pinned s \<union> fst ` ran h)"
  proof (rule card_mono)
    have "finite (dom h)" using s finite_subset [of "dom h" "{..<30}"] by (auto simp: cache_held_def)
    then show "finite (pinned s \<union> fst ` ran h)" using pinned_finite by (simp add: finite_ran)
    show "?f ` ?A \<subseteq> pinned s \<union> fst ` ran h" using c by auto
  qed
  finally show ?thesis .
qed

lemma cache_read_law:
  assumes s: "cache_held n s h" and x: "unat x < length (disk s)" and nh: "\<And>b m. h b \<noteq> Some (x, m)"
    and room: "x \<in> pinned s \<or> card (pinned s \<union> fst ` ran h) < 30"
  shows "\<exists>b t. bread 1 x s = Done b t \<and> h b = None \<and> cache_held n t (h(b \<mapsto> (x, False))) \<and> blk t = blk s \<and> disk t = disk s \<and>
    dwrites t = dwrites s \<and> pinned t = pinned s \<and> cache_step s t"
proof -
  note ok = cache_heldD(1) [OF s]
  have free: "free_buf (bufs s ! b) \<longleftrightarrow> h b = None" if "b < 30" for b
    using cache_heldD(2) [OF s that] by (auto simp: holding_buf_def held_buf_def free_buf_def split: option.splits)
  let ?A = "{b. b < 30 \<and> (is_dirty (bufs s ! b) \<or> \<not> free_buf (bufs s ! b))}"
  have r: "(\<exists>b < 30. caches x (bufs s ! b)) \<or> card ?A < 30"
    using room busy_le [OF s] pinned_cached [of x s] by auto
  have nf: "free_buf (bufs s ! b)" if b: "b < 30" "caches x (bufs s ! b)" for b
  proof (rule ccontr)
    assume "\<not> free_buf (bufs s ! b)"
    then obtain y m where y: "h b = Some (y, m)" using free [OF b(1)] by auto
    then have "y = x" using cache_heldD(3) [OF s y] b(2) by (simp add: caches_def)
    with y nh show False by blast
  qed
  obtain b t where b: "bread 1 x s = Done b t" and p: "bread_post n x b s t" using bread_spec [OF ok x r nf] by blast
  have hb: "h b = None" using p free [of b] by (simp add: bread_post_def)
  have "holding_buf n ((h(b \<mapsto> (x, False))) c) (disk t) (bufs t ! c)" if "c < 30" for c
  proof (cases "c = b")
    case True
    then show ?thesis using p by (auto simp: bread_post_def holding_buf_def)
  next
    case False
    then have "bufs t ! c = bufs s ! c" "disk t = disk s" using p that by (simp_all add: bread_post_def)
    then show ?thesis using cache_heldD(2) [OF s that] False by simp
  qed
  moreover have "dom (h(b \<mapsto> (x, False))) \<subseteq> {..<30}" using s p by (auto simp: cache_held_def bread_post_def)
  ultimately have "cache_held n t (h(b \<mapsto> (x, False)))" using p by (simp add: cache_held_def bread_post_def)
  moreover have "caches k (bufs t ! c) \<and> is_dirty (bufs t ! c) \<longleftrightarrow> caches k (bufs s ! c) \<and> is_dirty (bufs s ! c)" if "c < 30" for c k
    using p that by (cases "c = b") (auto simp: bread_post_def caches_def)
  then have "pinned t = pinned s" by (auto simp: pinned_def)
  ultimately show ?thesis using b hb p by (auto simp: bread_post_def)
qed

text \<open>The three operations on a held buffer have a postcondition \<open>held_post\<close> each; the laws follow alike.\<close>

lemma held_post_law:
  assumes s: "cache_held n s h" and hb: "h b = Some (x, m)" and p: "held_post n x b v d s t"
    and d: "d = disk s \<or> d = (disk s)[unat x := w]" and new: "holding_buf n z (disk t) (bufs t ! b)"
  shows "cache_held n t (h(b := z))" and "blk t = (blk s)(x := v)" and "disk t = d" and "cache_step s t"
    and "pinned t = (if is_dirty (bufs t ! b) then insert x (pinned s) else pinned s - {x})"
proof -
  have t: "cache_ok n t" "disk t = d" "cache_step s t" "\<forall>c < 30. c \<noteq> b \<longrightarrow> bufs t ! c = bufs s ! c"
    "\<forall>k. blk t k = (if k = x then v else blk s k)" using p by (auto simp: held_post_def)
  have b: "b < 30" using cache_heldD(3) [OF s hb] by auto
  have "\<forall>k. k \<noteq> x \<longrightarrow> disk t ! unat k = disk s ! unat k" using d t(2) unat_neq by auto
  then show "cache_held n t (h(b := z))" using cache_held_change [OF s hb t(1,4) _ new] by blast
  show "blk t = (blk s)(x := v)" using t(5) by auto
  have "caches x (bufs t ! b)" using p by (simp add: held_post_def)
  note pinned_iff [OF s t(1) hb this t(4)]
  then show "pinned t = (if is_dirty (bufs t ! b) then insert x (pinned s) else pinned s - {x})"
    by (cases "is_dirty (bufs t ! b)") (simp_all add: set_eq_iff)
qed (use p in \<open>auto simp: held_post_def\<close>)

lemma blk_held: "cache_held n s h \<Longrightarrow> h b = Some (x, m) \<Longrightarrow> b_data (bufs s ! b) = blk s x"
  using cache_heldD(3) [of n s h b x m] blk_cached [of n s b x] by (simp add: cache_held_def)

lemma cache_put_law:
  assumes s: "cache_held n s h" and hb: "h b = Some (x, m)" and v: "length v = 512"
  shows "cache_held n (put_data b v s) (h(b \<mapsto> (x, True))) \<and> blk (put_data b v s) = (blk s)(x := v) \<and> disk (put_data b v s) = disk s \<and>
    dwrites (put_data b v s) = dwrites s \<and> pinned (put_data b v s) = pinned s \<and> cache_step s (put_data b v s)"
proof -
  have b: "b < 30" "caches x (bufs s ! b)" "held_buf n (bufs s ! b)" using cache_heldD(3) [OF s hb] by auto
  note p = put_data_spec [OF cache_heldD(1) [OF s] b v put_data_def]
  have len: "b < length (bufs s)" using held_bufD [OF cache_heldD(1) [OF s] b] by simp
  have "holding_buf n (Some (x, True)) (disk (put_data b v s)) (bufs (put_data b v s) ! b)"
    using p b len by (simp add: holding_buf_def put_data_def held_buf_def caches_def)
  note l = held_post_law [OF s hb p(1) disjI1 [OF refl] this]
  have "is_dirty (bufs (put_data b v s) ! b) = is_dirty (bufs s ! b)" using len by (simp add: put_data_def is_dirty_def)
  then have "pinned (put_data b v s) = pinned s" using l(5) pinned_held [OF s hb] by auto
  then show ?thesis using l p(3) by simp
qed

lemma cache_write_law:
  assumes s: "cache_held n s h" and hb: "h b = Some (x, m)"
  shows "\<exists>t. bwrite b s = Done () t \<and> cache_held n t (h(b \<mapsto> (x, False))) \<and> blk t = blk s \<and> disk t = (disk s)[unat x := blk s x] \<and>
    dwrites t = dwrites s @ [(x, blk s x)] \<and> pinned t = pinned s - {x} \<and> cache_step s t"
proof -
  note ok = cache_heldD(1) [OF s]
  have b: "b < 30" "caches x (bufs s ! b)" "held_buf n (bufs s ! b)" using cache_heldD(3) [OF s hb] by auto
  have v: "b_data (bufs s ! b) = blk s x" using blk_held [OF s hb] .
  obtain t where t: "bwrite b s = Done () t" "held_post n x b (blk s x) ((disk s)[unat x := blk s x]) s t" "held_buf n (bufs t ! b)"
    "\<not> is_dirty (bufs t ! b)" "dwrites t = dwrites s @ [(x, blk s x)]"
    using bwrite_spec [OF ok b] unfolding v by blast
  have "holding_buf n (Some (x, False)) (disk t) (bufs t ! b)"
    using t(2,3) held_bufD(6) [OF ok b] by (auto simp: holding_buf_def held_post_def)
  note l = held_post_law [OF s hb t(2) disjI2 [OF refl] this]
  show ?thesis using l t by auto
qed

lemma cache_release_law:
  assumes s: "cache_held n s h" and hb: "h b = Some (x, False)"
  shows "\<exists>t. brelse b s = Done () t \<and> cache_held n t (h(b := None)) \<and> blk t = blk s \<and> disk t = disk s \<and> dwrites t = dwrites s \<and>
    pinned t = pinned s \<and> cache_step s t"
proof -
  note ok = cache_heldD(1) [OF s]
  have b: "b < 30" "caches x (bufs s ! b)" "held_buf n (bufs s ! b)" and c: "is_dirty (bufs s ! b) \<or> b_data (bufs s ! b) = disk s ! unat x"
    using cache_heldD(3) [OF s hb] by auto
  have v: "b_data (bufs s ! b) = blk s x" using blk_held [OF s hb] .
  obtain t where t: "brelse b s = Done () t" "held_post n x b (blk s x) (disk s) s t" "free_buf (bufs t ! b)"
    "is_dirty (bufs t ! b) = is_dirty (bufs s ! b)" "dwrites t = dwrites s"
    using brelse_spec [OF ok b c] unfolding v by blast
  have "holding_buf n None (disk t) (bufs t ! b)" using t(3) by (simp add: holding_buf_def)
  note l = held_post_law [OF s hb t(2) disjI1 [OF refl] this]
  have "pinned t = pinned s" using l(5) t(4) pinned_held [OF s hb] by auto
  then show ?thesis using l t by auto
qed

interpretation bcache: block_store "bread 1" put_data bwrite brelse "cache_held n" "\<lambda>s b. b_data (bufs s ! b)" blk disk dwrites pinned cache_step
  for n
proof (standard, goal_cases)
  case 1 then show ?case by (rule cache_read_law)
next
  case 2 then show ?case by (rule cache_put_law)
next
  case 3 then show ?case by (rule cache_write_law)
next
  case 4 then show ?case by (rule cache_release_law)
next
  case (5 s h b x m)
  then show ?case using blk_held [OF 5] cache_heldD(3) [OF 5] cache_okD(8) [OF cache_heldD(1) [OF 5(1)], of b x] by auto
next
  case 6 then show ?case by (rule cache_step_trans)
next
  case 7 show ?case by (rule pinned_finite)
qed

end
