(* ===== verification/Log_Crash.thy ===== *)
theory Log_Crash
  imports Machine Cache
begin

text \<open>
  The log makes a transaction atomic: whatever the number of disk writes that \<^verbatim>\<open>commit\<close> has done when
  the machine stops, the recovery of \<^verbatim>\<open>initlog\<close> at the next boot gives the disk of before the
  transaction, or that of after it.

  The disk writes of \<^verbatim>\<open>commit\<close> and of the recovery are computed first, from the contract of the block
  cache in \<open>Cache\<close>; that a prefix of them followed by a recovery is atomic is then a statement about
  lists of writes.
\<close>

section \<open>Sequences of writes\<close>

lemma view_writes_map_of: "view_writes f ws x = (case map_of (rev ws) x of Some v \<Rightarrow> v | None \<Rightarrow> f x)"
proof (induction ws arbitrary: f)
  case (Cons w ws)
  then show ?case by (cases w) (auto simp: map_add_def split: option.splits)
qed simp

lemma view_writes_other: "x \<notin> fst ` set ws \<Longrightarrow> view_writes f ws x = f x"
  by (induction ws arbitrary: f) auto

lemma view_writes_one: "\<forall>w \<in> set ws. fst w = x \<longrightarrow> snd w = v \<Longrightarrow> x \<in> fst ` set ws \<Longrightarrow> view_writes f ws x = v"
proof (induction ws arbitrary: f)
  case (Cons w ws)
  show ?case
  proof (cases "x \<in> fst ` set ws")
    case True
    then show ?thesis using Cons by (cases w) auto
  next
    case False
    then show ?thesis using Cons.prems view_writes_other [OF False] by (cases w) auto
  qed
qed simp

lemma nth_apply_writes:
  "unat x < length d \<Longrightarrow> apply_writes d ws ! unat x = view_writes (\<lambda>k. d ! unat k) ws x" for x :: u32
proof (induction ws arbitrary: d)
  case (Cons w ws)
  obtain y v where w: "w = (y, v)" by (cases w)
  have "view_writes (\<lambda>k. d[unat y := v] ! unat k) ws x = view_writes ((\<lambda>k. d ! unat k)(y := v)) ws x"
  proof (cases "x \<in> fst ` set ws")
    case True
    then obtain z where "map_of (rev ws) x = Some z" by (metis not_None_eq map_of_eq_None_iff set_rev)
    then show ?thesis by (simp add: view_writes_map_of)
  next
    case False
    then show ?thesis using Cons.prems unat_neq [of x y d v] by (cases "x = y") (auto simp: view_writes_other)
  qed
  then show ?case using Cons.IH [of "d[unat y := v]"] Cons.prems w by simp
qed simp

section \<open>The log on the disk\<close>

definition in_log :: "u32 \<Rightarrow> u32 \<Rightarrow> bool" where
  "in_log L x \<longleftrightarrow> x - L \<le> 30"

definition logblk :: "u32 \<Rightarrow> nat \<Rightarrow> u32" where
  "logblk L i = L + of_nat i + 1"

lemma unat_Suc_small: "i < 30 \<Longrightarrow> unat (of_nat i + 1 :: u32) = Suc i"
proof -
  assume "i < 30"
  then have "unat (of_nat (Suc i) :: u32) = Suc i" unfolding unsigned_of_nat by (simp add: take_bit_nat_eq_self)
  then show ?thesis by (simp add: add.commute)
qed

lemma in_log_logblk: "i < 30 \<Longrightarrow> in_log L (logblk L i)"
  using unat_Suc_small [of i] by (simp add: in_log_def logblk_def word_le_nat_alt add.assoc)

lemma in_log_start [simp]: "in_log L L"
  by (simp add: in_log_def)

lemma logblk_start: "i < 30 \<Longrightarrow> logblk L i \<noteq> L"
  unfolding logblk_def add.assoc add_cancel_left_right using unat_Suc_small [of i] by (metis nat.distinct(1) unat_0)

lemma logblk_inj: "i < 30 \<Longrightarrow> j < 30 \<Longrightarrow> logblk L i = logblk L j \<longleftrightarrow> i = j"
  unfolding logblk_def add.assoc add_left_cancel using unat_Suc_small [of i] unat_Suc_small [of j] by (metis nat.inject)

text \<open>The header block, for the list of logged blocks.\<close>

definition header :: "u32 list \<Rightarrow> bytes \<Rightarrow> bytes" where
  "header B d = put_blocks 0 B (blit d 0 (bytes32 (of_nat (length B))))"

lemma length_put_blocks [simp]: "length (put_blocks i B d) = length d"
  by (induction B arbitrary: i d) auto

lemma length_header [simp]: "length (header B d) = length d"
  by (simp add: header_def)

lemma get32_put_blocks:
  "4 + 4 * (j + length B) \<le> length d \<Longrightarrow>
   get32 (put_blocks j B d) (4 + 4 * i) = (if j \<le> i \<and> i < j + length B then B ! (i - j) else get32 d (4 + 4 * i))"
proof (induction B arbitrary: j d)
  case (Cons x B)
  have "get32 (blit d (4 + 4 * j) (bytes32 x)) (4 + 4 * i) = (if i = j then x else get32 d (4 + 4 * i))"
    using Cons.prems get32_bytes32 [of "4 + 4 * j" d x] get32_blit_other [of "4 + 4 * j" "bytes32 x" d "4 + 4 * i"]
    by (cases i j rule: linorder_cases) auto
  then show ?case using Cons.IH [of "Suc j" "blit d (4 + 4 * j) (bytes32 x)"] Cons.prems by (auto simp: nth_Cons')
qed auto

lemma get32_put_blocks_0: "4 + 4 * (j + length B) \<le> length d \<Longrightarrow> get32 (put_blocks j B d) 0 = get32 d 0"
proof (induction B arbitrary: j d)
  case (Cons x B)
  then show ?case using get32_blit_other [of "4 + 4 * j" "bytes32 x" d 0] by simp
qed simp

lemma header_n: "length B \<le> 30 \<Longrightarrow> length d = 512 \<Longrightarrow> get32 (header B d) 0 = of_nat (length B)"
  by (simp add: header_def get32_put_blocks_0 get32_bytes32)

lemma header_block: "length B \<le> 30 \<Longrightarrow> length d = 512 \<Longrightarrow> i < length B \<Longrightarrow> get32 (header B d) (4 + 4 * i) = B ! i"
  by (simp add: header_def get32_put_blocks)

lemma sint_of_small: "m \<le> 30 \<Longrightarrow> sint (of_nat m :: u32) = int m"
  by (simp add: signed_of_nat signed_take_bit_int_eq_self)

section \<open>The disk writes of the log\<close>

lemma cache_step_log:
  "cache_step s t \<Longrightarrow> log_dev t = log_dev s \<and> log_start t = log_start s \<and> lh_n t = lh_n s \<and> lh_block t = lh_block s"
  for s :: "'z logst_scheme"
  by (auto simp: cache_step_iff)

lemma wroteD:
  assumes "bcache.wrote n ws s t"
  shows "cache_held n t Map.empty" "blk t = view_writes (blk s) ws" "disk t = apply_writes (disk s) ws" "dwrites t = dwrites s @ ws"
    "pinned t = pinned s - fst ` set ws" "cache_step s t" "length (disk t) = length (disk s)" "card (pinned t) \<le> card (pinned s)"
proof -
  show "card (pinned t) \<le> card (pinned s)" using assms pinned_finite by (auto simp: bcache.wrote_def intro: card_mono)
qed (use assms in \<open>auto simp: bcache.wrote_def\<close>)

text \<open>One iteration of either loop copies the block \<open>y\<close> to the block \<open>x\<close>, whichever of the two is read first.\<close>

definition copy_to :: "nat \<Rightarrow> nat \<Rightarrow> 'z biost_scheme \<Rightarrow> ('z biost_scheme, unit) outcome" where
  "copy_to d e s = bind (bwrite d (put_data d (b_data (bufs s ! e)) s)) (\<lambda>_ s. bind (brelse e s) (\<lambda>_ s. brelse d s))"

lemma copy_block:
  fixes s :: "'z logst_scheme"
  assumes "cache_held n s Map.empty" and "unat x < length (disk s)" and "unat y < length (disk s)" and "x \<noteq> y" and "card (pinned s) \<le> 29"
  shows "y \<in> pinned s \<or> card (pinned s) \<le> 28 \<Longrightarrow> \<exists>b t c u v. bread 1 x s = Done b t \<and> cache_step s t \<and> bread 1 y t = Done c u \<and> cache_step s u \<and>
      copy_to b c u = Done () v \<and> bcache.wrote n [(x, blk s y)] s v"
    and "x \<in> pinned s \<or> card (pinned s) \<le> 28 \<Longrightarrow> \<exists>b t c u v. bread 1 y s = Done b t \<and> cache_step s t \<and> bread 1 x t = Done c u \<and> cache_step s u \<and>
      copy_to c b u = Done () v \<and> bcache.wrote n [(x, blk s y)] s v"
proof -
  have up: "bcache.wrote n ws u v \<Longrightarrow> cache_step s u \<Longrightarrow> blk u = blk s \<Longrightarrow> disk u = disk s \<Longrightarrow> dwrites u = dwrites s \<Longrightarrow>
      pinned u = pinned s \<Longrightarrow> bcache.wrote n ws s v" for ws and u v :: "'z logst_scheme"
    using cache_step_trans [of s u v] by (auto simp: bcache.wrote_def)
  show "\<exists>b t c u v. bread 1 x s = Done b t \<and> cache_step s t \<and> bread 1 y t = Done c u \<and> cache_step s u \<and>
      copy_to b c u = Done () v \<and> bcache.wrote n [(x, blk s y)] s v" if p: "y \<in> pinned s \<or> card (pinned s) \<le> 28"
  proof -
    obtain b t c u where u: "bread 1 x s = Done b t" "bread 1 y t = Done c u" "b \<noteq> c" "cache_held n u [b \<mapsto> (x, False), c \<mapsto> (y, False)]"
      "blk u = blk s" "disk u = disk s" "dwrites u = dwrites s" "pinned u = pinned s" "cache_step s t" "cache_step s u"
      using bcache.read_two [OF assms p] by blast
    show ?thesis using bcache.copy_held [OF u(4) disjI1 [OF refl] u(3)] u up by (fastforce simp: copy_to_def)
  qed
  show "\<exists>b t c u v. bread 1 y s = Done b t \<and> cache_step s t \<and> bread 1 x t = Done c u \<and> cache_step s u \<and>
      copy_to c b u = Done () v \<and> bcache.wrote n [(x, blk s y)] s v" if p: "x \<in> pinned s \<or> card (pinned s) \<le> 28"
  proof -
    obtain b t c u where u: "bread 1 y s = Done b t" "bread 1 x t = Done c u" "b \<noteq> c" "cache_held n u [b \<mapsto> (y, False), c \<mapsto> (x, False)]"
      "blk u = blk s" "disk u = disk s" "dwrites u = dwrites s" "pinned u = pinned s" "cache_step s t" "cache_step s u"
      using bcache.read_two [OF assms(1,3,2) assms(4) [symmetric] assms(5) p] by blast
    show ?thesis using bcache.copy_held [OF u(4) disjI2 [OF refl]] u up by (fastforce simp: copy_to_def)
  qed
qed

lemma write_log_Cons:
  "i < length (lh_block s) \<Longrightarrow> write_log_loop (i # is) s =
     bind (bread (log_dev s) (logblk (log_start s) i) s) (\<lambda>b s. bind (bread (log_dev s) (lh_block s ! i) s) (\<lambda>c s.
     bind (copy_to b c s) (\<lambda>_ s. write_log_loop is s)))"
  by (simp add: copy_to_def put_data_def logblk_def Let_def bind_assoc)

lemma install_Cons:
  "i < length (lh_block s) \<Longrightarrow> install_loop (i # is) s =
     bind (bread (log_dev s) (logblk (log_start s) i) s) (\<lambda>b s. bind (bread (log_dev s) (lh_block s ! i) s) (\<lambda>c s.
     bind (copy_to c b s) (\<lambda>_ s. install_loop is s)))"
  by (simp add: copy_to_def put_data_def logblk_def Let_def bind_assoc)

text \<open>The indices of the loops: each names a block of the log and a block outside of it.\<close>

definition slot_ok :: "'z logst_scheme \<Rightarrow> nat \<Rightarrow> bool" where
  "slot_ok s i \<longleftrightarrow> i < 30 \<and> i < length (lh_block s) \<and> unat (logblk (log_start s) i) < length (disk s) \<and>
     unat (lh_block s ! i) < length (disk s) \<and> \<not> in_log (log_start s) (lh_block s ! i)"

definition quiet :: "int \<Rightarrow> 'z logst_scheme \<Rightarrow> bool" where
  "quiet n s \<longleftrightarrow> cache_held n s Map.empty \<and> card (pinned s) \<le> 29 \<and> log_dev s = 1"

text \<open>There is a buffer for the block that the entry \<open>i\<close> of the header names: its own, or a second one besides that of the log block.\<close>

definition roomy :: "'z logst_scheme \<Rightarrow> nat \<Rightarrow> bool" where
  "roomy s i \<longleftrightarrow> lh_block s ! i \<in> pinned s \<or> card (pinned s) \<le> 28"

lemma slot_ok_neq: "slot_ok s i \<Longrightarrow> slot_ok s j \<Longrightarrow> lh_block s ! i \<noteq> logblk (log_start s) j"
  using in_log_logblk [of j "log_start s"] by (auto simp: slot_ok_def)

lemma wrote_quiet:
  assumes "quiet n s" and "bcache.wrote n ws s t"
  shows "quiet n t" "slot_ok t i = slot_ok s i" "log_start t = log_start s" "lh_block t = lh_block s" "lh_n t = lh_n s"
  using assms wroteD [OF assms(2)] cache_step_log [OF wroteD(6) [OF assms(2)]] by (auto simp: quiet_def slot_ok_def)

lemma write_log_writes:
  assumes "quiet n s" and "\<forall>i \<in> set is. slot_ok s i \<and> roomy s i"
  shows "\<exists>t. write_log_loop is s = Done () t \<and>
    bcache.wrote n (map (\<lambda>i. (logblk (log_start s) i, blk s (lh_block s ! i))) is) s t"
  using assms
proof (induction "is" arbitrary: s)
  case Nil
  then show ?case by (auto simp: bcache.wrote_def quiet_def)
next
  case (Cons i "is")
  let ?x = "logblk (log_start s) i" and ?y = "lh_block s ! i"
  have i: "slot_ok s i" "i < length (lh_block s)" "log_dev s = 1" "roomy s i" using Cons.prems by (auto simp: slot_ok_def quiet_def)
  have "?x \<noteq> ?y" using slot_ok_neq [OF i(1) i(1)] by simp
  then obtain b t c u v where v: "bread 1 ?x s = Done b t" "cache_step s t" "bread 1 ?y t = Done c u" "copy_to b c u = Done () v"
    "bcache.wrote n [(?x, blk s ?y)] s v"
    using copy_block(1) [of n s ?x ?y] Cons.prems(1) i(1,4) unfolding quiet_def slot_ok_def roomy_def by blast
  have step: "write_log_loop (i # is) s = write_log_loop is v"
    unfolding write_log_Cons [OF i(2)] using v i cache_step_log [OF v(2)] by simp
  note q = wrote_quiet [OF Cons.prems(1) v(5)]
  have room: "roomy v j" if "j \<in> set is" for j
    using wroteD(5,8) [OF v(5)] q(4) slot_ok_neq [of s j i] Cons.prems(2) that by (auto simp: roomy_def)
  obtain w where w: "write_log_loop is v = Done () w" "bcache.wrote n (map (\<lambda>i. (logblk (log_start v) i, blk v (lh_block v ! i))) is) v w"
    using Cons.IH [OF q(1)] Cons.prems(2) q(2) room by auto
  have "blk v (lh_block v ! j) = blk s (lh_block s ! j)" if "j \<in> set is" for j
    using wroteD(2) [OF v(5)] q(4) slot_ok_neq [of s j i] Cons.prems(2) that by simp
  then have e: "map (\<lambda>i. (logblk (log_start v) i, blk v (lh_block v ! i))) is = map (\<lambda>i. (logblk (log_start s) i, blk s (lh_block s ! i))) is"
    using q(3) by simp
  have "bcache.wrote n (map (\<lambda>i. (logblk (log_start s) i, blk s (lh_block s ! i))) (i # is)) s w"
    using bcache.wrote_trans [OF v(5) w(2), unfolded e] by simp
  moreover have "write_log_loop (i # is) s = Done () w" unfolding step by (rule w(1))
  ultimately show ?case by blast
qed

lemma install_writes:
  assumes "quiet n s" and "\<forall>i \<in> set is. slot_ok s i \<and> roomy s i"
  shows "\<exists>t. install_loop is s = Done () t \<and>
    bcache.wrote n (map (\<lambda>i. (lh_block s ! i, blk s (logblk (log_start s) i))) is) s t"
  using assms
proof (induction "is" arbitrary: s)
  case Nil
  then show ?case by (auto simp: bcache.wrote_def quiet_def)
next
  case (Cons i "is")
  let ?y = "logblk (log_start s) i" and ?x = "lh_block s ! i"
  have i: "slot_ok s i" "i < length (lh_block s)" "log_dev s = 1" "roomy s i" using Cons.prems by (auto simp: slot_ok_def quiet_def)
  have "?x \<noteq> ?y" using slot_ok_neq [OF i(1) i(1)] by simp
  then obtain b t c u v where v: "bread 1 ?y s = Done b t" "cache_step s t" "bread 1 ?x t = Done c u" "copy_to c b u = Done () v"
    "bcache.wrote n [(?x, blk s ?y)] s v"
    using copy_block(2) [of n s ?x ?y] Cons.prems(1) i(1,4) unfolding quiet_def slot_ok_def roomy_def by blast
  have step: "install_loop (i # is) s = install_loop is v"
    unfolding install_Cons [OF i(2)] using v i cache_step_log [OF v(2)] by simp
  note q = wrote_quiet [OF Cons.prems(1) v(5)]
  have "card (pinned v) \<le> 28"
  proof (cases "?x \<in> pinned s")
    case True
    have "pinned v = pinned s - {?x}" using wroteD(5) [OF v(5)] by simp
    then have "card (pinned v) < card (pinned s)" using card_Diff1_less [OF pinned_finite True] by simp
    then show ?thesis using Cons.prems(1) by (simp add: quiet_def)
  next
    case False
    then show ?thesis using wroteD(8) [OF v(5)] i(4) by (simp add: roomy_def)
  qed
  then have room: "roomy v j" for j by (simp add: roomy_def)
  obtain w where w: "install_loop is v = Done () w" "bcache.wrote n (map (\<lambda>i. (lh_block v ! i, blk v (logblk (log_start v) i))) is) v w"
    using Cons.IH [OF q(1)] Cons.prems(2) q(2) room by auto
  have "blk v (logblk (log_start v) j) = blk s (logblk (log_start s) j)" if "j \<in> set is" for j
    using wroteD(2) [OF v(5)] q(3) slot_ok_neq [of s i j] Cons.prems(2) that by simp
  then have e: "map (\<lambda>i. (lh_block v ! i, blk v (logblk (log_start v) i))) is = map (\<lambda>i. (lh_block s ! i, blk s (logblk (log_start s) i))) is"
    using q(4) by simp
  have "bcache.wrote n (map (\<lambda>i. (lh_block s ! i, blk s (logblk (log_start s) i))) (i # is)) s w"
    using bcache.wrote_trans [OF v(5) w(2), unfolded e] by simp
  moreover have "install_loop (i # is) s = Done () w" unfolding step by (rule w(1))
  ultimately show ?case by blast
qed

lemma write_head_writes:
  assumes q: "quiet n s" and L: "unat (log_start s) < length (disk s)" and m: "0 \<le> lh_n s" "nat (lh_n s) \<le> length (lh_block s)"
  shows "\<exists>t. write_head s = Done () t \<and>
    bcache.wrote n [(log_start s, header (take (nat (lh_n s)) (lh_block s)) (blk s (log_start s)))] s t"
proof -
  let ?h = "header (take (nat (lh_n s)) (lh_block s)) (blk s (log_start s))"
  obtain b t where t: "bread 1 (log_start s) s = Done b t" "cache_held n t [b \<mapsto> (log_start s, False)]" "blk t = blk s" "disk t = disk s"
    "dwrites t = dwrites s" "pinned t = pinned s" "cache_step s t"
    using bcache.read_only [of n s "log_start s"] q L unfolding quiet_def by blast
  have d: "b_data (bufs t ! b) = blk s (log_start s)" "length (blk s (log_start s)) = 512"
    using bcache.data_law [OF t(2), of b "log_start s" False] t(3) by auto
  obtain u v where u: "bwrite b (put_data b ?h t) = Done () u" "brelse b u = Done () v" "bcache.wrote n [(log_start s, ?h)] t v"
    using bcache.update_held [OF t(2), of ?h] d(2) by auto
  have "set_buf b (\<lambda>q. q\<lparr>b_data := put_blocks 0 (take (nat (lh_n t)) (lh_block t)) (blit (b_data q) 0 (bytes32 (of_int (lh_n t))))\<rparr>) t = put_data b ?h t"
    using cache_step_log [OF t(7)] d(1) m by (simp add: set_buf_def put_data_def header_def min_absorb2)
  then have "write_head s = Done () v"
    using q t(1) u m cache_step_log [OF t(7)] by (simp add: write_head_def quiet_def)
  moreover have "bcache.wrote n [(log_start s, ?h)] s v"
    using u(3) t cache_step_trans [OF t(7)] by (auto simp: bcache.wrote_def)
  ultimately show ?thesis by blast
qed

lemma log_updates [simp]:
  "blk (s\<lparr>lh_n := k\<rparr>) = blk s" "blk (s\<lparr>lh_block := B\<rparr>) = blk s" "pinned (s\<lparr>lh_n := k\<rparr>) = pinned s" "pinned (s\<lparr>lh_block := B\<rparr>) = pinned s"
  "cache_held n (s\<lparr>lh_n := k\<rparr>) h = cache_held n s h" "cache_held n (s\<lparr>lh_block := B\<rparr>) h = cache_held n s h"
  "quiet n (s\<lparr>lh_n := k\<rparr>) = quiet n s" "slot_ok (s\<lparr>lh_n := k\<rparr>) i = slot_ok s i"
  by (simp_all add: blk_def fun_eq_iff pinned_def cache_held_def cache_ok_def running_def quiet_def slot_ok_def
      split: option.split)

section \<open>Commit\<close>

text \<open>The disk writes of a commit: the blocks to the log, the header, the blocks to their places, the empty header.\<close>

definition commit_writes :: "'z logst_scheme \<Rightarrow> (u32 \<times> bytes) list" where
  "commit_writes s = (let m = nat (lh_n s); L = log_start s; H = header (take m (lh_block s)) (blk s L) in
     map (\<lambda>i. (logblk L i, blk s (lh_block s ! i))) [0..<m] @ [(L, H)] @
     map (\<lambda>i. (lh_block s ! i, blk s (lh_block s ! i))) [0..<m] @ [(L, header [] H)])"

text \<open>
  The state at the end of a transaction: the blocks in the header are blocks of the disk outside of the log,
  exactly they are pinned in the cache, and the log on the disk is empty. The limit of 29 blocks is that of
  \<^verbatim>\<open>log_write\<close> for the log of \<^verbatim>\<open>mkfs\<close>, which has 30 blocks with the header.
\<close>

definition commit_ready :: "int \<Rightarrow> 'z logst_scheme \<Rightarrow> bool" where
  "commit_ready n s \<longleftrightarrow> quiet n s \<and> 0 < lh_n s \<and> lh_n s \<le> 29 \<and> length (lh_block s) = 30 \<and>
     (\<forall>i < nat (lh_n s). slot_ok s i) \<and> unat (log_start s) < length (disk s) \<and>
     pinned s = set (take (nat (lh_n s)) (lh_block s)) \<and>
     get32 (disk s ! unat (log_start s)) 0 = 0"

lemma view_log_writes_same: "m \<le> 30 \<Longrightarrow> i < m \<Longrightarrow> view_writes f (map (\<lambda>i. (logblk L i, v i)) [0..<m]) (logblk L i) = v i"
  using logblk_inj [of _ i L] by (intro view_writes_one) (auto simp: image_iff)

lemma view_log_writes_start: "m \<le> 30 \<Longrightarrow> view_writes f (map (\<lambda>i. (logblk L i, v i)) [0..<m]) L = f L"
  by (intro view_writes_other) (auto simp: image_iff logblk_start [symmetric])

lemma commit_done:
  assumes "commit_ready n s"
  shows "\<exists>t. commit s = Done () t \<and> cache_held n t Map.empty \<and> blk t = view_writes (blk s) (commit_writes s) \<and>
    disk t = apply_writes (disk s) (commit_writes s) \<and> dwrites t = dwrites s @ commit_writes s \<and> lh_n t = 0"
proof -
  let ?m = "nat (lh_n s)" and ?L = "log_start s"
  let ?H = "header (take ?m (lh_block s)) (blk s ?L)"
  let ?W = "map (\<lambda>i. (logblk ?L i, blk s (lh_block s ! i))) [0..<?m]"
  have q: "quiet n s" "0 < lh_n s" "?m \<le> 30" "length (lh_block s) = 30" "\<forall>i \<in> set [0..<?m]. slot_ok s i" "unat ?L < length (disk s)"
    using assms by (auto simp: commit_ready_def)
  have home: "lh_block s ! i \<in> pinned s" if "i < ?m" for i
    using assms that nth_mem [of i "take ?m (lh_block s)"] q(3,4) by (simp add: commit_ready_def)
  obtain t where t: "write_log_loop [0..<?m] s = Done () t" "bcache.wrote n ?W s t"
    using write_log_writes [OF q(1), of "[0..<?m]"] q(5) home by (auto simp: roomy_def)
  note t' = wrote_quiet [OF q(1) t(2)] wroteD [OF t(2)]
  have tL: "blk t ?L = blk s ?L" using t'(7) view_log_writes_start [OF q(3)] by simp
  obtain u where u: "write_head t = Done () u" "bcache.wrote n [(?L, ?H)] t u"
    using write_head_writes [OF t'(1)] t'(3-5,12) q tL by auto
  note u' = wrote_quiet [OF t'(1) u(2)] wroteD [OF u(2)]
  have "\<forall>i \<in> set [0..<?m]. slot_ok u i \<and> roomy u i"
  proof
    fix i assume "i \<in> set [0..<?m]"
    then have i: "i < ?m" "slot_ok s i" using q(5) by simp_all
    have "lh_block s ! i \<noteq> logblk ?L j" if "j < ?m" for j using slot_ok_neq [OF i(2), of j] q(5) that by simp
    then have "lh_block s ! i \<notin> fst ` set ?W" by (auto simp: image_iff)
    moreover have "lh_block s ! i \<noteq> ?L" using i(2) by (auto simp: slot_ok_def)
    ultimately show "slot_ok u i \<and> roomy u i" using i home [OF i(1)] t'(2,4,10) u'(2,4,10) by (simp add: roomy_def)
  qed
  then obtain v where v: "install_loop [0..<?m] u = Done () v"
    "bcache.wrote n (map (\<lambda>i. (lh_block u ! i, blk u (logblk (log_start u) i))) [0..<?m]) u v"
    using install_writes [OF u'(1)] by blast
  have "blk u (logblk ?L i) = blk s (lh_block s ! i)" if "i < ?m" for i
    using u'(7) t'(7) view_log_writes_same [OF q(3) that] logblk_start [of i ?L] that q(3) by simp
  then have hv: "map (\<lambda>i. (lh_block u ! i, blk u (logblk (log_start u) i))) [0..<?m] = map (\<lambda>i. (lh_block s ! i, blk s (lh_block s ! i))) [0..<?m]"
    using u' t' by simp
  note v2 = v(2) [unfolded hv]
  note v' = wrote_quiet [OF u'(1) v2] wroteD [OF v2]
  have "lh_block s ! i \<noteq> ?L" if "i < ?m" for i
    using bspec [OF q(5), of i] that by (auto simp: slot_ok_def)
  then have "?L \<notin> fst ` set (map (\<lambda>i. (lh_block s ! i, blk s (lh_block s ! i))) [0..<?m])"
    by (simp add: image_iff) (metis atLeastLessThan_iff)
  note view_writes_other [OF this, of "blk u"]
  then have "blk v ?L = ?H" using v'(7) u'(7) by simp
  then obtain w where w: "write_head (v\<lparr>lh_n := 0\<rparr>) = Done () w" "bcache.wrote n [(?L, header [] ?H)] (v\<lparr>lh_n := 0\<rparr>) w"
    using write_head_writes [of n "v\<lparr>lh_n := 0\<rparr>"] v'(1,3,12) u'(3,12) t'(3,12) q(6) by auto
  note w' = wroteD [OF w(2)] wrote_quiet [OF _ w(2)]
  have "commit s = Done () w"
    using q(2) t(1) u(1) v(1) w(1) u'(5) t'(5) by (simp add: commit_def write_log_def install_trans_def)
  moreover have "commit_writes s = ?W @ [(?L, ?H)] @ map (\<lambda>i. (lh_block s ! i, blk s (lh_block s ! i))) [0..<?m] @ [(?L, header [] ?H)]"
    by (simp add: commit_writes_def Let_def)
  moreover note all = wroteD [OF bcache.wrote_trans [OF t(2) bcache.wrote_trans [OF u(2) v2]]]
  moreover have "lh_n w = 0" using w'(13) v'(1) by simp
  ultimately show ?thesis using w'(1-4) by (intro exI [of _ w]) simp
qed

section \<open>Recovery\<close>

lemma blk_clean:
  assumes "cache_held n s Map.empty" and "x \<notin> pinned s"
  shows "blk s x = disk s ! unat x"
proof (cases "\<exists>b < 30. caches x (bufs s ! b)")
  case True
  then obtain b where b: "b < 30" "caches x (bufs s ! b)" by blast
  have "free_buf (bufs s ! b)" using cache_heldD(2) [OF assms(1) b(1)] by (simp add: holding_buf_def)
  then show ?thesis using blk_cached [OF cache_heldD(1) [OF assms(1)] b] cache_okD(9) [OF cache_heldD(1) [OF assms(1)] b] assms(2) b by (auto simp: pinned_def)
next
  case False
  then show ?thesis using blk_uncached [OF cache_heldD(1) [OF assms(1)]] by blast
qed

text \<open>The blocks that a header block names, and the disk writes of a recovery from a given disk.\<close>

definition header_blocks :: "bytes \<Rightarrow> u32 list" where
  "header_blocks d = map (\<lambda>i. get32 d (4 + 4 * i)) [0..<nat (sint (get32 d 0))]"

definition replay :: "bytes list \<Rightarrow> u32 \<Rightarrow> (u32 \<times> bytes) list" where
  "replay D L = (let d = D ! unat L; B = header_blocks d in
     map (\<lambda>i. (B ! i, D ! unat (logblk L i))) [0..<length B] @ [(L, header [] d)])"

definition log_valid :: "bytes list \<Rightarrow> u32 \<Rightarrow> bool" where
  "log_valid D L \<longleftrightarrow> (let B = header_blocks (D ! unat L) in length B \<le> 30 \<and> unat L < length D \<and>
     (\<forall>i < length B. unat (logblk L i) < length D \<and> unat (B ! i) < length D \<and> \<not> in_log L (B ! i)))"

definition booted :: "int \<Rightarrow> 'z logst_scheme \<Rightarrow> bool" where
  "booted n s \<longleftrightarrow> cache_held n s Map.empty \<and> pinned s = {} \<and> length (lh_block s) = 30"

lemma header_blocks_header: "length B \<le> 30 \<Longrightarrow> length d = 512 \<Longrightarrow> header_blocks (header B d) = B"
  by (rule nth_equalityI) (simp_all add: header_blocks_def header_n header_block sint_of_small)

lemma read_head_loop_eq:
  "\<forall>i \<in> set is. i < length (lh_block s) \<Longrightarrow>
   read_head_loop is d s = Done () (s\<lparr>lh_block := fold (\<lambda>i B. B[i := get32 d (4 + 4 * i)]) is (lh_block s)\<rparr>)"
  by (induction "is" arbitrary: s) auto

lemma fold_update:
  "m \<le> length B \<Longrightarrow> fold (\<lambda>i B. B[i := f i]) [0..<m] B = map f [0..<m] @ drop m B"
proof (induction m)
  case (Suc m)
  then have "(map f [0..<m] @ drop m B)[m := f m] = map f [0..<m] @ f m # drop (Suc m) B"
    by (simp add: list_update_append Cons_nth_drop_Suc [symmetric])
  then show ?case using Suc by simp
qed simp

lemma read_head_done:
  assumes "booted n s" and "log_dev s = 1" and "log_valid (disk s) (log_start s)"
  shows "\<exists>t. read_head s = Done () t \<and> booted n t \<and> quiet n t \<and> disk t = disk s \<and> dwrites t = dwrites s \<and> log_start t = log_start s \<and>
    nat (lh_n t) = length (header_blocks (disk s ! unat (log_start s))) \<and>
    take (nat (lh_n t)) (lh_block t) = header_blocks (disk s ! unat (log_start s))"
proof -
  let ?d = "disk s ! unat (log_start s)"
  let ?m = "nat (sint (get32 ?d 0))"
  have s: "cache_held n s Map.empty" "pinned s = {}" "length (lh_block s) = 30" "unat (log_start s) < length (disk s)" "?m \<le> 30"
    using assms by (simp_all add: booted_def log_valid_def Let_def header_blocks_def)
  obtain b t where t: "bread 1 (log_start s) s = Done b t" "cache_held n t [b \<mapsto> (log_start s, False)]" "blk t = blk s" "disk t = disk s"
    "dwrites t = dwrites s" "pinned t = pinned s" "cache_step s t"
    using bcache.read_only [OF s(1,4)] s(2) by auto
  have "blk s (log_start s) = ?d" using blk_clean [OF s(1)] s(2) by simp
  then have d: "b_data (bufs t ! b) = ?d" using bcache.data_law [OF t(2), of b "log_start s" False] t(3) by auto
  let ?u = "t\<lparr>lh_n := sint (get32 ?d 0), lh_block := map (\<lambda>i. get32 ?d (4 + 4 * i)) [0..<?m] @ drop ?m (lh_block s)\<rparr>"
  have "cache_held n ?u [b \<mapsto> (log_start s, False)]" using t(2) by simp
  then obtain v where v: "brelse b ?u = Done () v" "cache_held n v Map.empty" "disk v = disk ?u" "dwrites v = dwrites ?u"
    "pinned v = pinned ?u" "cache_step ?u v"
    using bcache.release_law [of n ?u "[b \<mapsto> (log_start s, False)]" b "log_start s"] by auto
  note l = cache_step_log [OF t(7)] cache_step_log [OF v(6)]
  have "read_head_loop [0..<?m] ?d (t\<lparr>lh_n := sint (get32 ?d 0)\<rparr>) = Done () ?u"
    using l(1) s(3,5) by (simp add: read_head_loop_eq fold_update)
  then have "read_head s = Done () v" using t(1) d v(1) assms(2) by (simp add: read_head_def)
  then show ?thesis using v l t s assms(2) by (intro exI [of _ v]) (simp add: booted_def quiet_def header_blocks_def)
qed

lemma recover_done:
  assumes "booted n s" and "log_dev s = 1" and "log_valid (disk s) (log_start s)"
  shows "\<exists>t. recover_from_log s = Done () t \<and> booted n t \<and> disk t = apply_writes (disk s) (replay (disk s) (log_start s)) \<and>
    dwrites t = dwrites s @ replay (disk s) (log_start s) \<and> lh_n t = 0"
proof -
  let ?L = "log_start s" and ?D = "disk s"
  let ?B = "header_blocks (?D ! unat ?L)"
  let ?W = "map (\<lambda>i. (?B ! i, ?D ! unat (logblk ?L i))) [0..<length ?B]"
  obtain t where t: "read_head s = Done () t" "booted n t" "quiet n t" "disk t = ?D" "dwrites t = dwrites s" "log_start t = ?L"
    "nat (lh_n t) = length ?B" "take (length ?B) (lh_block t) = ?B"
    using read_head_done [OF assms] by auto
  have V: "length ?B \<le> 30" "unat ?L < length ?D" using assms(3) by (simp_all add: log_valid_def Let_def)
  have B: "lh_block t ! i = ?B ! i" if "i < length ?B" for i using t(8) that by (metis nth_take)
  have sl: "\<forall>i \<in> set [0..<length ?B]. slot_ok t i \<and> roomy t i"
    using assms(3) t(2,4,6) V(1) B by (auto simp: slot_ok_def log_valid_def Let_def booted_def roomy_def)
  have bl: "blk t x = ?D ! unat x" for x using blk_clean [of n t x] t(2,4) by (simp add: booted_def)
  obtain u where u: "install_loop [0..<length ?B] t = Done () u"
    "bcache.wrote n (map (\<lambda>i. (lh_block t ! i, blk t (logblk ?L i))) [0..<length ?B]) t u"
    using install_writes [OF t(3) sl] t(6) by auto
  have hv: "map (\<lambda>i. (lh_block t ! i, blk t (logblk ?L i))) [0..<length ?B] = ?W" using B bl by simp
  note u2 = u(2) [unfolded hv]
  note u' = wrote_quiet [OF t(3) u2] wroteD [OF u2]
  have "?B ! i \<noteq> ?L" if "i < length ?B" for i using assms(3) that by (auto simp: log_valid_def Let_def)
  then have "?L \<notin> fst ` set ?W" by (simp add: image_iff) (metis atLeastLessThan_iff)
  note view_writes_other [OF this, of "blk t"]
  then have "blk u ?L = ?D ! unat ?L" using u'(7) bl by simp
  then obtain v where v: "write_head (u\<lparr>lh_n := 0\<rparr>) = Done () v" "bcache.wrote n [(?L, header [] (?D ! unat ?L))] (u\<lparr>lh_n := 0\<rparr>) v"
    using write_head_writes [of n "u\<lparr>lh_n := 0\<rparr>"] u'(1,3,12) t(4,6) V(2) by auto
  note v' = wroteD [OF v(2)] wrote_quiet [OF _ v(2)]
  have "recover_from_log s = Done () v" using t(1,7) u(1) v(1) by (simp add: recover_from_log_def install_trans_def)
  moreover have "replay ?D ?L = ?W @ [(?L, header [] (?D ! unat ?L))]" by (simp add: replay_def Let_def)
  moreover have "booted n v" using v'(1,5,12) u'(1,4,10) t(2) by (auto simp: booted_def)
  moreover have "lh_n v = 0" using v'(13) u'(1) by simp
  ultimately show ?thesis using v'(3,4) u'(8,9) t(4,5) by (intro exI [of _ v]) simp
qed

section \<open>A machine after a transaction\<close>

text \<open>
  A disk of 40 blocks whose super block puts the log at block 2, and a machine whose transaction has changed
  block 35.
\<close>

definition demo_disk :: "bytes list" where
  "demo_disk = (replicate 40 (replicate 512 0))[1 := blit (replicate 512 0) 16 (bytes32 2)]"

definition demo_buf :: buf where
  "demo_buf = buf_zero\<lparr>b_flags := 6, b_dev := 1, b_blockno := 35, b_data := replicate 512 7\<rparr>"

definition demo :: kernst where
  "demo = (machine demo_disk)\<lparr>bufs := demo_buf # replicate 29 buf_zero, lh_n := 1, lh_block := 35 # replicate 29 0\<rparr>"

lemma buf_zero_clean: "\<not> is_dirty buf_zero" "free_buf buf_zero" "b_dev buf_zero = 0"
  by (simp_all add: buf_zero_def is_dirty_def free_buf_def)

lemma demo_buf_bits: "is_dirty demo_buf" "is_valid demo_buf" "free_buf demo_buf" "b_dev demo_buf = 1" "b_blockno demo_buf = 35"
  "b_data demo_buf = replicate 512 7"
proof -
  have "(6 :: u32) AND 4 \<noteq> 0" "(6 :: u32) AND 2 \<noteq> 0" by simp_all
  then show "is_dirty demo_buf" "is_valid demo_buf" by (simp_all only: flag_bits is_dirty_def is_valid_def demo_buf_def buf.simps) simp_all
qed (simp_all add: demo_buf_def buf_zero_def free_buf_def)

lemma machine_booted: "\<forall>x \<in> set d. length x = 512 \<Longrightarrow> booted 1 (machine d)"
  using buf_zero_clean
  by (auto simp: booted_def cache_held_def cache_ok_def bufs_ok_def buf_ok_def running_def pinned_def holding_buf_def caches_def
      machine_def proc_run_def)

section \<open>Atomicity\<close>

lemma view_home_writes: "view_writes g (map (\<lambda>i. (h i, v (h i))) is) x = (if x \<in> h ` set is then v x else g x)"
  by (induction "is" arbitrary: g) auto

lemma view_outside_log: "\<not> in_log L x \<Longrightarrow> j \<le> 30 \<Longrightarrow> view_writes g (map (\<lambda>i. (logblk L i, v i)) [0..<j]) x = g x"
  using in_log_logblk [of _ L] by (intro view_writes_other) (auto simp: image_iff)

lemma commit_readyD:
  assumes "commit_ready n s"
  shows "quiet n s" "nat (lh_n s) \<le> 30" "length (lh_block s) = 30" "unat (log_start s) < length (disk s)"
    "i < nat (lh_n s) \<Longrightarrow> slot_ok s i" "get32 (disk s ! unat (log_start s)) 0 = 0"
    and "x \<notin> set (take (nat (lh_n s)) (lh_block s)) \<Longrightarrow> blk s x = disk s ! unat x"
    and "length (blk s (log_start s)) = 512"
proof -
  show q: "quiet n s" "nat (lh_n s) \<le> 30" "length (lh_block s) = 30" "unat (log_start s) < length (disk s)"
    "get32 (disk s ! unat (log_start s)) 0 = 0" using assms by (auto simp: commit_ready_def)
  show i: "slot_ok s i" if "i < nat (lh_n s)" for i using assms that by (auto simp: commit_ready_def)
  have ok: "cache_held n s Map.empty" using q(1) by (simp add: quiet_def)
  show cl: "blk s x = disk s ! unat x" if "x \<notin> set (take (nat (lh_n s)) (lh_block s))" for x
    using assms that by (intro blk_clean [OF ok]) (simp add: commit_ready_def)
  have "log_start s \<notin> set (take (nat (lh_n s)) (lh_block s))"
    using i q(2,3) by (fastforce simp: in_set_conv_nth slot_ok_def)
  then show "length (blk s (log_start s)) = 512"
    using cl cache_okD(5) [OF cache_heldD(1) [OF ok]] q(4) by simp
qed

text \<open>What the log header and the other blocks are after the first \<open>k\<close> writes of a commit.\<close>

lemma take_commit_writes:
  assumes "m = nat (lh_n s)" and "L = log_start s" and "H = header (take m (lh_block s)) (blk s L)"
  shows "k \<le> m \<Longrightarrow> take k (commit_writes s) = map (\<lambda>i. (logblk L i, blk s (lh_block s ! i))) [0..<k]"
    and "m < k \<Longrightarrow> take k (commit_writes s) = map (\<lambda>i. (logblk L i, blk s (lh_block s ! i))) [0..<m] @ [(L, H)] @
      map (\<lambda>i. (lh_block s ! i, blk s (lh_block s ! i))) [0..<min m (k - Suc m)] @ (if k < 2 * m + 2 then [] else [(L, header [] H)])"
proof -
  have "m \<le> k - Suc m \<Longrightarrow> k < 2 * m + 2 \<Longrightarrow> k - Suc m = m" by arith
  then show "m < k \<Longrightarrow> take k (commit_writes s) = map (\<lambda>i. (logblk L i, blk s (lh_block s ! i))) [0..<m] @ [(L, H)] @
      map (\<lambda>i. (lh_block s ! i, blk s (lh_block s ! i))) [0..<min m (k - Suc m)] @ (if k < 2 * m + 2 then [] else [(L, header [] H)])"
    using assms by (auto simp: commit_writes_def Let_def take_map take_Cons' min_def)
qed (use assms in \<open>auto simp: commit_writes_def Let_def take_map take_Cons' min_def\<close>)

lemma empty_header: "get32 d 0 = 0 \<Longrightarrow> header_blocks d = []"
  by (simp add: header_blocks_def)

text \<open>A stop before the header is written: the log on the disk is still empty.\<close>

lemma replay_before:
  assumes "commit_ready n s" and "k \<le> nat (lh_n s)" and "D = apply_writes (disk s) (take k (commit_writes s))"
  shows "log_valid D (log_start s)"
    and "unat x < length (disk s) \<Longrightarrow> \<not> in_log (log_start s) x \<Longrightarrow> apply_writes D (replay D (log_start s)) ! unat x = disk s ! unat x"
    and "unat x < length (disk s) \<Longrightarrow> \<not> in_log (log_start s) x \<Longrightarrow> D ! unat x = disk s ! unat x"
proof -
  let ?L = "log_start s"
  note r = commit_readyD [OF assms(1)]
  have k: "k \<le> 30" using assms(2) r(2) by simp
  have D: "unat y < length (disk s) \<Longrightarrow> D ! unat y = view_writes (\<lambda>z. disk s ! unat z) (map (\<lambda>i. (logblk ?L i, blk s (lh_block s ! i))) [0..<k]) y" for y
    using assms(3) take_commit_writes(1) [OF refl refl refl assms(2)] by (simp add: nth_apply_writes)
  have "D ! unat ?L = disk s ! unat ?L" using D [OF r(4)] view_log_writes_start [OF k] by simp
  then have e: "header_blocks (D ! unat ?L) = []" using r(6) by (simp add: empty_header)
  then show "log_valid D ?L" using r(4) assms(3) by (simp add: log_valid_def)
  show Dx: "D ! unat x = disk s ! unat x" if "unat x < length (disk s)" "\<not> in_log ?L x" for x
    using D [OF that(1)] view_outside_log [OF that(2) k] by simp
  show "apply_writes D (replay D ?L) ! unat x = disk s ! unat x" if x: "unat x < length (disk s)" "\<not> in_log ?L x"
  proof -
    have "x \<noteq> ?L" using x(2) by auto
    then show ?thesis using Dx [OF x] e by (simp add: replay_def unat_neq)
  qed
qed

text \<open>A stop after the header is written: the recovery finishes the copying, or finds that it was done.\<close>

lemma replay_after:
  assumes "commit_ready n s" and "nat (lh_n s) < k" and "D = apply_writes (disk s) (take k (commit_writes s))"
  shows "log_valid D (log_start s)"
    and "unat x < length (disk s) \<Longrightarrow> \<not> in_log (log_start s) x \<Longrightarrow> apply_writes D (replay D (log_start s)) ! unat x = blk s x"
    and "unat x < length (disk s) \<Longrightarrow> \<not> in_log (log_start s) x \<Longrightarrow> D ! unat x = blk s x \<or> D ! unat x = disk s ! unat x"
proof -
  define m L where mL: "m = nat (lh_n s)" "L = log_start s"
  define B H where BH: "B = take m (lh_block s)" "H = header B (blk s L)"
  note r = commit_readyD [OF assms(1), folded mL, folded BH]
  have lB: "length B = m" "length B \<le> 30" using r(2,3) BH by simp_all
  have Bi: "i < m \<Longrightarrow> lh_block s ! i = B ! i" for i using BH(1) by simp
  let ?hw = "\<lambda>j. map (\<lambda>i. (lh_block s ! i, blk s (lh_block s ! i))) [0..<j]"
  define j c where jc: "j = min m (k - Suc m)" "c \<longleftrightarrow> k < 2 * m + 2"
  have j: "j \<le> m" "\<not> c \<Longrightarrow> j = m" using jc by auto
  let ?g = "view_writes (\<lambda>z. disk s ! unat z) (map (\<lambda>i. (logblk L i, blk s (lh_block s ! i))) [0..<m])"
  have home: "(\<lambda>i. lh_block s ! i) ` {0..<m} = set B" using nth_image [of m "lh_block s"] r(2,3) BH(1) by simp
  have out: "\<not> in_log L (B ! i)" "unat (B ! i) < length (disk s)" "unat (logblk L i) < length (disk s)" if "i < m" for i
    using r(5) [OF that] Bi [OF that] mL(2) by (simp_all add: slot_ok_def)
  then have notB: "in_log L y \<Longrightarrow> y \<notin> (\<lambda>i. lh_block s ! i) ` {0..<j}" for y
    using j(1) Bi by fastforce
  have D: "unat y < length (disk s) \<Longrightarrow> D ! unat y = view_writes (view_writes (?g(L := H)) (?hw j)) (if c then [] else [(L, header [] H)]) y" for y
    unfolding assms(3) nth_apply_writes
    using take_commit_writes(2) [OF mL(1) mL(2) BH(2) [unfolded BH(1)], of k] assms(2) mL(1) by (simp only: view_writes_simps jc)
  have hw: "view_writes f (?hw j) y = (if y \<in> (\<lambda>i. lh_block s ! i) ` {0..<j} then blk s y else f y)" for f j y
    using view_home_writes [of f "\<lambda>i. lh_block s ! i" "blk s" "[0..<j]" y] by simp
  have lenH: "length H = 512" using r(8) BH(2) by simp
  have DL: "D ! unat L = (if c then H else header [] H)" using D [OF r(4)] notB [of L] by (simp add: hw)
  then have hb: "header_blocks (D ! unat L) = (if c then B else [])"
    using header_blocks_header [of B "blk s L"] header_blocks_header [of "[]" H] lB r(8) lenH BH(2) by simp
  then show "log_valid D (log_start s)" using out lB r(4) assms(3) mL(2) by (auto simp: log_valid_def)
  have Dlog: "D ! unat (logblk L i) = blk s (B ! i)" if "i < m" for i
  proof -
    have i: "i < 30" using that r(2) by simp
    show ?thesis using D [OF out(3) [OF that]] notB [of "logblk L i"] in_log_logblk [OF i] logblk_start [OF i, of L]
      view_log_writes_same [OF r(2) that] Bi [OF that] by (simp add: hw)
  qed
  have g: "?g y = disk s ! unat y" if "\<not> in_log L y" for y using view_outside_log [OF that r(2)] .
  have Dx: "D ! unat x = (if x \<in> (\<lambda>i. lh_block s ! i) ` {0..<j} then blk s x else disk s ! unat x)" if "unat x < length (disk s)" "\<not> in_log L x"
  proof -
    have "x \<noteq> L" using that(2) by auto
    then show ?thesis using D [OF that(1)] g [OF that(2)] by (simp add: hw)
  qed
  then show "D ! unat x = blk s x \<or> D ! unat x = disk s ! unat x" if "unat x < length (disk s)" "\<not> in_log (log_start s) x"
    using that mL(2) by simp
  show "apply_writes D (replay D (log_start s)) ! unat x = blk s x" if x: "unat x < length (disk s)" "\<not> in_log (log_start s) x"
  proof -
    have L: "\<not> in_log L x" "x \<noteq> L" using x(2) mL(2) by auto
    have lenD: "unat x < length D" using x(1) assms(3) by simp
    have "replay D L = (if c then ?hw m else []) @ [(L, header [] (D ! unat L))]"
      using hb lB Dlog Bi by (simp add: replay_def Let_def)
    then have "apply_writes D (replay D L) ! unat x = (if c \<and> x \<in> set B then blk s x else D ! unat x)"
      using lenD L(2) home by (simp add: unat_neq nth_apply_writes hw)
    moreover have "x \<notin> set B \<Longrightarrow> D ! unat x = blk s x" using Dx [OF x(1) L(1)] r(7) by auto
    moreover have "\<not> c \<Longrightarrow> x \<in> set B \<Longrightarrow> D ! unat x = blk s x" using Dx [OF x(1) L(1)] home j(2) by simp
    ultimately show ?thesis using mL(2) by auto
  qed
qed

lemma booted_updates [simp]:
  "booted n (s\<lparr>log_start := a, log_size := b, log_dev := c\<rparr>) = booted n s"
  by (simp add: booted_def cache_held_def cache_ok_def running_def pinned_def)

lemma initlog_done:
  assumes "booted n s" and "1 < length (disk s)" and "L = sb_logstart (sb_of (disk s ! 1))" and "log_valid (disk s) L"
  shows "\<exists>t. initlog 1 s = Done () t \<and> booted n t \<and> disk t = apply_writes (disk s) (replay (disk s) L) \<and>
    dwrites t = dwrites s @ replay (disk s) L \<and> lh_n t = 0"
proof -
  have s: "cache_held n s Map.empty" "pinned s = {}" "unat (1 :: u32) < length (disk s)" using assms(1,2) by (simp_all add: booted_def)
  obtain b t where t: "bread 1 1 s = Done b t" "cache_held n t [b \<mapsto> (1, False)]" "blk t = blk s" "disk t = disk s"
    "dwrites t = dwrites s" "pinned t = pinned s" "cache_step s t"
    using bcache.read_only [OF s(1,3)] s(2) by auto
  have "blk s 1 = disk s ! 1" using blk_clean [OF s(1), of 1] s(2) by simp
  then have d: "b_data (bufs t ! b) = disk s ! 1" using bcache.data_law [OF t(2), of b 1 False] t(3) by auto
  obtain u where u: "brelse b t = Done () u" "cache_held n u Map.empty" "disk u = disk t" "dwrites u = dwrites t"
    "pinned u = pinned t" "cache_step t u"
    using bcache.release_law [OF t(2), of b 1] by auto
  let ?u = "u\<lparr>log_start := L, log_size := sb_nlog (sb_of (disk s ! 1)), log_dev := 1\<rparr>"
  have "initlog 1 s = recover_from_log ?u" using t(1) u(1) d assms(3) by (simp add: initlog_def readsb_def Let_def)
  moreover have "booted n ?u" unfolding booted_updates
    using u t assms(1) cache_step_log [OF t(7)] cache_step_log [OF u(6)] by (simp add: booted_def)
  ultimately show ?thesis using recover_done [of n ?u] assms(4) u(3,4) t(4,5) by simp
qed

text \<open>The superblock says where the log is, and is no block of the transaction.\<close>

definition super_ok :: "'z logst_scheme \<Rightarrow> bool" where
  "super_ok s \<longleftrightarrow> 1 < length (disk s) \<and> sb_logstart (sb_of (disk s ! 1)) = log_start s \<and> \<not> in_log (log_start s) 1 \<and>
     1 \<notin> set (take (nat (lh_n s)) (lh_block s))"

text \<open>
  (C1) A transaction is atomic. If the machine stops after any number \<open>k\<close> of the disk writes of
  \<^verbatim>\<open>commit\<close> and boots again, the recovery of \<^verbatim>\<open>initlog\<close> completes, and every block outside of the log is as
  before the transaction, when the header was not written yet, or as the transaction left it in memory.
\<close>

theorem commit_atomic:
  assumes "commit_ready n s" and "super_ok s" and "commit s = Done () t"
    and "booted n' r" and "disk r = apply_writes (disk s) (take k (drop (length (dwrites s)) (dwrites t)))"
  shows "\<exists>u. initlog 1 r = Done () u \<and> (\<forall>x. unat x < length (disk s) \<and> \<not> in_log (log_start s) x \<longrightarrow>
    disk u ! unat x = (if k \<le> nat (lh_n s) then disk s ! unat x else blk s x))"
proof -
  let ?D = "disk r" and ?L = "log_start s"
  have w: "?D = apply_writes (disk s) (take k (commit_writes s))" using commit_done [OF assms(1)] assms(3,5) by auto
  have one: "unat (1 :: u32) < length (disk s)" "\<not> in_log ?L 1" "blk s 1 = disk s ! 1"
    using assms(2) commit_readyD(7) [OF assms(1), of 1] by (simp_all add: super_ok_def)
  have "log_valid ?D ?L \<and> ?D ! 1 = disk s ! 1 \<and> (\<forall>x. unat x < length (disk s) \<and> \<not> in_log ?L x \<longrightarrow>
    apply_writes ?D (replay ?D ?L) ! unat x = (if k \<le> nat (lh_n s) then disk s ! unat x else blk s x))"
  proof (cases "k \<le> nat (lh_n s)")
    case True
    show ?thesis using replay_before [OF assms(1) True w] replay_before(3) [OF assms(1) True w one(1,2)] True by simp
  next
    case False
    then have k: "nat (lh_n s) < k" by simp
    show ?thesis using replay_after [OF assms(1) k w] replay_after(3) [OF assms(1) k w one(1,2)] one(3) False by simp
  qed
  moreover have "1 < length ?D" using one(1) w by simp
  ultimately show ?thesis using initlog_done [OF assms(4), of ?L] assms(2) by (auto simp: super_ok_def)
qed

text \<open>
  (C2) A commit completes: it returns, with an empty header in memory, and every block outside of the log
  is on the disk as the transaction left it.
\<close>

theorem commit_durable:
  assumes "commit_ready n s"
  shows "\<exists>t. commit s = Done () t \<and> lh_n t = 0 \<and> (\<forall>x. unat x < length (disk s) \<and> \<not> in_log (log_start s) x \<longrightarrow>
    disk t ! unat x = blk s x \<and> blk t x = blk s x)"
proof -
  let ?m = "nat (lh_n s)" and ?L = "log_start s"
  obtain t where t: "commit s = Done () t" "blk t = view_writes (blk s) (commit_writes s)" "disk t = apply_writes (disk s) (commit_writes s)"
    "lh_n t = 0"
    using commit_done [OF assms] by blast
  have "disk t ! unat x = blk s x \<and> blk t x = blk s x" if x: "unat x < length (disk s)" "\<not> in_log ?L x" for x
  proof -
    have "x \<noteq> ?L" using x(2) by auto
    then have v: "view_writes f (commit_writes s) x = (if x \<in> (\<lambda>i. lh_block s ! i) ` {0..<?m} then blk s x else f x)" for f
      using view_outside_log [OF x(2) commit_readyD(2) [OF assms]] view_home_writes [where h = "\<lambda>i. lh_block s ! i" and v = "blk s"]
      by (simp add: commit_writes_def Let_def)
    have "x \<notin> (\<lambda>i. lh_block s ! i) ` {0..<?m} \<Longrightarrow> blk s x = disk s ! unat x"
      using commit_readyD(2,3,7) [OF assms] nth_image [of ?m "lh_block s"] by simp
    then show ?thesis using t(2,3) x(1) v by (simp add: nth_apply_writes)
  qed
  with t show ?thesis by blast
qed

lemma view_writes_again: "view_writes (view_writes f (take j ws)) ws = view_writes f ws"
proof
  fix x
  show "view_writes (view_writes f (take j ws)) ws x = view_writes f ws x"
  proof (cases "x \<in> fst ` set ws")
    case True
    then obtain z where "map_of (rev ws) x = Some z" by (metis not_None_eq map_of_eq_None_iff set_rev)
    then show ?thesis by (simp add: view_writes_map_of)
  next
    case False
    then have "x \<notin> fst ` set (take j ws)" by (meson image_mono set_take_subset subsetD)
    then show ?thesis using False by (simp add: view_writes_other)
  qed
qed

lemma apply_writes_again: "apply_writes (apply_writes d (take j ws)) ws = apply_writes d ws"
  if "length d \<le> 2 ^ 32" for d :: "bytes list"
proof (rule nth_equalityI)
  fix i assume "i < length (apply_writes (apply_writes d (take j ws)) ws)"
  then have i: "i < length d" by simp
  then have u: "unat (of_nat i :: u32) = i" using that unfolding unsigned_of_nat by (simp add: take_bit_nat_eq_self)
  have "view_writes (\<lambda>k. apply_writes d (take j ws) ! unat k) ws (of_nat i) = view_writes (view_writes (\<lambda>k. d ! unat k) (take j ws)) ws (of_nat i)"
    using nth_apply_writes [of "of_nat i" d "take j ws"] i u
    by (cases "map_of (rev ws) (of_nat i)") (auto simp: view_writes_map_of)
  then show "apply_writes (apply_writes d (take j ws)) ws ! i = apply_writes d ws ! i"
    using nth_apply_writes [of "of_nat i" "apply_writes d (take j ws)" ws] nth_apply_writes [of "of_nat i" d ws] i u
    by (simp add: view_writes_again)
qed simp

lemma header_Nil: "header [] (header [] d) = header [] d"
proof -
  have "blit (blit d 0 b) 0 b = blit d 0 b" for b
  proof (rule nth_equalityI)
    fix i assume "i < length (blit (blit d 0 b) 0 b)"
    then show "blit (blit d 0 b) 0 b ! i = blit d 0 b ! i" by (auto simp: blit_def nth_append)
  qed simp
  then show ?thesis by (simp add: header_def)
qed

lemma replay_again:
  assumes "log_valid D L" and "length D \<le> 2 ^ 32" and D': "D' = apply_writes D (take j (replay D L))"
  shows "log_valid D' L \<and> apply_writes D' (replay D' L) = apply_writes D (replay D L)"
proof -
  let ?B = "header_blocks (D ! unat L)"
  let ?W = "map (\<lambda>i. (?B ! i, D ! unat (logblk L i))) [0..<length ?B]"
  have L: "unat L < length D" and B: "length ?B \<le> 30" and Bi: "\<And>i. i < length ?B \<Longrightarrow> \<not> in_log L (?B ! i) \<and> unat (logblk L i) < length D"
    using assms(1) by (simp_all add: log_valid_def Let_def)
  have rp: "replay D L = ?W @ [(L, header [] (D ! unat L))]" by (simp add: replay_def Let_def)
  have keep: "view_writes f (take j ?W) y = f y" if "in_log L y" for f y
    using Bi that by (intro view_writes_other) (auto simp: take_map image_iff dest: in_set_takeD)
  show ?thesis
  proof (cases "j \<le> length ?B")
    case True
    then have t: "take j (replay D L) = take j ?W" using rp by simp
    have "D' ! unat y = D ! unat y" if "in_log L y" "unat y < length D" for y
      using nth_apply_writes [OF that(2), of "take j ?W"] keep [OF that(1)] D' t by simp
    then have l: "D' ! unat L = D ! unat L" "\<And>i. i < length ?B \<Longrightarrow> D' ! unat (logblk L i) = D ! unat (logblk L i)"
      using L Bi B in_log_logblk [of _ L] by auto
    then have r: "replay D' L = replay D L" by (simp add: replay_def Let_def)
    show ?thesis using assms(1) l(1) D' apply_writes_again [OF assms(2), of j "replay D L"] unfolding r by (simp add: log_valid_def)
  next
    case False
    then have D1: "D' = apply_writes D (replay D L)" using D' rp by simp
    then have d: "D' ! unat L = header [] (D ! unat L)" using L rp by simp
    have e: "header_blocks (D' ! unat L) = []"
    proof (cases "length (D ! unat L) < 4")
      case True
      then show ?thesis unfolding d by (simp add: header_blocks_def header_def blit_def get32_def getb_def bytes32_def)
    next
      case False
      then show ?thesis unfolding d by (simp add: header_blocks_def header_def get32_bytes32)
    qed
    then have "replay D' L = [(L, D' ! unat L)]" using d by (simp add: replay_def header_Nil)
    then show ?thesis using D1 e L by (simp add: log_valid_def)
  qed
qed

text \<open>
  (C3) A recovery that is itself interrupted can be started again: after any number \<open>j\<close> of its disk writes,
  the next recovery completes and leaves the disk that an undisturbed one leaves.
\<close>

theorem recovery_restartable:
  assumes "booted n r" and "initlog 1 r = Done () t" and "log_valid (disk r) L" and "L = sb_logstart (sb_of (disk r ! 1))"
    and "\<not> in_log L 1" and "1 \<notin> set (header_blocks (disk r ! unat L))" and "1 < length (disk r)" and "length (disk r) \<le> 2 ^ 32"
    and "booted n' r'" and "disk r' = apply_writes (disk r) (take j (drop (length (dwrites r)) (dwrites t)))"
  shows "\<exists>u. initlog 1 r' = Done () u \<and> disk u = disk t"
proof -
  let ?R = "replay (disk r) L"
  have t: "disk t = apply_writes (disk r) ?R" "dwrites t = dwrites r @ ?R" using initlog_done [OF assms(1,7,4,3)] assms(2) by auto
  then have r': "disk r' = apply_writes (disk r) (take j ?R)" using assms(10) by simp
  have "1 \<noteq> L" using assms(5) by auto
  then have "1 \<notin> fst ` set ?R" using assms(6) by (auto simp: replay_def Let_def) (metis nth_mem)
  then have "1 \<notin> fst ` set (take j ?R)" by (meson image_mono set_take_subset subsetD)
  then have "disk r' ! 1 = disk r ! 1"
    using nth_apply_writes [of 1 "disk r" "take j ?R"] assms(7) r' by (simp add: view_writes_other)
  moreover have "log_valid (disk r') L \<and> apply_writes (disk r') (replay (disk r') L) = disk t"
    using replay_again [OF assms(3,8) r'] t(1) by simp
  ultimately show ?thesis using initlog_done [OF assms(9), of L] assms(4,7) r' by auto
qed

lemma demo_bufs: "b < 30 \<Longrightarrow> bufs demo ! b = (if b = 0 then demo_buf else buf_zero)"
  by (simp add: demo_def nth_Cons')

lemma demo_fields:
  "lru demo = rev [0..<30]" "disk demo = demo_disk" "held demo = []" "length (bufs demo) = 30" "log_dev demo = 1" "lh_n demo = 1"
  "log_start demo = 2" "lh_block demo = 35 # replicate 29 0" "curproc demo = Some 0" "dwrites demo = []"
  "ptable demo = proc_run 1 1 RUNNING # replicate 63 proc_zero"
  by (simp_all add: demo_def machine_def)

lemma demo_disk_simps: "length demo_disk = 40" "x \<in> set demo_disk \<Longrightarrow> length x = 512" "demo_disk ! 2 = replicate 512 0"
  "demo_disk ! 1 = blit (replicate 512 0) 16 (bytes32 2)"
proof -
  show "length x = 512" if "x \<in> set demo_disk"
    using that set_update_subset_insert [of "replicate 40 (replicate 512 0)" 1] unfolding demo_disk_def by fastforce
qed (simp_all add: demo_disk_def)

lemma demo_cache: "cache_ok 1 demo"
  unfolding cache_ok_def bufs_ok_def
proof (intro conjI allI impI ballI)
  show "running 1 demo" by (simp add: running_def demo_fields)
  show "distinct (lru demo)" "set (lru demo) = {..<30}" "length (bufs demo) = 30" by (auto simp: demo_fields)
  show "length x = 512" if "x \<in> set (disk demo)" for x using that demo_disk_simps(2) by (simp add: demo_fields)
  show "buf_ok 1 (disk demo) (bufs demo ! b)" if "b < 30" for b
    using that demo_buf_bits buf_zero_clean by (simp add: demo_bufs buf_ok_def demo_fields demo_disk_simps)
  show "b = c" if "b < 30" "c < 30" "caches k (bufs demo ! b) \<and> caches k (bufs demo ! c)" for b c k
    using that buf_zero_clean by (auto simp: demo_bufs caches_def split: if_splits)
qed

lemma demo_ready: "commit_ready 1 demo"
proof -
  have d: "pinned demo = {35}" using demo_buf_bits buf_zero_clean by (auto simp: pinned_def demo_bufs caches_def split: if_splits intro!: exI [of _ 0])
  have "cache_held 1 demo Map.empty" using demo_cache demo_buf_bits buf_zero_clean by (simp add: cache_held_def holding_buf_def demo_bufs)
  then have q: "quiet 1 demo" using d by (simp add: quiet_def demo_fields)
  have s: "slot_ok demo i" if "i < nat (lh_n demo)" for i
    using that by (simp add: slot_ok_def demo_fields demo_disk_simps logblk_def in_log_def)
  show ?thesis using q s d by (simp add: commit_ready_def demo_fields demo_disk_simps get32_def getb_def)
qed

lemma in_log_2: "\<not> in_log 2 1" "\<not> in_log 2 35"
  by code_simp+

lemma demo_super: "super_ok demo"
  using demo_disk_simps(4) in_log_2
  by (simp add: super_ok_def demo_fields demo_disk_simps sb_of_def get32_bytes32)

lemma blk_demo: "blk demo 35 = replicate 512 7"
  using blk_cached [OF demo_cache, of 0 35] demo_buf_bits by (simp add: demo_bufs caches_def)

theorem commit_durable_witness:
  "commit_ready 1 demo \<and> (\<exists>t. commit demo = Done () t \<and> disk t ! 35 = replicate 512 7)"
proof -
  obtain t where t: "commit demo = Done () t" and all: "\<forall>x. unat x < length (disk demo) \<and> \<not> in_log (log_start demo) x \<longrightarrow>
      disk t ! unat x = blk demo x \<and> blk t x = blk demo x"
    using commit_durable [OF demo_ready] by blast
  have "disk t ! 35 = replicate 512 7"
    using spec [OF all, of 35] blk_demo in_log_2 by (simp add: demo_fields demo_disk_simps)
  with t demo_ready show ?thesis by blast
qed

lemma apply_writes_512:
  "\<forall>x \<in> set d. length x = 512 \<Longrightarrow> \<forall>w \<in> set ws. length (snd w) = 512 \<Longrightarrow> \<forall>x \<in> set (apply_writes d ws). length x = 512"
proof (induction ws arbitrary: d)
  case (Cons w ws)
  obtain x v where w: "w = (x, v)" by (cases w)
  have "length v = 512" using Cons.prems(2) w by simp
  then have "\<forall>y \<in> set (d[unat x := v]). length y = 512"
    using Cons.prems(1) set_update_subset_insert [of d "unat x" v] by blast
  then show ?case using Cons.IH [of "d[unat x := v]"] Cons.prems(2) w by simp
qed simp

theorem commit_atomic_witness:
  "\<exists>t u. commit demo = Done () t \<and> initlog 1 (machine (apply_writes demo_disk (take 2 (dwrites t)))) = Done () u \<and>
     disk u ! 35 = replicate 512 7"
proof -
  obtain t where t: "commit demo = Done () t" "dwrites t = commit_writes demo"
    using commit_done [OF demo_ready] by (auto simp: demo_fields)
  have "\<forall>w \<in> set (commit_writes demo). length (snd w) = 512"
    using blk_demo commit_readyD(8) [OF demo_ready] by (simp add: commit_writes_def Let_def demo_fields)
  then have "\<forall>w \<in> set (take 2 (commit_writes demo)). length (snd w) = 512" by (meson in_set_takeD)
  then have b: "booted 1 (machine (apply_writes demo_disk (take 2 (dwrites t))))"
    using t(2) demo_disk_simps(2) by (intro machine_booted apply_writes_512) auto
  have "disk (machine (apply_writes demo_disk (take 2 (dwrites t)))) = apply_writes (disk demo) (take 2 (drop (length (dwrites demo)) (dwrites t)))"
    by (simp add: machine_def demo_fields)
  then obtain u where u: "initlog 1 (machine (apply_writes demo_disk (take 2 (dwrites t)))) = Done () u"
    and all: "\<forall>x. unat x < length (disk demo) \<and> \<not> in_log (log_start demo) x \<longrightarrow>
      disk u ! unat x = (if 2 \<le> nat (lh_n demo) then disk demo ! unat x else blk demo x)"
    using commit_atomic [OF demo_ready demo_super t(1) b] by blast
  have "disk u ! 35 = replicate 512 7"
    using spec [OF all, of 35] blk_demo in_log_2 by (simp add: demo_fields demo_disk_simps)
  with t(1) u show ?thesis by blast
qed

definition demo_log :: "bytes list" where
  "demo_log = demo_disk[2 := header [35] (replicate 512 0), 3 := replicate 512 7]"

lemma demo_log_simps: "length demo_log = 40" "\<forall>x \<in> set demo_log. length x = 512" "demo_log ! 1 = demo_disk ! 1"
  "header_blocks (demo_log ! 2) = [35]" "demo_log ! 3 = replicate 512 7" "length (demo_log ! 2) = 512"
proof -
  have e: "demo_log = apply_writes demo_disk [(2, header [35] (replicate 512 0)), (3, replicate 512 7)]" by (simp add: demo_log_def)
  show "\<forall>x \<in> set demo_log. length x = 512" unfolding e by (rule apply_writes_512) (simp_all add: demo_disk_simps(2))
qed (simp_all add: demo_log_def demo_disk_simps header_blocks_header)

theorem recovery_restartable_witness:
  "\<exists>t u. initlog 1 (machine demo_log) = Done () t \<and>
     initlog 1 (machine (apply_writes demo_log (take 1 (dwrites t)))) = Done () u \<and> disk u = disk t"
proof -
  have b: "booted 1 (machine demo_log)" using demo_log_simps by (intro machine_booted) simp
  have m: "disk (machine d) = d" "dwrites (machine d) = []" for d by (simp_all add: machine_def)
  have L: "2 = sb_logstart (sb_of (disk (machine demo_log) ! 1))"
    using demo_log_simps(3) demo_disk_simps(4) by (simp add: m sb_of_def get32_bytes32)
  have v: "log_valid (disk (machine demo_log)) 2" using demo_log_simps by (simp add: m log_valid_def logblk_def in_log_def)
  have one: "1 < length (disk (machine demo_log))" using demo_log_simps by (simp add: m)
  obtain t where t: "initlog 1 (machine demo_log) = Done () t" "dwrites t = replay demo_log 2"
    using initlog_done [OF b one L v] by (auto simp: m)
  have "\<forall>w \<in> set (take 1 (replay demo_log 2)). length (snd w) = 512"
    using demo_log_simps by (auto simp: replay_def Let_def logblk_def dest!: in_set_takeD)
  then have "booted 1 (machine (apply_writes demo_log (take 1 (dwrites t))))"
    using demo_log_simps unfolding t(2) by (intro machine_booted apply_writes_512) auto
  from recovery_restartable [OF b t(1) v L _ _ one _ this, of 1] t(1) demo_log_simps show ?thesis
    by (auto simp: m in_log_2)
qed

end
