(* ===== verification/Log_Trans.thy ===== *)
theory Log_Trans
  imports Log_Crash
begin

text \<open>
  Building up a transaction: \<^verbatim>\<open>log_write\<close> puts each block once into the header and pins it in the cache,
  which is what \<^verbatim>\<open>commit\<close> relies on (\<open>commit_ready\<close> in \<open>Log_Crash\<close>); and \<^verbatim>\<open>begin_op\<close> lets in more
  operations than the log of \<^verbatim>\<open>mkfs\<close> has room for.
\<close>

lemma log_index_eq: "log_index x i B = i + length (takeWhile (\<lambda>y. y \<noteq> x) B)"
  by (induction B arbitrary: i) auto

lemma takeWhile_mem: "x \<in> set B \<Longrightarrow> length (takeWhile (\<lambda>y. y \<noteq> x) B) < length B \<and> B ! length (takeWhile (\<lambda>y. y \<noteq> x) B) = x"
  by (induction B) auto

lemma takeWhile_not_mem: "x \<notin> set B \<Longrightarrow> takeWhile (\<lambda>y. y \<noteq> x) B = B"
  by (induction B) auto

text \<open>The header after a block is logged: unchanged when the block is in it, longer by the block otherwise.\<close>

definition log_block :: "u32 \<Rightarrow> int \<Rightarrow> u32 list \<Rightarrow> u32 list \<times> int" where
  "log_block x m B = (let i = log_index x 0 (take (nat m) B) in (B[i := x], if int i = m then m + 1 else m))"

lemma log_block_spec:
  assumes "0 \<le> m" and "nat m < length B" and "log_block x m B = (C, k)"
  shows "take (nat k) C = (if x \<in> set (take (nat m) B) then take (nat m) B else take (nat m) B @ [x])"
    and "k = (if x \<in> set (take (nat m) B) then m else m + 1)" and "length C = length B" and "log_index x 0 (take (nat m) B) < length B"
proof -
  let ?A = "take (nat m) B"
  have len: "length ?A = nat m" using assms(2) by simp
  have r: "take (nat k) C = (if x \<in> set ?A then ?A else ?A @ [x]) \<and> k = (if x \<in> set ?A then m else m + 1) \<and> log_index x 0 ?A < length B"
  proof (cases "x \<in> set ?A")
    case True
    then have i: "log_index x 0 ?A < nat m" "?A ! log_index x 0 ?A = x" using takeWhile_mem [OF True] len by (auto simp: log_index_eq)
    then have "B[log_index x 0 ?A := x] = B" by (metis list_update_id nth_take)
    then show ?thesis using True i assms by (auto simp: log_block_def Let_def)
  next
    case False
    then have "log_index x 0 ?A = nat m" using len unfolding log_index_eq takeWhile_not_mem [OF False] by simp
    then show ?thesis using False assms by (auto simp: log_block_def Let_def take_Suc_conv_app_nth nat_add_distrib)
  qed
  then show "take (nat k) C = (if x \<in> set ?A then ?A else ?A @ [x])" "k = (if x \<in> set ?A then m else m + 1)"
    "log_index x 0 ?A < length B" by blast+
  show "length C = length B" using assms(3) by (auto simp: log_block_def Let_def)
qed

lemma mark_dirty_law:
  assumes s: "cache_held n s h" and hb: "h b = Some (x, m)" and t: "t = set_buf b (\<lambda>q. q\<lparr>b_flags := b_flags q OR 4\<rparr>) s"
  shows "cache_held n t (h(b \<mapsto> (x, False)))" "blk t = blk s" "disk t = disk s" "pinned t = insert x (pinned s)"
proof -
  note ok = cache_heldD(1) [OF s]
  have b: "b < 30" "caches x (bufs s ! b)" "held_buf n (bufs s ! b)" using cache_heldD(3) [OF s hb] by auto
  note hd = held_bufD [OF ok b]
  let ?q = "(bufs s ! b)\<lparr>b_flags := b_flags (bufs s ! b) OR 4\<rparr>"
  have q: "caches x ?q" "buf_ok n (disk t) ?q" "held_buf n ?q" "is_dirty ?q"
    using b hd t by (simp_all add: buf_ok_def caches_def is_valid_def is_dirty_def free_buf_def held_buf_def mine_def flag_updates(2) [unfolded One_nat_def])
  have ts: "bufs t = (bufs s)[b := ?q]" "running n t" "distinct (lru t)" "set (lru t) = {..<30}" "length (disk t) = length (disk s)"
    "\<forall>y \<in> set (disk t). length y = 512" using t cache_okD [OF ok] by simp_all
  have bq: "bufs t ! b = ?q" using ts(1) hd(2) by simp
  have p: "held_post n x b (blk s x) (disk s) s t" unfolding held_post_def
    using held_change [OF ok b(1,2) q(1,2) ts] t q(1) bq blk_held [OF s hb] cache_step_set_buf hd(2) by simp
  have "holding_buf n (Some (x, False)) (disk t) (bufs t ! b)" using bq q by (simp add: holding_buf_def)
  note l = held_post_law [OF s hb p disjI1 [OF refl] this]
  show "cache_held n t (h(b \<mapsto> (x, False)))" "disk t = disk s" "pinned t = insert x (pinned s)" using l bq q(4) by simp_all
  show "blk t = blk s" using l(2) by simp
qed

text \<open>
  (C4) \<^verbatim>\<open>log_write\<close> keeps the header and the cache in step: the logged block is in the header exactly once, the
  pinned blocks are exactly those of the header, and a block that is logged again takes no more room. What
  the blocks contain does not change, and nothing is written to the disk.
\<close>

theorem log_write_pins:
  assumes "cache_held n s h" and "h b = Some (x, c)" and "1 \<le> outstanding s" and "0 \<le> lh_n s" and "lh_n s < sint (log_size s) - 1"
    and "lh_n s < 30" and "length (lh_block s) = 30" and "distinct (take (nat (lh_n s)) (lh_block s))"
    and "pinned s = set (take (nat (lh_n s)) (lh_block s))"
  shows "\<exists>t. log_write b s = Done () t \<and> cache_held n t (h(b \<mapsto> (x, False))) \<and> blk t = blk s \<and> disk t = disk s \<and>
    pinned t = insert x (pinned s) \<and> pinned t = set (take (nat (lh_n t)) (lh_block t)) \<and> distinct (take (nat (lh_n t)) (lh_block t)) \<and>
    lh_n t = (if x \<in> pinned s then lh_n s else lh_n s + 1)"
proof -
  have ok: "cache_ok n s" and b: "caches x (bufs s ! b)" using cache_heldD [OF assms(1)] assms(2) by blast+
  have hd: "held s = []" using cache_okD(1) [OF ok] by (simp add: running_def)
  obtain C k where C: "log_block x (lh_n s) (lh_block s) = (C, k)" by fastforce
  have "nat (lh_n s) < length (lh_block s)" using assms(4,6,7) by simp
  note l = log_block_spec [OF assms(4) this C]
  let ?u = "set_buf b (\<lambda>q. q\<lparr>b_flags := b_flags q OR 4\<rparr>) s"
  let ?t = "?u\<lparr>lh_block := C, lh_n := k\<rparr>"
  note u = mark_dirty_law [OF assms(1,2) refl]
  have bx: "b_blockno (bufs s ! b) = x" using b by (simp add: caches_def)
  have "log_write b s = Done () ?t"
    using assms(3-7) hd l(4) C bx by (cases s) (auto simp: log_write_def lock_def unlock_def set_buf_def Let_def log_block_def)
  moreover have "cache_held n ?t (h(b \<mapsto> (x, False)))" "blk ?t = blk s" "disk ?t = disk s" "pinned ?t = insert x (pinned s)" using u by simp_all
  ultimately show ?thesis using l(1,2) assms(8,9) by (intro exI [of _ ?t]) auto
qed

theorem log_write_pins_witness:
  "\<exists>b s t. bread 1 35 ((machine demo_disk)\<lparr>outstanding := 1\<rparr>) = Done b s \<and> log_write b s = Done () t \<and> pinned t = {35} \<and> lh_n t = 1"
proof -
  let ?r = "(machine demo_disk)\<lparr>outstanding := 1\<rparr>"
  have "booted 1 (machine demo_disk)" using demo_disk_simps(2) by (intro machine_booted) blast
  then have r: "cache_held 1 ?r Map.empty" "pinned ?r = {}"
    by (simp_all add: booted_def cache_held_def cache_ok_def running_def pinned_def)
  have x: "unat (35 :: u32) < length (disk ?r)" by (simp add: machine_def demo_disk_simps)
  obtain b s where s: "bread 1 35 ?r = Done b s" "cache_held 1 s [b \<mapsto> (35, False)]" "pinned s = {}" "cache_step ?r s"
    using bcache.read_only [OF r(1) x] r(2) by auto
  have f: "outstanding s = 1" "lh_n s = 0" "log_size s = 30" "length (lh_block s) = 30" using s(4) by (auto simp: cache_step_iff machine_def)
  obtain t where "log_write b s = Done () t" "pinned t = insert 35 (pinned s)" "lh_n t = (if 35 \<in> pinned s then lh_n s else lh_n s + 1)"
    using log_write_pins [OF s(2), of b 35 False] f s(3) by auto
  then show ?thesis using s f by auto
qed



end
