(* ===== verification/User.thy ===== *)
theory User
  imports Sysfile
begin

text \<open>
  User programs and their library: \<^verbatim>\<open>ulib.c\<close> and \<^verbatim>\<open>printf.c\<close>. A program runs against a script of the
  results that its system calls return, and its effect is the list of calls that it makes; a result
  that the code ignores is not in the script. A program that exits, or waits for a call that does not
  return, ends with the outcome \<open>Swtch\<close>.

  A C string is the list of its bytes without the final 0.
\<close>

datatype call =
    CRead int nat | CWrite int bytes | COpen bytes u32 | CClose int | CFstat int | CFork | CExec bytes "bytes list" | CWait
  | CPipe | CDup int | CChdir bytes | CKill int | CLink bytes bytes | CUnlink bytes | CMkdir bytes | CMknod bytes int int
  | CSbrk int | CSleep int | CExit

datatype ret = RInt int | RData bytes | RPair int int | RStat stat_buf

record ust =
  script :: "ret list"
  calls :: "call list"

definition post :: "call \<Rightarrow> ust \<Rightarrow> ust" where
  "post c s = s\<lparr>calls := calls s @ [c]\<rparr>"

definition invoke :: "call \<Rightarrow> ust \<Rightarrow> (ust, ret) outcome" where
  "invoke c s = (case script s of [] \<Rightarrow> Swtch (post c s) | r # rs \<Rightarrow> Done r ((post c s)\<lparr>script := rs\<rparr>))"

fun ret_int :: "ret \<Rightarrow> int" where
  "ret_int (RInt r) = r"
| "ret_int (RData bs) = int (length bs)"
| "ret_int _ = 0"

definition call_int :: "call \<Rightarrow> ust \<Rightarrow> (ust, int) outcome" where
  "call_int c s = bind (invoke c s) (\<lambda>r s. Done (ret_int r) s)"

text \<open>\<^verbatim>\<open>read\<close> returns at most as many bytes as were asked for, or -1.\<close>

definition uread :: "int \<Rightarrow> nat \<Rightarrow> ust \<Rightarrow> (ust, bytes option) outcome" where
  "uread fd n s = bind (invoke (CRead fd n) s) (\<lambda>r s. Done (case r of RData bs \<Rightarrow> Some (take n bs) | _ \<Rightarrow> None) s)"

definition uexit :: "ust \<Rightarrow> (ust, 'a) outcome" where
  "uexit s = Swtch (post CExit s)"

text \<open>What the calls write to a file descriptor, one piece for each call.\<close>

definition written :: "int \<Rightarrow> call list \<Rightarrow> bytes list" where
  "written fd l = concat (map (\<lambda>c. case c of CWrite f bs \<Rightarrow> if f = fd then [bs] else [] | _ \<Rightarrow> []) l)"

definition cs :: "string \<Rightarrow> bytes" where
  "cs t = map of_char t"

section \<open>ulib.c\<close>

fun head0 :: "bytes \<Rightarrow> u8" where
  "head0 [] = 0"
| "head0 (c # p) = c"

fun ustrcmp :: "bytes \<Rightarrow> bytes \<Rightarrow> int" where
  "ustrcmp [] q = 0 - uint (head0 q)"
| "ustrcmp (c # p) q = (if c \<noteq> 0 \<and> c = head0 q then ustrcmp p (tl q) else uint c - uint (head0 q))"

fun ustrchr :: "bytes \<Rightarrow> u8 \<Rightarrow> nat option" where
  "ustrchr [] c = None"
| "ustrchr (x # s) c = (if x = 0 then None else if x = c then Some 0 else map_option Suc (ustrchr s c))"

fun atoi_loop :: "u32 \<Rightarrow> bytes \<Rightarrow> u32" where
  "atoi_loop n [] = n"
| "atoi_loop n (c # s) = (if 48 \<le> c \<and> c \<le> 57 then atoi_loop (n * 10 + ucast c - 48) s else n)"

definition atoi :: "bytes \<Rightarrow> int" where
  "atoi s = sint (atoi_loop 0 s)"

partial_function (option) ustrcpy :: "mem \<Rightarrow> u32 \<Rightarrow> u32 \<Rightarrow> mem option" where
  "ustrcpy m s t = (let c = m t; m = m(s := c) in if c \<noteq> 0 then ustrcpy m (s + 1) (t + 1) else Some m)"

fun umemmove :: "mem \<Rightarrow> u32 \<Rightarrow> u32 \<Rightarrow> nat \<Rightarrow> mem" where
  "umemmove m dst src 0 = m"
| "umemmove m dst src (Suc n) = umemmove (m(dst := m src)) (dst + 1) (src + 1) n"

text \<open>\<open>n\<close> is the room that is left, \<^verbatim>\<open>max - 1 - i\<close>.\<close>

fun gets_loop :: "nat \<Rightarrow> ust \<Rightarrow> (ust, bytes) outcome" where
  "gets_loop 0 s = Done [] s"
| "gets_loop (Suc n) s =
     bind (uread 0 1 s) (\<lambda>r s.
     case r of
       None \<Rightarrow> Done [] s
     | Some [] \<Rightarrow> Done [] s
     | Some (c # _) \<Rightarrow>
         if c = 10 \<or> c = 13 then Done [c] s
         else bind (gets_loop n s) (\<lambda>cs s. Done (c # cs) s))"

definition gets :: "nat \<Rightarrow> ust \<Rightarrow> (ust, bytes) outcome" where
  "gets m s = gets_loop (m - 1) s"

definition ustat :: "bytes \<Rightarrow> ust \<Rightarrow> (ust, stat_buf option) outcome" where
  "ustat n s =
     bind (call_int (COpen n O_RDONLY) s) (\<lambda>fd s.
     if fd < 0 then Done None s
     else bind (invoke (CFstat fd) s) (\<lambda>r s.
       Done (case r of RStat st \<Rightarrow> Some st | _ \<Rightarrow> None) (post (CClose fd) s)))"

section \<open>printf.c\<close>

definition putc :: "int \<Rightarrow> u8 \<Rightarrow> ust \<Rightarrow> ust" where
  "putc fd c s = post (CWrite fd [c]) s"

definition puts :: "int \<Rightarrow> bytes \<Rightarrow> ust \<Rightarrow> ust" where
  "puts fd bs s = fold (putc fd) bs s"

definition udigits :: bytes where
  "udigits = [48, 49, 50, 51, 52, 53, 54, 55, 56, 57, 65, 66, 67, 68, 69, 70]"

fun uprintint_loop :: "nat \<Rightarrow> u32 \<Rightarrow> u32 \<Rightarrow> bytes" where
  "uprintint_loop n x base =
     (if n = 0 then []
      else let d = udigits ! unat (x mod base); x = x div base
           in if x \<noteq> 0 then d # uprintint_loop (n - 1) x base else [d])"

definition uprintint :: "u32 \<Rightarrow> u32 \<Rightarrow> bool \<Rightarrow> bytes" where
  "uprintint xx base sg =
     (let neg = (sg \<and> sint xx < 0);
          x = (if neg then - xx else xx);
          buf = uprintint_loop 16 x base;
          buf = (if neg then buf @ [45] else buf)
      in rev buf)"

text \<open>What \<^verbatim>\<open>printf\<close> prints; \<open>st\<close> tells whether the last character was a percent sign.\<close>

fun uformat :: "bool \<Rightarrow> bytes \<Rightarrow> cval list \<Rightarrow> bytes" where
  "uformat st [] ap = []"
| "uformat False (c # fmt) ap = (if c = 37 then uformat True fmt ap else c # uformat False fmt ap)"
| "uformat True (c # fmt) ap =
     (let a = (case ap of [] \<Rightarrow> CInt 0 | a # _ \<Rightarrow> a) in
      if c = 100 then uprintint (cval_int a) 10 True @ uformat False fmt (tl ap)
      else if c = 120 \<or> c = 112 then uprintint (cval_int a) 16 False @ uformat False fmt (tl ap)
      else if c = 115 then cval_str a @ uformat False fmt (tl ap)
      else if c = 99 then ucast (cval_int a) # uformat False fmt (tl ap)
      else if c = 37 then c # uformat False fmt ap
      else 37 # c # uformat False fmt ap)"

definition printf :: "int \<Rightarrow> string \<Rightarrow> cval list \<Rightarrow> ust \<Rightarrow> ust" where
  "printf fd fmt ap s = puts fd (uformat False (cs fmt) ap) s"

section \<open>Scripts get shorter\<close>

lemma invoke_script: "invoke c s = Done r t \<Longrightarrow> script s = r # script t \<and> calls t = calls s @ [c]"
  by (auto simp: invoke_def post_def split: list.splits)

lemma call_int_script: "call_int c s = Done r t \<Longrightarrow> length (script s) = Suc (length (script t))"
  by (auto simp: call_int_def bind_Done_iff dest!: invoke_script)

lemma uread_script: "uread fd n s = Done r t \<Longrightarrow> length (script s) = Suc (length (script t))"
  by (auto simp: uread_def bind_Done_iff dest!: invoke_script)

lemma post_simps [simp]: "script (post c s) = script s" "calls (post c s) = calls s @ [c]"
  by (simp_all add: post_def)

lemma puts_simps [simp]: "script (puts fd bs s) = script s" "calls (puts fd bs s) = calls s @ map (\<lambda>c. CWrite fd [c]) bs"
  by (induction bs arbitrary: s) (auto simp: puts_def putc_def)

lemma printf_simps [simp]:
  "script (printf fd fmt ap s) = script s"
  "calls (printf fd fmt ap s) = calls s @ map (\<lambda>c. CWrite fd [c]) (uformat False (cs fmt) ap)"
  by (simp_all add: printf_def)

lemma written_simps [simp]:
  "written fd [] = []" "written fd (l @ m) = written fd l @ written fd m" "written fd (CWrite f bs # l) = (if f = fd then [bs] else []) @ written fd l"
  "written fd (CRead f n # l) = written fd l"
  by (simp_all add: written_def)

end
