(* ===== verification/Grep.thy ===== *)
theory Grep
  imports User
begin

text \<open>
  \<^verbatim>\<open>grep.c\<close>: the matcher for patterns with \<^verbatim>\<open>^ . * $\<close>, and the loop that reads the input in pieces into a
  buffer of 1024 bytes. The matcher is shown to decide the language of the pattern.
\<close>

section \<open>The program\<close>

function matchhere :: "bytes \<Rightarrow> bytes \<Rightarrow> bool" and matchstar :: "u8 \<Rightarrow> bytes \<Rightarrow> bytes \<Rightarrow> bool" where
  "matchhere re tx =
     (if re = [] then True
      else if tl re \<noteq> [] \<and> hd (tl re) = 42 then matchstar (hd re) (tl (tl re)) tx
      else if hd re = 36 \<and> tl re = [] then tx = []
      else if tx \<noteq> [] \<and> (hd re = 46 \<or> hd re = hd tx) then matchhere (tl re) (tl tx)
      else False)"
| "matchstar c re tx =
     (if matchhere re tx then True
      else if tx \<noteq> [] \<and> (hd tx = c \<or> c = 46) then matchstar c re (tl tx)
      else False)"
  by pat_completeness auto

termination
  by (relation "measures [\<lambda>x. case x of Inl (re, tx) \<Rightarrow> 2 * length re | Inr (c, re, tx) \<Rightarrow> 2 * length re + 1,
      \<lambda>x. case x of Inl (re, tx) \<Rightarrow> length tx | Inr (c, re, tx) \<Rightarrow> length tx]")
    (auto simp: neq_Nil_conv)

declare matchhere.simps [simp del] matchstar.simps [simp del]

fun match_any :: "bytes \<Rightarrow> bytes \<Rightarrow> bool" where
  "match_any re [] = matchhere re []"
| "match_any re (x # tx) = (if matchhere re (x # tx) then True else match_any re tx)"

definition match :: "bytes \<Rightarrow> bytes \<Rightarrow> bool" where
  "match re tx = (if re \<noteq> [] \<and> hd re = 94 then matchhere (tl re) tx else match_any re tx)"

lemma ustrchr_less: "ustrchr p c = Some i \<Longrightarrow> i < length p"
  by (induction p arbitrary: i) (auto split: if_splits)

text \<open>The complete lines of the buffer from \<open>p\<close> on; the result is what is left of it.\<close>

function grep_lines :: "bytes \<Rightarrow> bytes \<Rightarrow> ust \<Rightarrow> bytes \<times> ust" where
  "grep_lines pattern p s =
     (case ustrchr p 10 of
        None \<Rightarrow> (p, s)
      | Some i \<Rightarrow> grep_lines pattern (drop (Suc i) p)
          (if match pattern (take i p) then post (CWrite 1 (take (Suc i) p)) s else s))"
  by pat_completeness auto

termination
proof (relation "measure (\<lambda>(pattern, p, s). length p)", goal_cases)
  case (2 pattern p s i)
  then show ?case using ustrchr_less [of p 10 i] by simp
qed simp

declare grep_lines.simps [simp del]

lemma grep_lines_script: "grep_lines pattern p s = (q, t) \<Longrightarrow> script t = script s"
proof (induction pattern p s arbitrary: q t rule: grep_lines.induct)
  case (1 pattern p s)
  show ?case
  proof (cases "ustrchr p 10")
    case None
    then show ?thesis using 1(2) by (simp add: grep_lines.simps [of pattern p s])
  next
    case (Some i)
    then have "grep_lines pattern (drop (Suc i) p) (if match pattern (take i p) then post (CWrite 1 (take (Suc i) p)) s else s) = (q, t)"
      using 1(2) by (simp add: grep_lines.simps [of pattern p s])
    from 1(1) [OF Some this] show ?thesis by (simp split: if_splits)
  qed
qed

function grep_loop :: "bytes \<Rightarrow> int \<Rightarrow> bytes \<Rightarrow> ust \<Rightarrow> (ust, unit) outcome" where
  "grep_loop pattern fd buf s =
     bind (uread fd (1023 - length buf) s) (\<lambda>r s.
     if r = None \<or> r = Some [] then Done () s
     else let (p, s') = grep_lines pattern (buf @ the r) s
          in grep_loop pattern fd (if length p = length (buf @ the r) then [] else p) s')"
  by pat_completeness auto

termination
proof (relation "measure (\<lambda>(pattern, fd, buf, s). length (script s))", goal_cases)
  case (2 pattern fd buf s r t z p s')
  then show ?case using uread_script [OF 2(1)] grep_lines_script [of pattern "buf @ the r" t p s'] by simp
qed simp

declare grep_loop.simps [simp del]

definition grep :: "bytes \<Rightarrow> int \<Rightarrow> ust \<Rightarrow> (ust, unit) outcome" where
  "grep pattern fd s = grep_loop pattern fd [] s"

fun grep_files :: "bytes \<Rightarrow> bytes list \<Rightarrow> ust \<Rightarrow> (ust, unit) outcome" where
  "grep_files pattern [] s = uexit s"
| "grep_files pattern (a # argv) s =
     bind (call_int (COpen a 0) s) (\<lambda>fd s.
     if fd < 0 then uexit (printf 1 ''grep: cannot open %s\<newline>'' [CStr (Some a)] s)
     else bind (grep pattern fd s) (\<lambda>_ s. grep_files pattern argv (post (CClose fd) s)))"

definition grep_main :: "bytes list \<Rightarrow> ust \<Rightarrow> (ust, unit) outcome" where
  "grep_main argv s =
     (case argv of
        _ # pattern # files \<Rightarrow> if files = [] then bind (grep pattern 0 s) (\<lambda>_ s. uexit s) else grep_files pattern files s
      | _ \<Rightarrow> uexit (printf 2 ''usage: grep pattern [file ...]\<newline>'' [] s))"

section \<open>The language of a pattern\<close>

datatype pat = PEnd bool | PChar u8 pat | PStar u8 pat

fun pat_of :: "bytes \<Rightarrow> pat" where
  "pat_of [] = PEnd False"
| "pat_of [c] = (if c = 36 then PEnd True else PChar c (PEnd False))"
| "pat_of (c # d # re) = (if d = 42 then PStar c (pat_of re) else PChar c (pat_of (d # re)))"

definition one :: "u8 \<Rightarrow> u8 \<Rightarrow> bool" where
  "one c x \<longleftrightarrow> c = 46 \<or> c = x"

fun anchored :: "pat \<Rightarrow> bool" where
  "anchored (PEnd b) = b"
| "anchored (PChar c p) = anchored p"
| "anchored (PStar c p) = anchored p"

fun lang :: "pat \<Rightarrow> bytes set" where
  "lang (PEnd b) = {[]}"
| "lang (PChar c p) = {x # v | x v. one c x \<and> v \<in> lang p}"
| "lang (PStar c p) = {u @ v | u v. (\<forall>x \<in> set u. one c x) \<and> v \<in> lang p}"

text \<open>The text has a prefix in the language, all of the text when the pattern ends with a dollar sign.\<close>

definition prefix_in :: "pat \<Rightarrow> bytes \<Rightarrow> bool" where
  "prefix_in p tx \<longleftrightarrow> (\<exists>v w. tx = v @ w \<and> v \<in> lang p \<and> (anchored p \<longrightarrow> w = []))"

lemma prefix_in_simps:
  "prefix_in (PEnd b) tx \<longleftrightarrow> (b \<longrightarrow> tx = [])"
  "prefix_in (PChar c p) [] \<longleftrightarrow> False"
  "prefix_in (PChar c p) (x # tx) \<longleftrightarrow> one c x \<and> prefix_in p tx"
  by (auto simp: prefix_in_def Cons_eq_append_conv)

lemma prefix_in_star_iff:
  "prefix_in (PStar c p) tx \<longleftrightarrow> (\<exists>u t. tx = u @ t \<and> (\<forall>x \<in> set u. one c x) \<and> prefix_in p t)"
proof
  assume "prefix_in (PStar c p) tx"
  then obtain u v w where "tx = (u @ v) @ w" "\<forall>x \<in> set u. one c x" "v \<in> lang p" "anchored p \<longrightarrow> w = []"
    unfolding prefix_in_def lang.simps anchored.simps by blast
  then show "\<exists>u t. tx = u @ t \<and> (\<forall>x \<in> set u. one c x) \<and> prefix_in p t"
    by (intro exI [of _ u] exI [of _ "v @ w"]) (auto simp: prefix_in_def)
next
  assume "\<exists>u t. tx = u @ t \<and> (\<forall>x \<in> set u. one c x) \<and> prefix_in p t"
  then obtain u v w where "tx = (u @ v) @ w" "\<forall>x \<in> set u. one c x" "v \<in> lang p" "anchored p \<longrightarrow> w = []"
    unfolding prefix_in_def by auto
  then show "prefix_in (PStar c p) tx" unfolding prefix_in_def lang.simps anchored.simps by blast
qed

lemma prefix_in_star:
  "prefix_in (PStar c p) [] \<longleftrightarrow> prefix_in p []"
  "prefix_in (PStar c p) (x # tx) \<longleftrightarrow> prefix_in p (x # tx) \<or> one c x \<and> prefix_in (PStar c p) tx"
proof -
  show "prefix_in (PStar c p) [] \<longleftrightarrow> prefix_in p []" by (simp add: prefix_in_star_iff)
  show "prefix_in (PStar c p) (x # tx) \<longleftrightarrow> prefix_in p (x # tx) \<or> one c x \<and> prefix_in (PStar c p) tx"
  proof
    assume "prefix_in (PStar c p) (x # tx)"
    then obtain u t where "x # tx = u @ t" "\<forall>x \<in> set u. one c x" "prefix_in p t" unfolding prefix_in_star_iff by blast
    then show "prefix_in p (x # tx) \<or> one c x \<and> prefix_in (PStar c p) tx"
      unfolding prefix_in_star_iff by (cases u) auto
  next
    assume "prefix_in p (x # tx) \<or> one c x \<and> prefix_in (PStar c p) tx"
    then show "prefix_in (PStar c p) (x # tx)"
    proof
      assume "prefix_in p (x # tx)"
      then show ?thesis unfolding prefix_in_star_iff by (intro exI [of _ "[]"] exI [of _ "x # tx"]) simp
    next
      assume "one c x \<and> prefix_in (PStar c p) tx"
      then obtain u t where "one c x" "tx = u @ t" "\<forall>x \<in> set u. one c x" "prefix_in p t" unfolding prefix_in_star_iff by blast
      then show ?thesis unfolding prefix_in_star_iff by (intro exI [of _ "x # u"] exI [of _ t]) simp
    qed
  qed
qed

lemma match_star:
  assumes "\<And>t. matchhere re t \<longleftrightarrow> prefix_in p t"
  shows "matchstar c re tx \<longleftrightarrow> prefix_in (PStar c p) tx"
proof (induction tx)
  case Nil
  then show ?case using assms by (simp add: matchstar.simps [of c re "[]"] prefix_in_star)
next
  case (Cons x tx)
  then show ?case using assms by (auto simp: matchstar.simps [of c re "x # tx"] prefix_in_star one_def)
qed

lemma matchhere_lang: "matchhere re tx \<longleftrightarrow> prefix_in (pat_of re) tx"
proof (induction re arbitrary: tx rule: pat_of.induct)
  case 1
  then show ?case by (simp add: matchhere.simps [of "[]"] prefix_in_simps)
next
  case (2 c)
  then show ?case by (cases tx) (auto simp: matchhere.simps [of "[c]"] matchhere.simps [of "[]"] prefix_in_simps one_def)
next
  case (3 c d re)
  show ?case
  proof (cases "d = 42")
    case True
    then show ?thesis using match_star [of re "pat_of re" c tx] 3(1) by (subst matchhere.simps) simp
  next
    case False
    then show ?thesis using 3(2) by (subst matchhere.simps, cases tx) (auto simp: prefix_in_simps one_def)
  qed
qed

lemma match_any_iff: "match_any re tx \<longleftrightarrow> (\<exists>u t. tx = u @ t \<and> matchhere re t)"
  by (induction tx) (auto simp: Cons_eq_append_conv)

text \<open>
  (C37) The matcher decides the language of the pattern: it accepts a text exactly when the text has a part
  that the pattern describes, at the start of the text when the pattern begins with a caret, and up to its
  end when it ends with a dollar sign.
\<close>

theorem match_language:
  "match re tx \<longleftrightarrow> (let p = pat_of (if re \<noteq> [] \<and> hd re = 94 then tl re else re) in
     \<exists>u v w. tx = u @ v @ w \<and> v \<in> lang p \<and> (re \<noteq> [] \<and> hd re = 94 \<longrightarrow> u = []) \<and> (anchored p \<longrightarrow> w = []))"
  by (auto simp: match_def match_any_iff matchhere_lang prefix_in_def Let_def)

theorem match_language_witness:
  "match (cs ''a*b'') (cs ''xaab'') \<and> (\<exists>u v w. cs ''xaab'' = u @ v @ w \<and> v \<in> lang (pat_of (cs ''a*b'')))"
proof -
  have "match (cs ''a*b'') (cs ''xaab'')" "hd (cs ''a*b'') \<noteq> 94" by code_simp+
  then show ?thesis using match_language [of "cs ''a*b''" "cs ''xaab''"] by (auto simp: Let_def)
qed

section \<open>Reading in pieces\<close>

lemma ustrchr_None: "c \<notin> set p \<Longrightarrow> ustrchr p c = None"
  by (induction p) auto

lemma ustrchr_line: "0 \<notin> set l \<Longrightarrow> c \<notin> set l \<Longrightarrow> c \<noteq> 0 \<Longrightarrow> ustrchr (l @ c # p) c = Some (length l)"
  by (induction l) auto

lemma grep_lines_whole:
  assumes "\<forall>l \<in> set ls. 0 \<notin> set l \<and> 10 \<notin> set l"
  shows "\<exists>t. grep_lines pattern (concat (map (\<lambda>l. l @ [10]) ls)) s = ([], t) \<and> script t = script s \<and>
    written 1 (calls t) = written 1 (calls s) @ map (\<lambda>l. l @ [10]) (filter (match pattern) ls)"
  using assms
proof (induction ls arbitrary: s)
  case Nil
  then show ?case by (simp add: grep_lines.simps [of pattern "[]" s])
next
  case (Cons l ls)
  let ?c = "concat (map (\<lambda>l. l @ [10]) ls)"
  let ?s = "if match pattern l then post (CWrite 1 (l @ [10])) s else s"
  have "ustrchr (l @ 10 # ?c) 10 = Some (length l)" using Cons.prems by (intro ustrchr_line) auto
  then have "grep_lines pattern (concat (map (\<lambda>l. l @ [10]) (l # ls))) s = grep_lines pattern ?c ?s" by (subst grep_lines.simps) simp
  then show ?case using Cons.IH [of ?s] Cons.prems by auto
qed

text \<open>
  (C38) When the input comes in whole lines, \<^verbatim>\<open>grep\<close> writes exactly the lines that match: the \<open>k\<close>-th read
  returns the lines \<open>lss ! k\<close>, each of them without a 0 byte, and at most 1023 bytes in all.
\<close>

theorem grep_whole_lines:
  assumes "script s = map (\<lambda>ls. RData (concat (map (\<lambda>l. l @ [10]) ls))) lss @ [RData []]"
    and "\<forall>ls \<in> set lss. ls \<noteq> [] \<and> length (concat (map (\<lambda>l. l @ [10]) ls)) \<le> 1023 \<and> (\<forall>l \<in> set ls. 0 \<notin> set l \<and> 10 \<notin> set l)"
  shows "\<exists>t. grep pattern fd s = Done () t \<and>
    written 1 (calls t) = written 1 (calls s) @ map (\<lambda>l. l @ [10]) (filter (match pattern) (concat lss))"
  unfolding grep_def using assms
proof (induction lss arbitrary: s)
  case Nil
  then show ?case by (simp add: grep_loop.simps [of pattern fd "[]" s] uread_def invoke_def)
next
  case (Cons ls lss)
  let ?c = "concat (map (\<lambda>l. l @ [10]) ls)"
  let ?s = "(post (CRead fd 1023) s)\<lparr>script := map (\<lambda>ls. RData (concat (map (\<lambda>l. l @ [10]) ls))) lss @ [RData []]\<rparr>"
  have c: "?c \<noteq> []" "length ?c \<le> 1023" using Cons.prems(2) by (cases ls; auto)+
  have r: "uread fd (1023 - length []) s = Done (Some ?c) ?s" using Cons.prems(1) c(2) by (simp add: uread_def invoke_def)
  obtain t where t: "grep_lines pattern ?c ?s = ([], t)" "script t = script ?s"
    "written 1 (calls t) = written 1 (calls ?s) @ map (\<lambda>l. l @ [10]) (filter (match pattern) ls)"
    using grep_lines_whole [of ls pattern ?s] Cons.prems(2) by auto
  have "grep_loop pattern fd [] s = grep_loop pattern fd [] t"
    using r t(1) c(1) by (subst grep_loop.simps) simp
  then show ?case using Cons.IH [of t] t(2,3) Cons.prems(2) by simp
qed

theorem grep_whole_lines_witness:
  "\<exists>t. grep (cs ''b'') 0 \<lparr>script = [RData (cs ''abc'' @ [10] @ cs ''xyz'' @ [10]), RData []], calls = []\<rparr> = Done () t \<and>
    written 1 (calls t) = [cs ''abc'' @ [10]]"
proof -
  let ?s = "\<lparr>script = [RData (cs ''abc'' @ [10] @ cs ''xyz'' @ [10]), RData []], calls = []\<rparr>"
  have p: "script ?s = map (\<lambda>ls. RData (concat (map (\<lambda>l. l @ [10]) ls))) [[cs ''abc'', cs ''xyz'']] @ [RData []]"
    by (simp add: cs_def)
  have q: "\<forall>ls \<in> set [[cs ''abc'', cs ''xyz'']]. ls \<noteq> [] \<and> length (concat (map (\<lambda>l. l @ [10]) ls)) \<le> 1023 \<and>
      (\<forall>l \<in> set ls. 0 \<notin> set l \<and> 10 \<notin> set l)"
    by code_simp
  have "filter (match (cs ''b'')) (concat [[cs ''abc'', cs ''xyz'']]) = [cs ''abc'']" by code_simp
  then show ?thesis using grep_whole_lines [OF p q, of "cs ''b''" 0] by simp
qed

text \<open>
  (C39) A line that comes in two pieces is cut: when a read returns bytes without the end of a line and nothing
  is left from before, \<^verbatim>\<open>grep\<close> goes on as if these bytes had not been read.
\<close>

theorem grep_drops_partial_line:
  assumes "script s = RData a # rs" and "a \<noteq> []" and "10 \<notin> set a" and "length a \<le> 1023"
  shows "grep pattern fd s = grep pattern fd ((post (CRead fd 1023) s)\<lparr>script := rs\<rparr>)"
proof -
  let ?s = "(post (CRead fd 1023) s)\<lparr>script := rs\<rparr>"
  have r: "uread fd (1023 - length []) s = Done (Some a) ?s" using assms(1,4) by (simp add: uread_def invoke_def)
  have l: "grep_lines pattern a ?s = (a, ?s)" using ustrchr_None [OF assms(3)] by (subst grep_lines.simps) simp
  show ?thesis unfolding grep_def using r l assms(2) by (subst grep_loop.simps) simp
qed

theorem grep_drops_partial_line_witness:
  "match (cs ''ab'') (cs ''abc'') \<and>
   grep (cs ''ab'') 0 \<lparr>script = [RData (cs ''ab''), RData (cs ''c'' @ [10]), RData []], calls = []\<rparr> =
     grep (cs ''ab'') 0 \<lparr>script = [RData (cs ''c'' @ [10]), RData []], calls = [CRead 0 1023]\<rparr>"
proof -
  have "match (cs ''ab'') (cs ''abc'')" by code_simp
  moreover have "10 \<notin> set (cs ''ab'')" "cs ''ab'' \<noteq> []" "length (cs ''ab'') \<le> 1023" by code_simp+
  ultimately show ?thesis
    using grep_drops_partial_line [of "\<lparr>script = [RData (cs ''ab''), RData (cs ''c'' @ [10]), RData []], calls = []\<rparr>" "cs ''ab''"] by (simp add: post_def)
qed

end
