(* ===== verification/Programs.thy ===== *)
theory Programs
  imports User
begin

text \<open>
  The small user programs: \<^verbatim>\<open>cat\<close>, \<^verbatim>\<open>wc\<close>, \<^verbatim>\<open>echo\<close>, \<^verbatim>\<open>kill\<close>, \<^verbatim>\<open>ln\<close>, \<^verbatim>\<open>mkdir\<close>, \<^verbatim>\<open>rm\<close>, \<^verbatim>\<open>ls\<close>, \<^verbatim>\<open>zombie\<close> and
  \<^verbatim>\<open>init\<close>. The argument \<open>argv\<close> of a main function has the name of the program first.
\<close>

section \<open>cat.c\<close>

function cat_loop :: "int \<Rightarrow> ust \<Rightarrow> (ust, unit) outcome" where
  "cat_loop fd s =
     bind (uread fd 512 s) (\<lambda>r s.
     if r = None then uexit (printf 1 ''cat: read error\<newline>'' [] s)
     else if r = Some [] then Done () s
     else bind (call_int (CWrite 1 (the r)) s) (\<lambda>n s.
       if n \<noteq> int (length (the r)) then uexit (printf 1 ''cat: write error\<newline>'' [] s)
       else cat_loop fd s))"
  by pat_completeness auto

termination
proof (relation "measure (\<lambda>(fd, s). length (script s))", goal_cases)
  case (2 fd s r t n u)
  then show ?case using uread_script [OF 2(1)] call_int_script [OF 2(4)] by simp
qed simp

declare cat_loop.simps [simp del]

fun cat_files :: "bytes list \<Rightarrow> ust \<Rightarrow> (ust, unit) outcome" where
  "cat_files [] s = uexit s"
| "cat_files (a # argv) s =
     bind (call_int (COpen a 0) s) (\<lambda>fd s.
     if fd < 0 then uexit (printf 1 ''cat: cannot open %s\<newline>'' [CStr (Some a)] s)
     else bind (cat_loop fd s) (\<lambda>_ s. cat_files argv (post (CClose fd) s)))"

definition cat_main :: "bytes list \<Rightarrow> ust \<Rightarrow> (ust, unit) outcome" where
  "cat_main argv s = (if length argv \<le> 1 then bind (cat_loop 0 s) (\<lambda>_ s. uexit s) else cat_files (tl argv) s)"

section \<open>wc.c\<close>

record counts =
  wc_l :: u32
  wc_w :: u32
  wc_c :: u32
  wc_inword :: bool

definition wc_char :: "u8 \<Rightarrow> counts \<Rightarrow> counts" where
  "wc_char x k =
     (let k = k\<lparr>wc_c := wc_c k + 1\<rparr>;
          k = (if x = 10 then k\<lparr>wc_l := wc_l k + 1\<rparr> else k)
      in if ustrchr [32, 13, 9, 10, 11] x \<noteq> None then k\<lparr>wc_inword := False\<rparr>
         else if \<not> wc_inword k then k\<lparr>wc_w := wc_w k + 1, wc_inword := True\<rparr>
         else k)"

function wc_loop :: "int \<Rightarrow> counts \<Rightarrow> ust \<Rightarrow> (ust, counts) outcome" where
  "wc_loop fd k s =
     bind (uread fd 512 s) (\<lambda>r s.
     if r = None then uexit (printf 1 ''wc: read error\<newline>'' [] s)
     else if r = Some [] then Done k s
     else wc_loop fd (fold wc_char (the r) k) s)"
  by pat_completeness auto

termination
proof (relation "measure (\<lambda>(fd, k, s). length (script s))", goal_cases)
  case (2 fd k s r t)
  then show ?case using uread_script [OF 2(1)] by simp
qed simp

declare wc_loop.simps [simp del]

definition wc :: "int \<Rightarrow> bytes \<Rightarrow> ust \<Rightarrow> (ust, unit) outcome" where
  "wc fd name s =
     bind (wc_loop fd \<lparr>wc_l = 0, wc_w = 0, wc_c = 0, wc_inword = False\<rparr> s) (\<lambda>k s.
     Done () (printf 1 ''%d %d %d %s\<newline>'' [CInt (wc_l k), CInt (wc_w k), CInt (wc_c k), CStr (Some name)] s))"

fun wc_files :: "bytes list \<Rightarrow> ust \<Rightarrow> (ust, unit) outcome" where
  "wc_files [] s = uexit s"
| "wc_files (a # argv) s =
     bind (call_int (COpen a 0) s) (\<lambda>fd s.
     if fd < 0 then uexit (printf 1 ''wc: cannot open %s\<newline>'' [CStr (Some a)] s)
     else bind (wc fd a s) (\<lambda>_ s. wc_files argv (post (CClose fd) s)))"

definition wc_main :: "bytes list \<Rightarrow> ust \<Rightarrow> (ust, unit) outcome" where
  "wc_main argv s = (if length argv \<le> 1 then bind (wc 0 [] s) (\<lambda>_ s. uexit s) else wc_files (tl argv) s)"

section \<open>echo.c, kill.c, ln.c, mkdir.c, rm.c, zombie.c\<close>

fun echo_loop :: "bytes list \<Rightarrow> ust \<Rightarrow> ust" where
  "echo_loop [] s = s"
| "echo_loop (a # argv) s = echo_loop argv (printf 1 ''%s%s'' [CStr (Some a), CStr (Some (if argv \<noteq> [] then [32] else [10]))] s)"

definition echo_main :: "bytes list \<Rightarrow> ust \<Rightarrow> (ust, unit) outcome" where
  "echo_main argv s = uexit (echo_loop (tl argv) s)"

definition kill_main :: "bytes list \<Rightarrow> ust \<Rightarrow> (ust, unit) outcome" where
  "kill_main argv s =
     (if length argv < 2 then uexit (printf 2 ''usage: kill pid...\<newline>'' [] s)
      else uexit (fold (\<lambda>a. post (CKill (atoi a))) (tl argv) s))"

definition ln_main :: "bytes list \<Rightarrow> ust \<Rightarrow> (ust, unit) outcome" where
  "ln_main argv s =
     (if length argv \<noteq> 3 then uexit (printf 2 ''Usage: ln old new\<newline>'' [] s)
      else bind (call_int (CLink (argv ! 1) (argv ! 2)) s) (\<lambda>r s.
        uexit (if r < 0 then printf 2 ''link %s %s: failed\<newline>'' [CStr (Some (argv ! 1)), CStr (Some (argv ! 2))] s else s)))"

fun mkdir_loop :: "bytes list \<Rightarrow> ust \<Rightarrow> (ust, unit) outcome" where
  "mkdir_loop [] s = uexit s"
| "mkdir_loop (a # argv) s =
     bind (call_int (CMkdir a) s) (\<lambda>r s.
     if r < 0 then uexit (printf 2 ''mkdir: %s failed to create\<newline>'' [CStr (Some a)] s) else mkdir_loop argv s)"

definition mkdir_main :: "bytes list \<Rightarrow> ust \<Rightarrow> (ust, unit) outcome" where
  "mkdir_main argv s = (if length argv < 2 then uexit (printf 2 ''Usage: mkdir files...\<newline>'' [] s) else mkdir_loop (tl argv) s)"

fun rm_loop :: "bytes list \<Rightarrow> ust \<Rightarrow> (ust, unit) outcome" where
  "rm_loop [] s = uexit s"
| "rm_loop (a # argv) s =
     bind (call_int (CUnlink a) s) (\<lambda>r s.
     if r < 0 then uexit (printf 2 ''rm: %s failed to delete\<newline>'' [CStr (Some a)] s) else rm_loop argv s)"

definition rm_main :: "bytes list \<Rightarrow> ust \<Rightarrow> (ust, unit) outcome" where
  "rm_main argv s = (if length argv < 2 then uexit (printf 2 ''Usage: rm files...\<newline>'' [] s) else rm_loop (tl argv) s)"

definition zombie_main :: "ust \<Rightarrow> (ust, unit) outcome" where
  "zombie_main s = bind (call_int CFork s) (\<lambda>r s. uexit (if r > 0 then post (CSleep 5) s else s))"

section \<open>init.c\<close>

function init_wait :: "int \<Rightarrow> ust \<Rightarrow> (ust, unit) outcome" where
  "init_wait pid s =
     bind (call_int CWait s) (\<lambda>wpid s.
     if wpid \<ge> 0 \<and> wpid \<noteq> pid then init_wait pid (printf 1 ''zombie!\<newline>'' [] s) else Done () s)"
  by pat_completeness auto

termination
proof (relation "measure (\<lambda>(pid, s). length (script s))", goal_cases)
  case (2 pid s wpid t)
  then show ?case using call_int_script [OF 2(1)] by simp
qed simp

declare init_wait.simps [simp del]

lemma init_wait_script: "init_wait pid s = Done () t \<Longrightarrow> length (script t) < length (script s)"
proof (induction pid s arbitrary: t rule: init_wait.induct)
  case (1 pid s)
  from 1(2) obtain w u where u: "call_int CWait s = Done w u"
    and k: "(if w \<ge> 0 \<and> w \<noteq> pid then init_wait pid (printf 1 ''zombie!\<newline>'' [] u) else Done () u) = Done () t"
    unfolding init_wait.simps [of pid s] bind_Done_iff by blast
  then show ?case using 1(1) [OF u] call_int_script [OF u] by (fastforce split: if_splits)
qed

function init_loop :: "ust \<Rightarrow> (ust, unit) outcome" where
  "init_loop s =
     bind (call_int CFork (printf 1 ''init: starting sh\<newline>'' [] s)) (\<lambda>pid s.
     if pid < 0 then uexit (printf 1 ''init: fork failed\<newline>'' [] s)
     else if pid = 0 then
       bind (invoke (CExec (cs ''sh'') [cs ''sh'']) s) (\<lambda>_ s. uexit (printf 1 ''init: exec sh failed\<newline>'' [] s))
     else bind (init_wait pid s) (\<lambda>_ s. init_loop s))"
  by pat_completeness auto

termination
proof (relation "measure (\<lambda>s. length (script s))", goal_cases)
  case (2 s pid t u v)
  then show ?case using call_int_script [OF 2(1)] init_wait_script [of pid t v] by simp
qed simp

declare init_loop.simps [simp del]

definition init_main :: "ust \<Rightarrow> (ust, unit) outcome" where
  "init_main s =
     bind (call_int (COpen (cs ''console'') O_RDWR) s) (\<lambda>fd s.
     let s = (if fd < 0 then post (COpen (cs ''console'') O_RDWR) (post (CMknod (cs ''console'') 1 1) s) else s)
     in init_loop (post (CDup 0) (post (CDup 0) s)))"

section \<open>ls.c\<close>

definition fmtname :: "bytes \<Rightarrow> bytes" where
  "fmtname path =
     (let p = rev (takeWhile (\<lambda>c. c \<noteq> 47) (rev path))
      in if length p \<ge> DIRSIZ then p else p @ replicate (DIRSIZ - length p) 32)"

definition ls_print :: "bytes \<Rightarrow> stat_buf \<Rightarrow> ust \<Rightarrow> ust" where
  "ls_print path st s =
     printf 1 ''%s %d %d %d\<newline>'' [CStr (Some (fmtname path)), CInt (scast (st_type st)), CInt (st_ino st), CInt (st_size st)] s"

lemma ustat_script: "ustat n s = Done r t \<Longrightarrow> length (script t) \<le> length (script s)"
  by (auto simp: ustat_def bind_Done_iff split: if_splits dest!: call_int_script invoke_script)

function ls_dir :: "int \<Rightarrow> bytes \<Rightarrow> ust \<Rightarrow> (ust, unit) outcome" where
  "ls_dir fd path s =
     bind (uread fd 16 s) (\<lambda>r s.
     if r = None \<or> length (the r) \<noteq> 16 then Done () s
     else if get16 (the r) 0 = 0 then ls_dir fd path s
     else let buf = path @ [47] @ cstr (take DIRSIZ (drop 2 (the r))) in
       bind (ustat buf s) (\<lambda>st s.
       ls_dir fd path (case st of None \<Rightarrow> printf 1 ''ls: cannot stat %s\<newline>'' [CStr (Some buf)] s | Some st \<Rightarrow> ls_print buf st s)))"
  by pat_completeness auto

termination
proof (relation "measure (\<lambda>(fd, path, s). length (script s))", goal_cases)
  case (2 fd path s r t)
  then show ?case using uread_script [OF 2(1)] by simp
next
  case (3 fd path s r t buf st u)
  then show ?case using uread_script [OF 3(1)] ustat_script [OF 3(5)] by (simp add: ls_print_def split: option.splits)
qed simp

declare ls_dir.simps [simp del]

definition ls :: "bytes \<Rightarrow> ust \<Rightarrow> (ust, unit) outcome" where
  "ls path s =
     bind (call_int (COpen path 0) s) (\<lambda>fd s.
     if fd < 0 then Done () (printf 2 ''ls: cannot open %s\<newline>'' [CStr (Some path)] s)
     else bind (invoke (CFstat fd) s) (\<lambda>r s.
       case r of
         RStat st \<Rightarrow>
           bind (if st_type st = T_FILE then Done () (ls_print path st s)
                 else if st_type st = T_DIR then
                   (if length path + 1 + DIRSIZ + 1 > 512 then Done () (printf 1 ''ls: path too long\<newline>'' [] s)
                    else ls_dir fd path s)
                 else Done () s) (\<lambda>_ s. Done () (post (CClose fd) s))
       | _ \<Rightarrow> Done () (post (CClose fd) (printf 2 ''ls: cannot stat %s\<newline>'' [CStr (Some path)] s))))"

fun ls_args :: "bytes list \<Rightarrow> ust \<Rightarrow> (ust, unit) outcome" where
  "ls_args [] s = uexit s"
| "ls_args (a # argv) s = bind (ls a s) (\<lambda>_ s. ls_args argv s)"

definition ls_main :: "bytes list \<Rightarrow> ust \<Rightarrow> (ust, unit) outcome" where
  "ls_main argv s = ls_args (if length argv < 2 then [[46]] else tl argv) s"

section \<open>The counts of wc\<close>

definition blank :: "u8 \<Rightarrow> bool" where
  "blank x \<longleftrightarrow> x \<in> {32, 13, 9, 10, 11}"

text \<open>The words of a text, cut at blanks.\<close>

function words :: "bytes \<Rightarrow> bytes list" where
  "words bs = (let t = dropWhile blank bs in
     if t = [] then [] else takeWhile (\<lambda>x. \<not> blank x) t # words (dropWhile (\<lambda>x. \<not> blank x) t))"
  by pat_completeness auto

termination
proof (relation "measure length", goal_cases)
  case (2 bs t)
  obtain x r where t: "t = x # r" "\<not> blank x" using 2 by (metis dropWhile_eq_Cons_conv list.exhaust)
  have "length (dropWhile (\<lambda>x. \<not> blank x) t) \<le> length r" using t length_dropWhile_le by simp
  moreover have "length t \<le> length bs" using 2(1) length_dropWhile_le by simp
  ultimately show ?case using t(1) by simp
qed simp

declare words.simps [simp del]

lemma words_blank: "blank x \<Longrightarrow> words (x # bs) = words bs"
  by (simp add: words.simps [of "x # bs"] words.simps [of bs])

lemma words_word: "\<not> blank x \<Longrightarrow> length (words (x # bs)) = Suc (length (words (dropWhile (\<lambda>x. \<not> blank x) bs)))"
  by (simp add: words.simps [of "x # bs"])

lemma fold_wc_char:
  "wc_l (fold wc_char bs k) = wc_l k + of_nat (count_list bs 10)"
  "wc_w (fold wc_char bs k) = wc_w k + of_nat (length (words (if wc_inword k then dropWhile (\<lambda>x. \<not> blank x) bs else bs)))"
  "wc_c (fold wc_char bs k) = wc_c k + of_nat (length bs)"
proof (induction bs arbitrary: k)
  case (Cons x bs)
  { case 1 show ?case using Cons(1) [of "wc_char x k"] by (simp add: wc_char_def Let_def) }
  { case 2
    show ?case
    proof (cases "blank x")
      case True
      then have "wc_inword (wc_char x k) = False" "wc_w (wc_char x k) = wc_w k" by (auto simp: wc_char_def Let_def blank_def)
      then show ?thesis using Cons(2) [of "wc_char x k"] True by (simp add: words_blank)
    next
      case False
      then have "wc_inword (wc_char x k)" "wc_w (wc_char x k) = (if wc_inword k then wc_w k else wc_w k + 1)"
        by (auto simp: wc_char_def Let_def blank_def)
      then show ?thesis using Cons(2) [of "wc_char x k"] False by (simp add: words_word)
    qed }
  { case 3 show ?case using Cons(3) [of "wc_char x k"] by (simp add: wc_char_def Let_def) }
qed (simp_all add: words.simps [of "[]"])

lemma wc_loop_fold:
  assumes "script s = map RData bss @ [RData []]" and "\<forall>bs \<in> set bss. bs \<noteq> [] \<and> length bs \<le> 512"
  shows "\<exists>t. wc_loop fd k s = Done (fold wc_char (concat bss) k) t"
  using assms
proof (induction bss arbitrary: k s)
  case Nil
  then show ?case by (simp add: wc_loop.simps [of fd k s] uread_def invoke_def)
next
  case (Cons bs bss)
  let ?s = "(post (CRead fd 512) s)\<lparr>script := map RData bss @ [RData []]\<rparr>"
  have "uread fd 512 s = Done (Some bs) ?s" using Cons.prems by (simp add: uread_def invoke_def)
  then have "wc_loop fd k s = wc_loop fd (fold wc_char bs k) ?s" using Cons.prems(2) by (simp add: wc_loop.simps [of fd k s])
  then show ?case using Cons.IH [of ?s "fold wc_char bs k"] Cons.prems(2) by simp
qed

text \<open>
  (C40) \<^verbatim>\<open>wc\<close> counts right, however the input is cut into reads: the lines are the newline characters, the
  words are the longest parts without blanks, and the characters are the bytes of the whole input, each
  modulo \<open>2\<^sup>3\<^sup>2\<close>.
\<close>

theorem wc_counts:
  assumes "script s = map RData bss @ [RData []]" and "\<forall>bs \<in> set bss. bs \<noteq> [] \<and> length bs \<le> 512"
  shows "\<exists>t k. wc_loop fd \<lparr>wc_l = 0, wc_w = 0, wc_c = 0, wc_inword = False\<rparr> s = Done k t \<and>
    wc_l k = of_nat (count_list (concat bss) 10) \<and> wc_w k = of_nat (length (words (concat bss))) \<and> wc_c k = of_nat (length (concat bss))"
  using wc_loop_fold [OF assms, of fd "\<lparr>wc_l = 0, wc_w = 0, wc_c = 0, wc_inword = False\<rparr>"]
    fold_wc_char [of "concat bss" "\<lparr>wc_l = 0, wc_w = 0, wc_c = 0, wc_inword = False\<rparr>"] by auto

theorem wc_counts_witness:
  "\<exists>t k. wc_loop 0 \<lparr>wc_l = 0, wc_w = 0, wc_c = 0, wc_inword = False\<rparr> \<lparr>script = [RData (cs ''to b''), RData (cs ''e '' @ [10]), RData []], calls = []\<rparr> =
     Done k t \<and> wc_l k = 1 \<and> wc_w k = 2 \<and> wc_c k = 7"
proof -
  have n: "count_list (concat [cs ''to b'', cs ''e '' @ [10]]) 10 = 1" "length (words (concat [cs ''to b'', cs ''e '' @ [10]])) = 2"
    "length (concat [cs ''to b'', cs ''e '' @ [10]]) = 7"
    by code_simp+
  have "\<forall>bs \<in> set [cs ''to b'', cs ''e '' @ [10]]. bs \<noteq> [] \<and> length bs \<le> 512" by code_simp
  from wc_counts [OF _ this, of "\<lparr>script = [RData (cs ''to b''), RData (cs ''e '' @ [10]), RData []], calls = []\<rparr>" 0, unfolded n]
  show ?thesis by simp
qed

end
