(* ===== verification/Sh.thy ===== *)
theory Sh
  imports User
begin

text \<open>
  The shell, \<^verbatim>\<open>sh.c\<close>. The line that was typed is a C string \<open>buf\<close>; the pointers into it that the parser
  uses are positions, and \<^verbatim>\<open>es\<close> is its length. A parsed command has the start and the end of each word, as
  the structures of the program do; \<^verbatim>\<open>nulterminate\<close> then writes a 0 at each end. Memory for the
  structures is assumed to be there.

  The parser is recursive without a bound; the model has one, \<open>PFuel\<close>, which
  is never reached from \<^verbatim>\<open>parsecmd\<close>.
\<close>

section \<open>Commands\<close>

datatype cmd =
    EXECCMD "(nat \<times> nat) list"
  | REDIRCMD cmd "nat \<times> nat" u32 int
  | PIPECMD cmd cmd
  | LISTCMD cmd cmd
  | BACKCMD cmd

definition execcmd :: cmd where
  "execcmd = EXECCMD []"

definition redircmd :: "cmd \<Rightarrow> nat \<Rightarrow> nat \<Rightarrow> u32 \<Rightarrow> int \<Rightarrow> cmd" where
  "redircmd subcmd file efile mode fd = REDIRCMD subcmd (file, efile) mode fd"

definition pipecmd :: "cmd \<Rightarrow> cmd \<Rightarrow> cmd" where
  "pipecmd left right = PIPECMD left right"

definition listcmd :: "cmd \<Rightarrow> cmd \<Rightarrow> cmd" where
  "listcmd left right = LISTCMD left right"

definition backcmd :: "cmd \<Rightarrow> cmd" where
  "backcmd subcmd = BACKCMD subcmd"

lemmas constructors [simp] = execcmd_def redircmd_def pipecmd_def listcmd_def backcmd_def

text \<open>\<^verbatim>\<open>parseexec\<close> keeps a pointer to the command inside the redirections and adds the arguments there.\<close>

fun add_arg :: "nat \<times> nat \<Rightarrow> cmd \<Rightarrow> cmd" where
  "add_arg w (EXECCMD ws) = EXECCMD (ws @ [w])"
| "add_arg w (REDIRCMD c f mode fd) = REDIRCMD (add_arg w c) f mode fd"
| "add_arg w c = c"

section \<open>Tokens\<close>

definition whitespace :: bytes where
  "whitespace = [32, 9, 13, 10, 11]"

definition symbols :: bytes where
  "symbols = [60, 124, 62, 38, 59, 40, 41]"

definition chr_at :: "bytes \<Rightarrow> nat \<Rightarrow> u8" where
  "chr_at buf s = (if s < length buf then buf ! s else 0)"

function skip_white :: "bytes \<Rightarrow> nat \<Rightarrow> nat" where
  "skip_white buf s = (if s < length buf \<and> ustrchr whitespace (buf ! s) \<noteq> None then skip_white buf (Suc s) else s)"
  by pat_completeness auto

termination by (relation "measure (\<lambda>(buf, s). length buf - s)") auto

function skip_word :: "bytes \<Rightarrow> nat \<Rightarrow> nat" where
  "skip_word buf s =
     (if s < length buf \<and> ustrchr whitespace (buf ! s) = None \<and> ustrchr symbols (buf ! s) = None then skip_word buf (Suc s) else s)"
  by pat_completeness auto

termination by (relation "measure (\<lambda>(buf, s). length buf - s)") auto

declare skip_white.simps [simp del] skip_word.simps [simp del]

text \<open>The kind of the token, its start and end, and the position after it.\<close>

definition gettoken :: "bytes \<Rightarrow> nat \<Rightarrow> u8 \<times> nat \<times> nat \<times> nat" where
  "gettoken buf ps =
     (let q = skip_white buf ps;
          c = chr_at buf q;
          (ret, s) = (if c = 0 then (c, q)
            else if c \<in> set [124, 40, 41, 59, 38, 60] then (c, Suc q)
            else if c = 62 then (if chr_at buf (Suc q) = 62 then (43, Suc (Suc q)) else (c, Suc q))
            else (97, skip_word buf q))
      in (ret, q, s, skip_white buf s))"

definition peek :: "bytes \<Rightarrow> nat \<Rightarrow> bytes \<Rightarrow> bool \<times> nat" where
  "peek buf ps toks = (let s = skip_white buf ps in (chr_at buf s \<noteq> 0 \<and> ustrchr toks (chr_at buf s) \<noteq> None, s))"

section \<open>The parser\<close>

datatype 'a parsed = POk 'a nat | PPanic string | PFuel

fun pbind :: "'a parsed \<Rightarrow> ('a \<Rightarrow> nat \<Rightarrow> 'b parsed) \<Rightarrow> 'b parsed" where
  "pbind (POk a s) f = f a s"
| "pbind (PPanic e) f = PPanic e"
| "pbind PFuel f = PFuel"

fun parseredirs :: "nat \<Rightarrow> bytes \<Rightarrow> cmd \<Rightarrow> nat \<Rightarrow> cmd parsed" where
  "parseredirs 0 buf cmd ps = PFuel"
| "parseredirs (Suc n) buf cmd ps =
     (let (more, ps) = peek buf ps [60, 62] in
      if \<not> more then POk cmd ps
      else let (tok, _, _, ps) = gettoken buf ps;
               (kind, q, eq, ps) = gettoken buf ps
           in if kind \<noteq> 97 then PPanic ''missing file for redirection''
              else parseredirs n buf
                (if tok = 60 then redircmd cmd q eq O_RDONLY 0 else redircmd cmd q eq (O_WRONLY OR O_CREATE) 1) ps)"

fun parseargs :: "nat \<Rightarrow> bytes \<Rightarrow> nat \<Rightarrow> cmd \<Rightarrow> nat \<Rightarrow> cmd parsed" where
  "parseargs 0 buf argc ret ps = PFuel"
| "parseargs (Suc n) buf argc ret ps =
     (let (stop, ps) = peek buf ps [124, 41, 38, 59] in
      if stop then POk ret ps
      else let (tok, q, eq, ps) = gettoken buf ps in
        if tok = 0 then POk ret ps
        else if tok \<noteq> 97 then PPanic ''syntax''
        else if argc + 1 \<ge> 10 then PPanic ''too many args''
        else pbind (parseredirs (Suc (length buf)) buf (add_arg (q, eq) ret) ps) (\<lambda>ret ps.
          parseargs n buf (argc + 1) ret ps))"

fun parseback :: "nat \<Rightarrow> bytes \<Rightarrow> cmd \<Rightarrow> nat \<Rightarrow> cmd parsed" where
  "parseback 0 buf cmd ps = PFuel"
| "parseback (Suc n) buf cmd ps =
     (let (more, ps) = peek buf ps [38] in
      if more then (let (_, _, _, ps) = gettoken buf ps in parseback n buf (backcmd cmd) ps) else POk cmd ps)"

fun parseline :: "nat \<Rightarrow> bytes \<Rightarrow> nat \<Rightarrow> cmd parsed" and parsepipe :: "nat \<Rightarrow> bytes \<Rightarrow> nat \<Rightarrow> cmd parsed"
  and parseexec :: "nat \<Rightarrow> bytes \<Rightarrow> nat \<Rightarrow> cmd parsed" and parseblock :: "nat \<Rightarrow> bytes \<Rightarrow> nat \<Rightarrow> cmd parsed" where
  "parseline 0 buf ps = PFuel"
| "parseline (Suc n) buf ps =
     pbind (parsepipe n buf ps) (\<lambda>cmd ps.
     pbind (parseback (Suc (length buf)) buf cmd ps) (\<lambda>cmd ps.
     let (more, ps) = peek buf ps [59] in
     if more then (let (_, _, _, ps) = gettoken buf ps in pbind (parseline n buf ps) (\<lambda>right ps. POk (listcmd cmd right) ps))
     else POk cmd ps))"
| "parsepipe 0 buf ps = PFuel"
| "parsepipe (Suc n) buf ps =
     pbind (parseexec n buf ps) (\<lambda>cmd ps.
     let (more, ps) = peek buf ps [124] in
     if more then (let (_, _, _, ps) = gettoken buf ps in pbind (parsepipe n buf ps) (\<lambda>right ps. POk (pipecmd cmd right) ps))
     else POk cmd ps)"
| "parseexec 0 buf ps = PFuel"
| "parseexec (Suc n) buf ps =
     (let (block, ps) = peek buf ps [40] in
      if block then parseblock n buf ps
      else pbind (parseredirs (Suc (length buf)) buf execcmd ps) (\<lambda>ret ps.
        parseargs (Suc (length buf)) buf 0 ret ps))"
| "parseblock 0 buf ps = PFuel"
| "parseblock (Suc n) buf ps =
     (let (open, ps) = peek buf ps [40] in
      if \<not> open then PPanic ''parseblock''
      else let (_, _, _, ps) = gettoken buf ps in
        pbind (parseline n buf ps) (\<lambda>cmd ps.
        let (close, ps) = peek buf ps [41] in
        if \<not> close then PPanic ''syntax - missing )''
        else let (_, _, _, ps) = gettoken buf ps in parseredirs (Suc (length buf)) buf cmd ps))"

text \<open>The command, or the message of the panic and the text that is left over when there is some.\<close>

definition parsecmd :: "bytes \<Rightarrow> cmd parsed \<times> bytes option" where
  "parsecmd buf =
     (case parseline (4 * length buf + 4) buf 0 of
        POk cmd ps \<Rightarrow> let (_, ps) = peek buf ps [] in
          if ps \<noteq> length buf then (PPanic ''syntax'', Some (drop ps buf)) else (POk cmd ps, None)
      | e \<Rightarrow> (e, None))"

fun nulterminate :: "cmd \<Rightarrow> bytes \<Rightarrow> bytes" where
  "nulterminate (EXECCMD ws) buf = fold (\<lambda>(q, eq) buf. buf[eq := 0]) ws buf"
| "nulterminate (REDIRCMD c f mode fd) buf = (nulterminate c buf)[snd f := 0]"
| "nulterminate (PIPECMD l r) buf = nulterminate r (nulterminate l buf)"
| "nulterminate (LISTCMD l r) buf = nulterminate r (nulterminate l buf)"
| "nulterminate (BACKCMD c) buf = nulterminate c buf"

section \<open>Running a command\<close>

definition str_at :: "bytes \<Rightarrow> nat \<Rightarrow> bytes" where
  "str_at buf q = cstr (drop q buf)"

definition sh_panic :: "string \<Rightarrow> ust \<Rightarrow> (ust, 'a) outcome" where
  "sh_panic e s = uexit (printf 2 ''%s\<newline>'' [CStr (Some (cs e))] s)"

definition fork1 :: "ust \<Rightarrow> (ust, int) outcome" where
  "fork1 s = bind (call_int CFork s) (\<lambda>pid s. if pid = - 1 then sh_panic ''fork'' s else Done pid s)"

primrec runcmd :: "bytes \<Rightarrow> cmd \<Rightarrow> ust \<Rightarrow> (ust, unit) outcome" where
  "runcmd buf (EXECCMD ws) s =
     (case ws of
        [] \<Rightarrow> uexit s
      | w # _ \<Rightarrow> bind (invoke (CExec (str_at buf (fst w)) (map (\<lambda>v. str_at buf (fst v)) ws)) s) (\<lambda>_ s.
          uexit (printf 2 ''exec %s failed\<newline>'' [CStr (Some (str_at buf (fst w)))] s)))"
| "runcmd buf (REDIRCMD c f mode fd) s =
     bind (call_int (COpen (str_at buf (fst f)) mode) (post (CClose fd) s)) (\<lambda>r s.
     if r < 0 then uexit (printf 2 ''open %s failed\<newline>'' [CStr (Some (str_at buf (fst f)))] s) else runcmd buf c s)"
| "runcmd buf (LISTCMD l r) s =
     bind (fork1 s) (\<lambda>pid s. if pid = 0 then runcmd buf l s else runcmd buf r (post CWait s))"
| "runcmd buf (PIPECMD l r) s =
     bind (invoke CPipe s) (\<lambda>p s.
     case p of
       RPair p0 p1 \<Rightarrow>
         bind (fork1 s) (\<lambda>pid s.
         if pid = 0 then runcmd buf l (post (CClose p1) (post (CClose p0) (post (CDup p1) (post (CClose 1) s))))
         else bind (fork1 s) (\<lambda>pid s.
           if pid = 0 then runcmd buf r (post (CClose p1) (post (CClose p0) (post (CDup p0) (post (CClose 0) s))))
           else uexit (post CWait (post CWait (post (CClose p1) (post (CClose p0) s))))))
     | _ \<Rightarrow> sh_panic ''pipe'' s)"
| "runcmd buf (BACKCMD c) s = bind (fork1 s) (\<lambda>pid s. if pid = 0 then runcmd buf c s else uexit s)"

definition run_line :: "bytes \<Rightarrow> ust \<Rightarrow> (ust, unit) outcome" where
  "run_line buf s =
     (case parsecmd buf of
        (POk cmd _, _) \<Rightarrow> runcmd (nulterminate cmd buf) cmd s
      | (PPanic e, left) \<Rightarrow> sh_panic e (case left of None \<Rightarrow> s | Some t \<Rightarrow> printf 2 ''leftovers: %s\<newline>'' [CStr (Some t)] s)
      | (PFuel, _) \<Rightarrow> Diverge)"

definition getcmd :: "nat \<Rightarrow> ust \<Rightarrow> (ust, bytes option) outcome" where
  "getcmd nbuf s =
     bind (gets nbuf (printf 2 ''$ '' [] s)) (\<lambda>bs s.
     Done (if cstr bs = [] then None else Some (cstr bs)) s)"

function sh_open :: "ust \<Rightarrow> (ust, unit) outcome" where
  "sh_open s =
     bind (call_int (COpen (cs ''console'') O_RDWR) s) (\<lambda>fd s.
     if fd < 0 then Done () s else if fd \<ge> 3 then Done () (post (CClose fd) s) else sh_open s)"
  by pat_completeness auto

termination
proof (relation "measure (\<lambda>s. length (script s))", goal_cases)
  case (2 s fd t)
  then show ?case using call_int_script [OF 2(1)] by simp
qed simp

lemma gets_loop_script: "gets_loop n s = Done bs t \<Longrightarrow> length (script t) \<le> length (script s) \<and> (bs \<noteq> [] \<longrightarrow> length (script t) < length (script s))"
proof (induction n arbitrary: s bs t)
  case (Suc n)
  from Suc.prems obtain r u where u: "uread 0 1 s = Done r u" and k: "(case r of None \<Rightarrow> Done [] u | Some [] \<Rightarrow> Done [] u
      | Some (c # _) \<Rightarrow> if c = 10 \<or> c = 13 then Done [c] u else bind (gets_loop n u) (\<lambda>cs s. Done (c # cs) s)) = Done bs t"
    unfolding gets_loop.simps bind_Done_iff by blast
  then show ?case using uread_script [OF u] Suc.IH [of u]
    by (auto simp: bind_Done_iff split: option.splits list.splits if_splits)
qed simp

lemma getcmd_script: "getcmd n s = Done (Some b) t \<Longrightarrow> length (script t) < length (script s)"
  using gets_loop_script [of "n - 1" "printf 2 ''$ '' [] s"]
  by (fastforce simp: getcmd_def gets_def bind_Done_iff cstr_def split: if_splits)

lemma fork1_script: "fork1 s = Done p t \<Longrightarrow> length (script t) < length (script s)"
  by (auto simp: fork1_def bind_Done_iff sh_panic_def uexit_def split: if_splits dest: call_int_script)

function sh_loop :: "ust \<Rightarrow> (ust, unit) outcome" where
  "sh_loop s =
     bind (getcmd 100 s) (\<lambda>r s.
     if r = None then uexit s
     else let buf = the r in
       if take 3 buf = cs ''cd '' then
         let dir = drop 3 (butlast buf) in
         bind (call_int (CChdir dir) s) (\<lambda>r s.
         sh_loop (if r < 0 then printf 2 ''cannot cd %s\<newline>'' [CStr (Some dir)] s else s))
       else bind (fork1 s) (\<lambda>pid s. if pid = 0 then run_line buf s else sh_loop (post CWait s)))"
  by pat_completeness auto

termination
proof (relation "measure (\<lambda>s. length (script s))", goal_cases)
  case (2 s r t buf dir q u)
  then show ?case using getcmd_script [of 100 s buf t] call_int_script [OF 2(6)] by (cases r) (auto split: if_splits)
next
  case (3 s r t buf pid u)
  then show ?case using getcmd_script [of 100 s buf t] fork1_script [OF 3(5)] by (cases r) auto
qed simp

definition sh_main :: "ust \<Rightarrow> (ust, unit) outcome" where
  "sh_main s = bind (sh_open s) (\<lambda>_ s. sh_loop s)"

end
