(* ===== verification/Sh_Parse.thy ===== *)
theory Sh_Parse
  imports Sh
begin

text \<open>
  The shell's parser: it always ends, within the bound of the model, and the words of the command
  it returns are the words that were typed once \<^verbatim>\<open>nulterminate\<close> has cut the line.
\<close>

section \<open>Positions and words\<close>

text \<open>A word of the line: no blank and no symbol in it, and one of them, or the end of the line, after it.\<close>

definition plain :: "u8 \<Rightarrow> bool" where
  "plain c \<longleftrightarrow> ustrchr whitespace c = None \<and> ustrchr symbols c = None"

definition word_ok :: "bytes \<Rightarrow> nat \<times> nat \<Rightarrow> bool" where
  "word_ok buf w \<longleftrightarrow> fst w < snd w \<and> snd w \<le> length buf \<and> (\<forall>i\<in>{fst w..<snd w}. plain (buf ! i)) \<and>
     (snd w < length buf \<longrightarrow> \<not> plain (buf ! snd w))"

fun cmd_words :: "cmd \<Rightarrow> (nat \<times> nat) list" where
  "cmd_words (EXECCMD ws) = ws"
| "cmd_words (REDIRCMD c f mode fd) = cmd_words c @ [f]"
| "cmd_words (PIPECMD l r) = cmd_words l @ cmd_words r"
| "cmd_words (LISTCMD l r) = cmd_words l @ cmd_words r"
| "cmd_words (BACKCMD c) = cmd_words c"

definition words_ok :: "bytes \<Rightarrow> cmd \<Rightarrow> bool" where
  "words_ok buf c \<longleftrightarrow> (\<forall>w\<in>set (cmd_words c). word_ok buf w)"

lemma words_ok_simps [simp]:
  "words_ok buf (EXECCMD ws) \<longleftrightarrow> (\<forall>w\<in>set ws. word_ok buf w)"
  "words_ok buf (REDIRCMD c f mode fd) \<longleftrightarrow> words_ok buf c \<and> word_ok buf f"
  "words_ok buf (PIPECMD l r) \<longleftrightarrow> words_ok buf l \<and> words_ok buf r"
  "words_ok buf (LISTCMD l r) \<longleftrightarrow> words_ok buf l \<and> words_ok buf r"
  "words_ok buf (BACKCMD c) \<longleftrightarrow> words_ok buf c"
  by (auto simp: words_ok_def)

lemma words_ok_add_arg: "words_ok buf c \<Longrightarrow> word_ok buf w \<Longrightarrow> words_ok buf (add_arg w c)"
  by (induction w c rule: add_arg.induct) auto

lemma skip_white_bounds: "s \<le> skip_white buf s \<and> (s \<le> length buf \<longrightarrow> skip_white buf s \<le> length buf)"
proof (induction buf s rule: skip_white.induct)
  case (1 buf s)
  then show ?case by (auto simp: skip_white.simps [of buf s])
qed

lemma skip_white_stop: "skip_white buf s < length buf \<Longrightarrow> ustrchr whitespace (buf ! skip_white buf s) = None"
proof (induction buf s rule: skip_white.induct)
  case (1 buf s)
  then show ?case by (auto simp: skip_white.simps [of buf s] split: if_splits)
qed

lemma skip_white_id: "ustrchr whitespace (buf ! s) = None \<Longrightarrow> skip_white buf s = s"
  by (subst skip_white.simps) simp

lemma skip_word_bounds:
  "s \<le> skip_word buf s \<and> (s \<le> length buf \<longrightarrow> skip_word buf s \<le> length buf) \<and> (\<forall>i\<in>{s..<skip_word buf s}. plain (buf ! i)) \<and>
   (skip_word buf s < length buf \<longrightarrow> \<not> plain (buf ! skip_word buf s))"
proof (induction buf s rule: skip_word.induct)
  case (1 buf s)
  show ?case
  proof (cases "s < length buf \<and> plain (buf ! s)")
    case True
    then have e: "skip_word buf s = skip_word buf (Suc s)" by (subst skip_word.simps) (simp add: plain_def)
    have p: "s < length buf \<and> ustrchr whitespace (buf ! s) = None \<and> ustrchr symbols (buf ! s) = None" using True by (simp add: plain_def)
    have IH: "Suc s \<le> skip_word buf (Suc s)" "skip_word buf (Suc s) \<le> length buf" "\<forall>i\<in>{Suc s..<skip_word buf (Suc s)}. plain (buf ! i)"
      "skip_word buf (Suc s) < length buf \<longrightarrow> \<not> plain (buf ! skip_word buf (Suc s))"
      using 1 [OF p] True by simp_all
    have "\<forall>i\<in>{s..<skip_word buf (Suc s)}. plain (buf ! i)"
    proof
      fix i assume "i \<in> {s..<skip_word buf (Suc s)}"
      then show "plain (buf ! i)" using IH(3) True by (cases "i = s") auto
    qed
    then show ?thesis using IH e by auto
  next
    case False
    then have "skip_word buf s = s" by (subst skip_word.simps) (auto simp: plain_def)
    then show ?thesis using False by auto
  qed
qed

lemma not_symbol: "c \<notin> set [124, 40, 41, 59, 38, 60] \<Longrightarrow> c \<noteq> 62 \<Longrightarrow> ustrchr symbols c = None"
  by (auto simp: symbols_def)

lemma chr_at_less: "chr_at buf s \<noteq> 0 \<Longrightarrow> s < length buf"
  by (auto simp: chr_at_def split: if_splits)

lemma gettoken_cases:
  assumes "gettoken buf s = (k, q, e, t)" and "s \<le> length buf"
  shows "q = skip_white buf s \<and> q \<le> e \<and> e \<le> length buf \<and> t = skip_white buf e \<and> (chr_at buf q \<noteq> 0 \<longrightarrow> q < e) \<and> (k = 97 \<longrightarrow> word_ok buf (q, e))"
proof -
  let ?q = "skip_white buf s"
  let ?c = "chr_at buf ?q"
  have b: "?q \<le> length buf" using skip_white_bounds [of s buf] assms(2) by simp
  consider "?c = 0" | "?c \<noteq> 0" "?c \<in> set [124, 40, 41, 59, 38, 60]" | "?c = 62" | "?c \<noteq> 0" "?c \<notin> set [124, 40, 41, 59, 38, 60]" "?c \<noteq> 62" by blast
  then show ?thesis
  proof cases
    case 1
    then show ?thesis using assms(1) b by (auto simp: gettoken_def Let_def)
  next
    case 2
    then have "(k, q, e, t) = (?c, ?q, Suc ?q, skip_white buf (Suc ?q))" using assms(1) by (auto simp: gettoken_def Let_def)
    then show ?thesis using 2 chr_at_less [OF 2(1)] by auto
  next
    case 3
    then show ?thesis using assms(1) chr_at_less [of buf ?q] chr_at_less [of buf "Suc ?q"]
      by (auto simp: gettoken_def Let_def split: if_splits)
  next
    case 4
    have l: "?q < length buf" using 4(1) by (rule chr_at_less)
    have r: "k = 97" "q = ?q" "e = skip_word buf ?q" "t = skip_white buf e" using assms(1) 4 by (auto simp: gettoken_def Let_def)
    have "plain (buf ! ?q)" using not_symbol [OF 4(2,3)] skip_white_stop [OF l] l by (simp add: plain_def chr_at_def)
    then have "?q \<noteq> skip_word buf ?q" using skip_word_bounds [of ?q buf] l by metis
    then show ?thesis using r skip_word_bounds [of ?q buf] l by (auto simp: word_ok_def)
  qed
qed

lemma gettoken_bounds:
  assumes "gettoken buf s = (k, q, e, t)" and "s \<le> length buf"
  shows "s \<le> t" and "t \<le> length buf" and "k = 97 \<Longrightarrow> s < t \<and> word_ok buf (q, e)"
proof -
  have g: "q = skip_white buf s" "q \<le> e" "e \<le> length buf" "t = skip_white buf e" "k = 97 \<longrightarrow> word_ok buf (q, e)"
    using gettoken_cases [OF assms] by auto
  show "s \<le> t" and "t \<le> length buf" using g skip_white_bounds [of s buf] skip_white_bounds [of e buf] by auto
  show "k = 97 \<Longrightarrow> s < t \<and> word_ok buf (q, e)" using g skip_white_bounds [of s buf] skip_white_bounds [of e buf] by (auto simp: word_ok_def)
qed

lemma peek_bounds:
  assumes "peek buf s toks = (b, t)" and "s \<le> length buf"
  shows "s \<le> t" and "t \<le> length buf"
  using assms skip_white_bounds [of s buf] by (auto simp: peek_def Let_def)

lemma gettoken_after_peek:
  assumes "peek buf s toks = (b, t)" and b and "gettoken buf t = (k, q, e, u)" and "s \<le> length buf"
  shows "t < u" and "u \<le> length buf"
proof -
  have c: "chr_at buf t \<noteq> 0" and t: "t = skip_white buf s" using assms(1,2) by (auto simp: peek_def Let_def)
  have l: "t < length buf" using c by (rule chr_at_less)
  then have "skip_white buf t = t" using skip_white_id skip_white_stop t by metis
  then show "t < u" and "u \<le> length buf"
    using gettoken_cases [OF assms(3)] l c skip_white_bounds [of e buf] by auto
qed

section \<open>The parser ends\<close>

text \<open>A good result from \<open>s\<close> on: the bound is not reached, the position is not before \<open>s\<close>, and the words are words of the line.\<close>

fun parse_ok :: "bytes \<Rightarrow> nat \<Rightarrow> cmd parsed \<Rightarrow> bool" where
  "parse_ok buf s (POk c t) \<longleftrightarrow> s \<le> t \<and> t \<le> length buf \<and> words_ok buf c"
| "parse_ok buf s (PPanic e) \<longleftrightarrow> True"
| "parse_ok buf s PFuel \<longleftrightarrow> False"

lemma parse_ok_mono: "parse_ok buf t r \<Longrightarrow> s \<le> t \<Longrightarrow> parse_ok buf s r"
  by (cases r) auto

lemma parse_ok_bind:
  assumes "parse_ok buf s r" and "\<And>c t. s \<le> t \<Longrightarrow> t \<le> length buf \<Longrightarrow> words_ok buf c \<Longrightarrow> parse_ok buf t (f c t)"
  shows "parse_ok buf s (pbind r f)"
  using assms by (cases r) (auto intro: parse_ok_mono)

lemma parseredirs_ok:
  assumes "s \<le> length buf" and "length buf - s < n" and "words_ok buf c"
  shows "parse_ok buf s (parseredirs n buf c s)"
  using assms
proof (induction n arbitrary: c s)
  case (Suc n)
  obtain b t where p: "peek buf s [60, 62] = (b, t)" by fastforce
  note pb = peek_bounds [OF p Suc.prems(1)]
  show ?case
  proof (cases b)
    case False
    then show ?thesis using p pb Suc.prems(3) by simp
  next
    case True
    obtain k q e u where g: "gettoken buf t = (k, q, e, u)" by (metis prod_cases4)
    obtain k' q' e' v where g': "gettoken buf u = (k', q', e', v)" by (metis prod_cases4)
    have u: "t < u" "u \<le> length buf" using gettoken_after_peek [OF p True g Suc.prems(1)] .
    note v = gettoken_bounds [OF g' u(2)]
    show ?thesis
    proof (cases "k' = 97")
      case k: True
      let ?c = "if k = 60 then redircmd c q' e' O_RDONLY 0 else redircmd c q' e' (O_WRONLY OR O_CREATE) 1"
      have "words_ok buf ?c" using v(3) [OF k] Suc.prems(3) by simp
      then have "parse_ok buf v (parseredirs n buf ?c v)" using v u pb Suc.prems by (intro Suc.IH) auto
      then have "parse_ok buf s (parseredirs n buf ?c v)" using v u pb by (auto intro: parse_ok_mono)
      then show ?thesis using p True g g' k by simp
    next
      case False
      then show ?thesis using p True g g' by simp
    qed
  qed
qed simp

lemma parseargs_ok:
  assumes "s \<le> length buf" and "length buf - s < n" and "words_ok buf c"
  shows "parse_ok buf s (parseargs n buf argc c s)"
  using assms
proof (induction n arbitrary: argc c s)
  case (Suc n)
  obtain b t where p: "peek buf s [124, 41, 38, 59] = (b, t)" by fastforce
  note pb = peek_bounds [OF p Suc.prems(1)]
  obtain k q e u where g: "gettoken buf t = (k, q, e, u)" by (metis prod_cases4)
  note u = gettoken_bounds [OF g pb(2)]
  show ?case
  proof (cases "\<not> b \<and> k = 97 \<and> argc + 1 < 10")
    case True
    then have w: "t < u" "word_ok buf (q, e)" using u(3) by auto
    have "parse_ok buf u (pbind (parseredirs (Suc (length buf)) buf (add_arg (q, e) c) u) (\<lambda>c s. parseargs n buf (argc + 1) c s))"
    proof (rule parse_ok_bind)
      show "parse_ok buf u (parseredirs (Suc (length buf)) buf (add_arg (q, e) c) u)"
        using u(2) words_ok_add_arg [OF Suc.prems(3) w(2)] by (intro parseredirs_ok) auto
    qed (use w(1) pb Suc.prems in \<open>auto intro!: Suc.IH\<close>)
    then show ?thesis using p g True parse_ok_mono [of buf u _ s] u(1) pb(1) by simp
  next
    case False
    then show ?thesis using p g pb u Suc.prems(3) by auto
  qed
qed simp

lemma parseback_ok:
  assumes "s \<le> length buf" and "length buf - s < n" and "words_ok buf c"
  shows "parse_ok buf s (parseback n buf c s)"
  using assms
proof (induction n arbitrary: c s)
  case (Suc n)
  obtain b t where p: "peek buf s [38] = (b, t)" by fastforce
  note pb = peek_bounds [OF p Suc.prems(1)]
  obtain k q e u where g: "gettoken buf t = (k, q, e, u)" by (metis prod_cases4)
  show ?case
  proof (cases b)
    case True
    note u = gettoken_after_peek [OF p True g Suc.prems(1)]
    have "parse_ok buf u (parseback n buf (backcmd c) u)" using u pb Suc.prems by (intro Suc.IH) auto
    then show ?thesis using p g True parse_ok_mono [of buf u _ s] u(1) pb(1) by simp
  next
    case False
    then show ?thesis using p pb Suc.prems(3) by simp
  qed
qed simp

text \<open>A peek, and when it succeeds a token and a continuation.\<close>

lemma parse_ok_peek:
  assumes "s \<le> length buf" and "\<And>t. s \<le> t \<Longrightarrow> t \<le> length buf \<Longrightarrow> parse_ok buf s (g t)"
    and "\<And>t u. s \<le> t \<Longrightarrow> t < u \<Longrightarrow> u \<le> length buf \<Longrightarrow> parse_ok buf u (f u)"
  shows "parse_ok buf s (let (more, ps) = peek buf s toks in if more then (let (_, _, _, ps) = gettoken buf ps in f ps) else g ps)"
proof -
  obtain b t where p: "peek buf s toks = (b, t)" by fastforce
  obtain k q e u where g: "gettoken buf t = (k, q, e, u)" by (metis prod_cases4)
  note pb = peek_bounds [OF p assms(1)]
  show ?thesis
  proof (cases b)
    case True
    note u = gettoken_after_peek [OF p True g assms(1)]
    have "parse_ok buf s (f u)" using assms(3) [OF pb(1) u] pb(1) u(1) by (auto intro: parse_ok_mono)
    then show ?thesis using p g True by simp
  next
    case False
    then show ?thesis using p assms(2) [OF pb] by simp
  qed
qed

lemma parse_block_ok:
  assumes "s \<le> length buf" and "\<And>u. s < u \<Longrightarrow> u \<le> length buf \<Longrightarrow> parse_ok buf u (parseline n buf u)"
  shows "parse_ok buf s (parseblock (Suc n) buf s)"
proof -
  let ?close = "\<lambda>c s. let (close, ps) = peek buf s [41] in
    if close then (let (_, _, _, ps) = gettoken buf ps in parseredirs (Suc (length buf)) buf c ps) else PPanic ''syntax - missing )''"
  have c: "parse_ok buf t (?close c t)" if "t \<le> length buf" "words_ok buf c" for c t
    using that by (intro parse_ok_peek parseredirs_ok) auto
  have "parse_ok buf s (let (more, ps) = peek buf s [40] in
    if more then (let (_, _, _, ps) = gettoken buf ps in pbind (parseline n buf ps) ?close) else PPanic ''parseblock'')"
  proof (rule parse_ok_peek [OF assms(1)])
    fix t u assume "s \<le> t" "t < u" "u \<le> length buf"
    then show "parse_ok buf u (pbind (parseline n buf u) ?close)" using assms(2) [of u] c by (intro parse_ok_bind) auto
  qed simp
  moreover have "parseblock (Suc n) buf s = (let (more, ps) = peek buf s [40] in
    if more then (let (_, _, _, ps) = gettoken buf ps in pbind (parseline n buf ps) ?close) else PPanic ''parseblock'')"
    by (auto simp: Let_def split: prod.splits intro!: arg_cong [where f = "pbind _"] ext)
  ultimately show ?thesis by simp
qed

lemma parse_exec_ok:
  assumes "s \<le> length buf" and "\<And>t. s \<le> t \<Longrightarrow> t \<le> length buf \<Longrightarrow> parse_ok buf t (parseblock n buf t)"
  shows "parse_ok buf s (parseexec (Suc n) buf s)"
proof -
  obtain b t where p: "peek buf s [40] = (b, t)" by fastforce
  note pb = peek_bounds [OF p assms(1)]
  have "parse_ok buf t (if b then parseblock n buf t
      else pbind (parseredirs (Suc (length buf)) buf execcmd t) (\<lambda>ret ps. parseargs (Suc (length buf)) buf 0 ret ps))"
    using assms(2) [OF pb] pb by (auto intro!: parse_ok_bind parseredirs_ok parseargs_ok simp del: parseargs.simps parseredirs.simps)
  then show ?thesis using p parse_ok_mono [of buf t _ s] pb(1) by simp
qed

lemma parse_all_ok:
  "s \<le> length buf \<Longrightarrow> 4 * (length buf - s) + 4 \<le> n \<Longrightarrow> parse_ok buf s (parseline n buf s)"
  "s \<le> length buf \<Longrightarrow> 4 * (length buf - s) + 3 \<le> n \<Longrightarrow> parse_ok buf s (parsepipe n buf s)"
  "s \<le> length buf \<Longrightarrow> 4 * (length buf - s) + 2 \<le> n \<Longrightarrow> parse_ok buf s (parseexec n buf s)"
  "s \<le> length buf \<Longrightarrow> 4 * (length buf - s) + 1 \<le> n \<Longrightarrow> parse_ok buf s (parseblock n buf s)"
proof (induction n arbitrary: s)
  case (Suc n)
  { case 1
    show ?case unfolding parseline.simps
      using 1 by (intro parse_ok_bind Suc.IH(2) parseback_ok parse_ok_peek Suc.IH(1)) auto
  next
    case 2
    show ?case unfolding parsepipe.simps
      using 2 by (intro parse_ok_bind Suc.IH(3) parse_ok_peek Suc.IH(2)) auto
  next
    case 3
    then show ?case by (intro parse_exec_ok Suc.IH(4)) auto
  next
    case 4
    then show ?case by (intro parse_block_ok Suc.IH(1)) auto
  }
qed simp_all

lemma parsecmd_cases:
  "(\<exists>c. parsecmd buf = (POk c (length buf), None) \<and> words_ok buf c) \<or> (\<exists>e l. parsecmd buf = (PPanic e, l))"
proof -
  have ok: "parse_ok buf 0 (parseline (4 * length buf + 4) buf 0)" by (intro parse_all_ok(1)) auto
  show ?thesis
  proof (cases "parseline (4 * length buf + 4) buf 0")
    case (POk c s)
    then show ?thesis using ok by (cases "peek buf s []") (auto simp: parsecmd_def simp del: parseline.simps)
  qed (use ok in \<open>auto simp: parsecmd_def simp del: parseline.simps\<close>)
qed

section \<open>The words\<close>

lemma nth_cut_words:
  "length (fold (\<lambda>(q, eq) b. b[eq := 0]) ws buf) = length buf \<and>
   (i < length buf \<longrightarrow> fold (\<lambda>(q, eq) b. b[eq := 0]) ws buf ! i = (if i \<in> snd ` set ws then 0 else buf ! i))"
proof (induction ws arbitrary: buf)
  case (Cons w ws)
  then show ?case using Cons [of "buf[snd w := 0]"] by (cases w) (simp add: nth_list_update)
qed simp

lemma nth_nulterminate:
  "length (nulterminate c buf) = length buf \<and>
   (i < length buf \<longrightarrow> nulterminate c buf ! i = (if i \<in> snd ` set (cmd_words c) then 0 else buf ! i))"
proof (induction c arbitrary: buf)
  case (EXECCMD ws)
  then show ?case using nth_cut_words [where ws = ws and buf = buf and i = i] by simp
next
  case (REDIRCMD c f mode fd)
  then show ?case using REDIRCMD.IH [of buf] by (cases "snd f = i") simp_all
qed (simp_all add: image_Un)

lemma cut_word:
  assumes "words_ok buf c" and "w \<in> set (cmd_words c)" and "0 \<notin> set buf"
  shows "str_at (nulterminate c buf) (fst w) = take (snd w - fst w) (drop (fst w) buf)"
proof -
  let ?b = "nulterminate c buf"
  have len: "length ?b = length buf" using nth_nulterminate by blast
  have nth: "?b ! i = (if i \<in> snd ` set (cmd_words c) then 0 else buf ! i)" if "i < length buf" for i using nth_nulterminate that by blast
  have w: "word_ok buf v" if "v \<in> set (cmd_words c)" for v using assms(1) that by (simp add: words_ok_def)
  have in_word: "?b ! i = buf ! i" if "fst w \<le> i" "i < snd w" for i
  proof -
    have "i < length buf" "plain (buf ! i)" using w [OF assms(2)] that by (auto simp: word_ok_def)
    moreover have "i \<notin> snd ` set (cmd_words c)" using w calculation by (fastforce simp: word_ok_def)
    ultimately show ?thesis using nth by simp
  qed
  have b: "fst w < snd w" "snd w \<le> length buf" using w [OF assms(2)] by (auto simp: word_ok_def)
  have "cstr (drop (fst w) ?b) = take (snd w - fst w) (drop (fst w) ?b)" unfolding cstr_def
  proof (rule takeWhile_eq_take_P_nth)
    fix i assume i: "i < snd w - fst w" "i < length (drop (fst w) ?b)"
    then have "buf ! (fst w + i) \<in> set buf" using b by simp
    then have "buf ! (fst w + i) \<noteq> 0" using assms(3) by metis
    then show "drop (fst w) ?b ! i \<noteq> 0" using i b len in_word [of "fst w + i"] by simp
  next
    assume "snd w - fst w < length (drop (fst w) ?b)"
    then show "\<not> drop (fst w) ?b ! (snd w - fst w) \<noteq> 0" using b len nth [of "snd w"] assms(2) by auto
  qed
  also have "\<dots> = take (snd w - fst w) (drop (fst w) buf)"
    using b len in_word by (intro nth_equalityI) auto
  finally show ?thesis by (simp add: str_at_def)
qed

section \<open>A command without symbols\<close>

definition cmdline :: "bytes list \<Rightarrow> bytes" where
  "cmdline ws = concat (map (\<lambda>w. w @ [32]) ws) @ [10]"

fun places :: "nat \<Rightarrow> bytes list \<Rightarrow> (nat \<times> nat) list" where
  "places p [] = []"
| "places p (w # ws) = (p, p + length w) # places (p + length w + 1) ws"

definition is_word :: "bytes \<Rightarrow> bool" where
  "is_word w \<longleftrightarrow> w \<noteq> [] \<and> (\<forall>c\<in>set w. plain c \<and> c \<noteq> 0)"

lemma cmdline_simps [simp]: "cmdline [] = [10]" "cmdline (w # ws) = w @ 32 # cmdline ws"
  by (simp_all add: cmdline_def)

lemma drop_nth: "drop p buf = x # r \<Longrightarrow> p < length buf \<and> buf ! p = x \<and> drop (Suc p) buf = r"
  by (metis Cons_nth_drop_Suc drop_eq_Nil2 leI list.distinct(1) list.inject)

lemma drop_past: "drop p buf = w @ r \<Longrightarrow> drop (p + length w) buf = r"
  by (metis add.commute append_eq_conv_conj drop_drop)

lemma skip_word_run: "drop p buf = w @ 32 # r \<Longrightarrow> \<forall>c\<in>set w. plain c \<Longrightarrow> skip_word buf p = p + length w"
proof (induction w arbitrary: p)
  case Nil
  then show ?case using drop_nth [of p buf] by (subst skip_word.simps) (simp add: whitespace_def)
next
  case (Cons c w)
  then have "p < length buf \<and> buf ! p = c \<and> drop (Suc p) buf = w @ 32 # r" using drop_nth [of p buf] by simp
  then show ?case using Cons by (subst skip_word.simps) (simp add: plain_def)
qed

lemma skip_white_end [simp]: "skip_white buf (length buf) = length buf"
  by (subst skip_white.simps) simp

lemma peek_end [simp]: "peek buf (length buf) toks = (False, length buf)"
  by (simp add: peek_def chr_at_def)

lemma at_word:
  assumes "drop p buf = w @ r" and "is_word w"
  shows "p < length buf" and "skip_white buf p = p" and "chr_at buf p = hd w" and "plain (hd w)" and "hd w \<noteq> 0"
proof -
  from assms obtain c w' where w: "w = c # w'" "plain c" "c \<noteq> 0" by (cases w) (auto simp: is_word_def)
  then have d: "p < length buf \<and> buf ! p = c" using assms(1) drop_nth [of p buf] by simp
  then show "p < length buf" "skip_white buf p = p" "chr_at buf p = hd w" "plain (hd w)" "hd w \<noteq> 0"
    using w skip_white_id [of buf p] by (auto simp: plain_def chr_at_def)
qed

lemma ustrchr_sub: "ustrchr xs c = None \<Longrightarrow> c \<noteq> 0 \<Longrightarrow> set ys \<subseteq> set xs \<Longrightarrow> 0 \<notin> set xs \<Longrightarrow> ustrchr ys c = None"
proof -
  have none: "0 \<notin> set zs \<Longrightarrow> ustrchr zs c = None \<longleftrightarrow> c \<notin> set zs" for zs by (induction zs) auto
  show "ustrchr xs c = None \<Longrightarrow> c \<noteq> 0 \<Longrightarrow> set ys \<subseteq> set xs \<Longrightarrow> 0 \<notin> set xs \<Longrightarrow> ustrchr ys c = None"
    using none [of xs] none [of ys] by blast
qed

lemma peek_word:
  assumes "drop p buf = w @ r" and "is_word w" and "set toks \<subseteq> set symbols"
  shows "peek buf p toks = (False, p)"
  using at_word [OF assms(1,2)] ustrchr_sub [OF _ _ assms(3)] by (simp add: peek_def plain_def symbols_def)

lemma gettoken_word:
  assumes "drop p buf = cmdline (w # ws)" and "is_word w" and "\<forall>v\<in>set ws. is_word v"
  shows "gettoken buf p = (97, p, p + length w, if ws = [] then length buf else p + length w + 1)"
    and "ws \<noteq> [] \<Longrightarrow> drop (p + length w + 1) buf = cmdline ws"
proof -
  have d: "drop p buf = w @ 32 # cmdline ws" using assms(1) by simp
  then have dw: "drop (p + length w) buf = 32 # cmdline ws" by (rule drop_past)
  note b = drop_nth [OF dw]
  note a = at_word [OF d assms(2)]
  have "hd w \<notin> set [124, 40, 41, 59, 38, 60]" "hd w \<noteq> 62" using a(4) by (auto simp: plain_def symbols_def)
  moreover have "skip_word buf p = p + length w" using skip_word_run [OF d] assms(2) by (simp add: is_word_def)
  ultimately have g: "gettoken buf p = (97, p, p + length w, skip_white buf (p + length w))"
    using a by (simp add: gettoken_def Let_def)
  have s: "skip_white buf (p + length w) = skip_white buf (Suc (p + length w))"
    using b by (subst skip_white.simps) (simp add: whitespace_def)
  have "skip_white buf (Suc (p + length w)) = (if ws = [] then length buf else p + length w + 1)"
  proof (cases ws)
    case Nil
    then have n: "drop (Suc (p + length w)) buf = [10]" using b by simp
    have "length (drop (Suc (p + length w)) buf) = 1" using n by simp
    then have l: "length buf = Suc (Suc (p + length w))" by simp
    have "skip_white buf (Suc (p + length w)) = skip_white buf (length buf)"
      using drop_nth [OF n] l by (subst skip_white.simps) (simp add: whitespace_def)
    then show ?thesis using Nil by simp
  next
    case (Cons v vs)
    then have "drop (Suc (p + length w)) buf = v @ 32 # cmdline vs" using b by simp
    then show ?thesis using at_word(2) assms(3) Cons by auto
  qed
  then show "gettoken buf p = (97, p, p + length w, if ws = [] then length buf else p + length w + 1)" using g s by simp
  show "ws \<noteq> [] \<Longrightarrow> drop (p + length w + 1) buf = cmdline ws" using b by simp
qed

lemma redirs_none: "peek buf p [60, 62] = (False, p) \<Longrightarrow> parseredirs (Suc n) buf c p = POk c p"
  by simp

lemma parseargs_line:
  assumes "if ws = [] then p = length buf else drop p buf = cmdline ws" and "\<forall>w\<in>set ws. is_word w"
    and "length ws < n" and "argc + length ws < 10"
  shows "parseargs n buf argc (EXECCMD vs) p = POk (EXECCMD (vs @ places p ws)) (length buf)"
  using assms
proof (induction ws arbitrary: n argc vs p)
  case Nil
  then show ?case by (cases n) (simp_all add: gettoken_def chr_at_def Let_def)
next
  case (Cons w ws)
  then obtain m where n: "n = Suc m" by (cases n) auto
  let ?p = "if ws = [] then length buf else p + length w + 1"
  have g: "gettoken buf p = (97, p, p + length w, ?p)" and r: "ws \<noteq> [] \<Longrightarrow> drop (p + length w + 1) buf = cmdline ws"
    using gettoken_word [of p buf w ws] Cons.prems by auto
  have k: "peek buf p [124, 41, 38, 59] = (False, p)" using peek_word [of p buf w] Cons.prems by (simp add: symbols_def)
  have "peek buf ?p [60, 62] = (False, ?p)"
  proof (cases ws)
    case (Cons v us)
    then show ?thesis using peek_word [of ?p buf v "32 # cmdline us"] r Cons.prems by (simp add: symbols_def)
  qed simp
  then have e: "parseredirs (Suc (length buf)) buf (EXECCMD (vs @ [(p, p + length w)])) ?p = POk (EXECCMD (vs @ [(p, p + length w)])) ?p"
    by (rule redirs_none)
  have "parseargs m buf (argc + 1) (EXECCMD (vs @ [(p, p + length w)])) ?p = POk (EXECCMD ((vs @ [(p, p + length w)]) @ places ?p ws)) (length buf)"
    using Cons.prems n r by (intro Cons.IH) auto
  then show ?case using n k g e Cons.prems by (cases ws) (simp_all del: parseredirs.simps)
qed

lemma parsecmd_line:
  assumes "ws \<noteq> []" and "\<forall>w\<in>set ws. is_word w" and "length ws < 10"
  shows "parsecmd (cmdline ws) = (POk (EXECCMD (places 0 ws)) (length (cmdline ws)), None)"
proof -
  let ?b = "cmdline ws"
  from assms(1) obtain v vs where w: "ws = v # vs" by (cases ws) auto
  have k: "peek ?b 0 toks = (False, 0)" if "set toks \<subseteq> set symbols" for toks
    using peek_word [of 0 ?b v "32 # cmdline vs"] assms(2) w that by simp
  have "length ws < length ?b" by (induction ws) auto
  then have a: "parseargs (Suc (length ?b)) ?b 0 (EXECCMD []) 0 = POk (EXECCMD (places 0 ws)) (length ?b)"
    using parseargs_line [of ws 0 ?b "Suc (length ?b)" 0 "[]"] assms by simp
  have r: "parseredirs (Suc (length ?b)) ?b (EXECCMD []) 0 = POk (EXECCMD []) 0" using k by (intro redirs_none) (simp add: symbols_def)
  have e: "parseexec (Suc n) ?b 0 = POk (EXECCMD (places 0 ws)) (length ?b)" for n
    using k [of "[40]"] r a by (simp add: symbols_def del: parseredirs.simps parseargs.simps)
  have "parsepipe (Suc (Suc n)) ?b 0 = POk (EXECCMD (places 0 ws)) (length ?b)" for n using e by (simp del: parseexec.simps)
  then have "parseline (Suc (Suc (Suc n))) ?b 0 = POk (EXECCMD (places 0 ws)) (length ?b)" for n by (simp del: parsepipe.simps)
  moreover have "4 * length ?b + 4 = Suc (Suc (Suc (4 * length ?b + 1)))" by simp
  ultimately have "parseline (4 * length ?b + 4) ?b 0 = POk (EXECCMD (places 0 ws)) (length ?b)" by metis
  then show ?thesis by (simp add: parsecmd_def del: parseline.simps)
qed

lemma places_words:
  "drop p buf = cmdline ws \<Longrightarrow> map (\<lambda>w. take (snd w - fst w) (drop (fst w) buf)) (places p ws) = ws"
proof (induction ws arbitrary: p)
  case (Cons w ws)
  then have "drop (p + length w + 1) buf = cmdline ws" using drop_nth [OF drop_past [of p buf w "32 # cmdline ws"]] by simp
  then show ?case using Cons by simp
qed simp

lemma cmdline_nonzero: "\<forall>w\<in>set ws. is_word w \<Longrightarrow> 0 \<notin> set (cmdline ws)"
  by (induction ws) (auto simp: is_word_def)

section \<open>Properties\<close>

text \<open>
  (C29) The parser ends on every line: with the bound that \<open>parsecmd\<close> gives it, four times the length of the
  line and four, its recursion never reaches the bound. The result is a command, with the whole line read, or a message.
\<close>

theorem parse_terminates:
  "(\<exists>c. parsecmd buf = (POk c (length buf), None)) \<or> (\<exists>e l. parsecmd buf = (PPanic e, l))"
  using parsecmd_cases by blast





end
