(* ===== verification/Ide.thy ===== *)
theory Ide
  imports Machine Cache
begin

text \<open>
  The interrupt-driven disk driver, \<^verbatim>\<open>ide.c\<close>. The controller is not part of the program: \<open>ports\<close> is
  what the driver has written to its ports, oldest first, and \<open>status\<close> and \<open>input\<close> are what the driver
  will read from it, values of the status port and blocks of data. A loop that waits for the controller longer
  than \<open>status\<close> tells ends with \<open>Diverge\<close>. The list of requests linked by \<^verbatim>\<open>qnext\<close> is \<open>idequeue\<close>.

  A process that waits for its request has left the processor; \<open>ide_wait\<close> is what it does when it runs again.
\<close>

section \<open>ide.c\<close>

datatype portop = OUTB u32 u8 | OUTSL u32 bytes

record idest = biost +
  idequeue :: "nat list"
  havedisk1 :: bool
  ports :: "portop list"
  status :: "u8 list"
  input :: "bytes list"

abbreviation (input) FSSIZE :: u32 where "FSSIZE \<equiv> 20000"

definition outb :: "u32 \<Rightarrow> u32 \<Rightarrow> 'z idest_scheme \<Rightarrow> 'z idest_scheme" where
  "outb port v s = s\<lparr>ports := ports s @ [OUTB port (ucast v)]\<rparr>"

definition outsl :: "u32 \<Rightarrow> bytes \<Rightarrow> 'z idest_scheme \<Rightarrow> 'z idest_scheme" where
  "outsl port d s = s\<lparr>ports := ports s @ [OUTSL port d]\<rparr>"

definition inb :: "'z idest_scheme \<Rightarrow> ('z idest_scheme, u8) outcome" where
  "inb s = (case status s of [] \<Rightarrow> Diverge | r # rs \<Rightarrow> Done r (s\<lparr>status := rs\<rparr>))"

definition insl :: "nat \<Rightarrow> 'z idest_scheme \<Rightarrow> ('z idest_scheme, unit) outcome" where
  "insl b s = (case input s of [] \<Rightarrow> Diverge | d # ds \<Rightarrow> Done () (set_buf b (\<lambda>q. q\<lparr>b_data := d\<rparr>) (s\<lparr>input := ds\<rparr>)))"

fun idewait_loop :: "u8 list \<Rightarrow> (u8 \<times> u8 list) option" where
  "idewait_loop [] = None"
| "idewait_loop (r # rs) = (if r AND 0xC0 \<noteq> 0x40 then idewait_loop rs else Some (r, rs))"

definition idewait :: "bool \<Rightarrow> 'z idest_scheme \<Rightarrow> ('z idest_scheme, int) outcome" where
  "idewait checkerr s =
     (case idewait_loop (status s) of
        None \<Rightarrow> Diverge
      | Some (r, rs) \<Rightarrow> Done (if checkerr \<and> r AND 0x21 \<noteq> 0 then - 1 else 0) (s\<lparr>status := rs\<rparr>))"

fun probe_loop :: "nat \<Rightarrow> 'z idest_scheme \<Rightarrow> ('z idest_scheme, unit) outcome" where
  "probe_loop 0 s = Done () s"
| "probe_loop (Suc n) s = bind (inb s) (\<lambda>r s. if r \<noteq> 0 then Done () (s\<lparr>havedisk1 := True\<rparr>) else probe_loop n s)"

definition ideinit :: "'z idest_scheme \<Rightarrow> ('z idest_scheme, unit) outcome" where
  "ideinit s =
     bind (idewait False s) (\<lambda>_ s.
     bind (probe_loop 1000 (outb 0x1f6 (0xe0 OR push_bit 4 1) s)) (\<lambda>_ s.
     Done () (outb 0x1f6 (0xe0 OR push_bit 4 0) s)))"

definition idestart :: "nat \<Rightarrow> 'z idest_scheme \<Rightarrow> ('z idest_scheme, unit) outcome" where
  "idestart b s =
     (let q = bufs s ! b in
      if b_blockno q \<ge> FSSIZE then Panic ''incorrect blockno''
      else let sector_per_block = 1; sector = b_blockno q * sector_per_block in
        bind (idewait False s) (\<lambda>_ s.
        let s = outb 0x3f6 0 s;
            s = outb 0x1f2 sector_per_block s;
            s = outb 0x1f3 (sector AND 0xff) s;
            s = outb 0x1f4 (drop_bit 8 sector AND 0xff) s;
            s = outb 0x1f5 (drop_bit 16 sector AND 0xff) s;
            s = outb 0x1f6 (0xe0 OR push_bit 4 (b_dev q AND 1) OR (drop_bit 24 sector AND 0x0f)) s
        in Done () (if b_flags q AND B_DIRTY \<noteq> 0 then outsl 0x1f0 (b_data q) (outb 0x1f7 0x30 s) else outb 0x1f7 0x20 s)))"

definition ideintr :: "'z idest_scheme \<Rightarrow> ('z idest_scheme, unit) outcome" where
  "ideintr s =
     bind (lock IDELOCK s) (\<lambda>_ s.
     case idequeue s of
       [] \<Rightarrow> unlock IDELOCK s
     | b # rest \<Rightarrow>
         let s = s\<lparr>idequeue := rest\<rparr> in
         bind (if b_flags (bufs s ! b) AND B_DIRTY = 0
               then bind (idewait True s) (\<lambda>r s. if r \<ge> 0 then insl b s else Done () s)
               else Done () s) (\<lambda>_ s.
         let s = set_buf b (\<lambda>q. q\<lparr>b_flags := b_flags q OR B_VALID\<rparr>) s;
             s = set_buf b (\<lambda>q. q\<lparr>b_flags := b_flags q AND NOT B_DIRTY\<rparr>) s
         in bind (wakeup (BUFCH b) s) (\<lambda>_ s.
            bind (case idequeue s of [] \<Rightarrow> Done () s | c # _ \<Rightarrow> idestart c s) (\<lambda>_ s.
            unlock IDELOCK s))))"

definition ide_wait :: "nat \<Rightarrow> 'z idest_scheme \<Rightarrow> ('z idest_scheme, unit) outcome" where
  "ide_wait b s =
     (if b_flags (bufs s ! b) AND (B_VALID OR B_DIRTY) \<noteq> B_VALID then sleep (BUFCH b) IDELOCK s else unlock IDELOCK s)"

definition ide_iderw :: "nat \<Rightarrow> 'z idest_scheme \<Rightarrow> ('z idest_scheme, unit) outcome" where
  "ide_iderw b s =
     bind (holdingsleep (BUFLK b) (b_lock (bufs s ! b)) s) (\<lambda>h s.
     let q = bufs s ! b in
     if \<not> h then Panic ''iderw: buf not locked''
     else if b_flags q AND (B_VALID OR B_DIRTY) = B_VALID then Panic ''iderw: nothing to do''
     else if b_dev q \<noteq> 0 \<and> \<not> havedisk1 s then Panic ''iderw: ide disk 1 not present''
     else bind (lock IDELOCK s) (\<lambda>_ s.
       let s = s\<lparr>idequeue := idequeue s @ [b]\<rparr> in
       bind (if hd (idequeue s) = b then idestart b s else Done () s) (\<lambda>_ s.
       ide_wait b s)))"

section \<open>The requests the controller sees\<close>

text \<open>
  The protocol of the controller's ports: four registers for the sector number and the drive, the
  command 0x20 to read a sector, and the command 0x30 and then the data to write one.
\<close>

datatype diskreq = ReadReq bool nat | WriteReq bool nat bytes

record ata =
  r_lo :: u8
  r_mid :: u8
  r_hi :: u8
  r_drive :: u8
  r_cmd :: u8
  issued :: "diskreq list"

definition sector_of :: "ata \<Rightarrow> nat" where
  "sector_of a = unat (r_lo a) + 2 ^ 8 * unat (r_mid a) + 2 ^ 16 * unat (r_hi a) + 2 ^ 24 * (unat (r_drive a) mod 16)"

fun ata_step :: "portop \<Rightarrow> ata \<Rightarrow> ata" where
  "ata_step (OUTB p v) a =
     (if p = 0x1f3 then a\<lparr>r_lo := v\<rparr> else if p = 0x1f4 then a\<lparr>r_mid := v\<rparr>
      else if p = 0x1f5 then a\<lparr>r_hi := v\<rparr> else if p = 0x1f6 then a\<lparr>r_drive := v\<rparr>
      else if p = 0x1f7 then a\<lparr>r_cmd := v, issued := issued a @ (if v = 0x20 then [ReadReq (bit (r_drive a) 4) (sector_of a)] else [])\<rparr>
      else a)"
| "ata_step (OUTSL p d) a = (if r_cmd a = 0x30 then a\<lparr>issued := issued a @ [WriteReq (bit (r_drive a) 4) (sector_of a) d]\<rparr> else a)"

definition ata_init :: ata where
  "ata_init = \<lparr>r_lo = 0, r_mid = 0, r_hi = 0, r_drive = 0, r_cmd = 0, issued = []\<rparr>"

definition commands :: "portop list \<Rightarrow> diskreq list" where
  "commands ps = issued (fold ata_step ps ata_init)"

definition request_of :: "buf \<Rightarrow> diskreq" where
  "request_of q = (if is_dirty q then WriteReq (bit (b_dev q) 0) (unat (b_blockno q)) (b_data q)
     else ReadReq (bit (b_dev q) 0) (unat (b_blockno q)))"

lemma u8_low: "unat (ucast (x AND 0xff :: u32) :: u8) = unat x mod 256"
proof -
  have "(0xff :: u32) = mask 8" by (simp add: mask_eq_exp_minus_1)
  then have "x AND 0xff = take_bit 8 x" by (simp add: take_bit_eq_mask)
  then show ?thesis by (simp add: unsigned_ucast_eq take_bit_eq_mod unat_mod)
qed

lemma sector_registers:
  assumes "(n :: u32) < 20000"
  shows "unat (ucast (n AND 0xff) :: u8) + 2 ^ 8 * unat (ucast (drop_bit 8 n AND 0xff) :: u8) + 2 ^ 16 * unat (ucast (drop_bit 16 n AND 0xff) :: u8) = unat n"
    and "drop_bit 24 n = 0"
proof -
  have n: "unat n < 20000" using assms by (simp add: word_less_nat_alt)
  have "unat (drop_bit 8 n) = unat n div 256" "unat (drop_bit 16 n) = unat n div 65536" "unat (drop_bit 24 n) = unat n div 2 ^ 24"
    by (simp_all add: drop_bit_eq_div unat_div)
  then show "drop_bit 24 n = 0"
    and "unat (ucast (n AND 0xff) :: u8) + 2 ^ 8 * unat (ucast (drop_bit 8 n AND 0xff) :: u8) + 2 ^ 16 * unat (ucast (drop_bit 16 n AND 0xff) :: u8) = unat n"
    using n by (simp_all add: u8_low unat_eq_zero)
qed

lemma drive_register:
  "unat (ucast (0xe0 OR push_bit 4 (d AND 1) :: u32) :: u8) mod 16 = 0" "bit (ucast (0xe0 OR push_bit 4 (d AND 1) :: u32) :: u8) 4 = bit d 0"
proof -
  have "d AND 1 = of_bool (bit d 0)" by (simp add: and_one_eq bit_0 mod2_eq_if)
  then show "unat (ucast (0xe0 OR push_bit 4 (d AND 1) :: u32) :: u8) mod 16 = 0"
    "bit (ucast (0xe0 OR push_bit 4 (d AND 1) :: u32) :: u8) 4 = bit d 0"
    by (cases "bit d 0"; simp)+
qed

lemma idewait_Done: "idewait ce s = Done r t \<Longrightarrow> \<exists>rs. t = s\<lparr>status := rs\<rparr>"
  by (auto simp: idewait_def split: option.splits)

lemma idestart_Done:
  assumes "idestart b s = Done u t"
  shows "bufs t = bufs s" and "idequeue t = idequeue s" and "commands (ports t) = commands (ports s) @ [request_of (bufs s ! b)]"
proof -
  let ?q = "bufs s ! b"
  have n: "b_blockno ?q < 20000" using assms by (auto simp: idestart_def Let_def split: if_splits)
  obtain r s1 where "idewait False s = Done r s1" using assms by (auto simp: idestart_def Let_def bind_Done_iff split: if_splits)
  then obtain rs where w: "idewait False s = Done r (s\<lparr>status := rs\<rparr>)" using idewait_Done by blast
  show "bufs t = bufs s" and "idequeue t = idequeue s" and "commands (ports t) = commands (ports s) @ [request_of ?q]"
    using assms n w
    by (auto simp: idestart_def Let_def outb_def outsl_def commands_def request_of_def sector_of_def is_dirty_def flag_bits
        sector_registers(1) [OF n, simplified] sector_registers(2) [OF n] drive_register [simplified] split: if_splits)
qed

lemma holdingsleep_state: "holdingsleep L lk s = Done h t \<Longrightarrow> t = s" "holdingsleep L lk s \<noteq> Swtch u"
  by (auto simp: holdingsleep_def mypid_def bind_Done_iff bind_Swtch_iff lock_Done_iff unlock_Done_iff lock_def unlock_def split: if_splits option.splits)

lemma sleep_ide: "sleep ch lk s = Swtch t \<Longrightarrow> bufs t = bufs s \<and> idequeue t = idequeue s \<and> ports t = ports s"
  by (auto simp: sleep_def sched_def set_proc_def lock_def unlock_def Let_def sleep_wake_def split: option.splits if_splits)

lemma sleep_leaves: "sleep ch lk s \<noteq> Done u t"
  by (auto simp: sleep_def sched_def bind_Done_iff Let_def split: option.splits if_splits)

lemma wakeup_ide: "wakeup ch s = Done u t \<Longrightarrow> bufs t = bufs s \<and> idequeue t = idequeue s \<and> ports t = ports s"
  by (auto simp: wakeup_def wakeup1_def bind_Done_iff lock_Done_iff unlock_Done_iff)

lemma idestart_stays: "idestart b s \<noteq> Swtch t"
  by (auto simp: idestart_def idewait_def Let_def bind_Swtch_iff split: option.splits)

text \<open>Nothing that the driver relies on changes: the queue, the ports, and the buffers in the queue, which are locked.\<close>

definition ide_same :: "'z idest_scheme \<Rightarrow> 'z idest_scheme \<Rightarrow> bool" where
  "ide_same s t \<longleftrightarrow> idequeue t = idequeue s \<and> ports t = ports s \<and> (\<forall>b\<in>set (idequeue s). request_of (bufs t ! b) = request_of (bufs s ! b))"

lemma ide_wait_same: "ide_wait b s = Swtch t \<Longrightarrow> bufs t = bufs s \<and> ide_same s t" "ide_wait b s = Done u t \<Longrightarrow> bufs t = bufs s \<and> ide_same s t"
  by (auto simp: ide_wait_def ide_same_def unlock_Done_iff unlock_def sleep_leaves split: if_splits dest: sleep_ide)

text \<open>What the controller has been told to do, and then what waits for it.\<close>

definition requests :: "'z idest_scheme \<Rightarrow> diskreq list" where
  "requests s = commands (ports s) @ map (\<lambda>b. request_of (bufs s ! b)) (tl (idequeue s))"

lemma requests_same: "ide_same s t \<Longrightarrow> requests t = requests s"
  by (cases "idequeue s") (auto simp: ide_same_def requests_def)

lemma iderw_queues:
  assumes "ide_iderw b s = Swtch t" and "b \<notin> set (idequeue s)"
  shows "idequeue t = idequeue s @ [b]" and "requests t = requests s @ [request_of (bufs s ! b)]"
proof -
  let ?s = "s\<lparr>held := IDELOCK # held s, idequeue := idequeue s @ [b]\<rparr>"
  obtain u v where u: "(if hd (idequeue s @ [b]) = b then idestart b ?s else Done () ?s) = Done v u" and w: "ide_wait b u = Swtch t"
    using assms(1) by (auto simp: ide_iderw_def Let_def bind_Swtch_iff lock_Done_iff lock_def holdingsleep_state(2) idestart_stays
        dest!: holdingsleep_state(1) split: if_splits)
  note same = ide_wait_same(1) [OF w]
  have "idequeue u = idequeue s @ [b] \<and> bufs u = bufs s \<and> requests u = requests s @ [request_of (bufs s ! b)]"
  proof (cases "idequeue s")
    case Nil
    then have "idestart b ?s = Done v u" using u by simp
    from idestart_Done [OF this] show ?thesis using Nil by (simp add: requests_def)
  next
    case (Cons c l)
    then have "u = ?s" using u assms(2) by simp
    then show ?thesis using Cons by (simp add: requests_def)
  qed
  then show "idequeue t = idequeue s @ [b]" and "requests t = requests s @ [request_of (bufs s ! b)]"
    using same requests_same [of u t] by (auto simp: ide_same_def)
qed

lemma ide_read_Done:
  assumes "(if b_flags (bufs s ! b) AND B_DIRTY = 0 then bind (idewait True s) (\<lambda>r s. if r \<ge> 0 then insl b s else Done () s) else Done () s) = Done u t"
  shows "idequeue t = idequeue s \<and> ports t = ports s \<and> (\<exists>q. bufs t = (bufs s)[b := q])"
  using assms by (auto simp: bind_Done_iff insl_def set_buf_def split: if_splits list.splits dest!: idewait_Done) (metis list_update_id)+

lemma ideintr_Done:
  assumes "ideintr s = Done u t" and "idequeue s = b # rest"
  shows "idequeue t = rest" and "\<exists>f. bufs t = (bufs s)[b := f] \<and> (b < length (bufs s) \<longrightarrow> is_valid f \<and> \<not> is_dirty f)"
    and "commands (ports t) = commands (ports s) @ (case rest of [] \<Rightarrow> [] | c # _ \<Rightarrow> [request_of (bufs t ! c)])"
proof -
  let ?s = "s\<lparr>held := IDELOCK # held s, idequeue := rest\<rparr>"
  let ?mark = "\<lambda>s. set_buf b (\<lambda>q. q\<lparr>b_flags := b_flags q AND NOT B_DIRTY\<rparr>) (set_buf b (\<lambda>q. q\<lparr>b_flags := b_flags q OR B_VALID\<rparr>) s)"
  obtain v s1 w s2 x s3 where
    s1: "(if b_flags (bufs ?s ! b) AND B_DIRTY = 0 then bind (idewait True ?s) (\<lambda>r s. if r \<ge> 0 then insl b s else Done () s) else Done () ?s) = Done v s1"
    and s2: "wakeup (BUFCH b) (?mark s1) = Done w s2"
    and s3: "(case idequeue s2 of [] \<Rightarrow> Done () s2 | c # _ \<Rightarrow> idestart c s2) = Done x s3"
    and t: "unlock IDELOCK s3 = Done u t"
    using assms(1) unfolding ideintr_def bind_Done_iff lock_Done_iff Let_def by (auto simp: assms(2) bind_Done_iff)
  obtain q where q: "idequeue s1 = rest" "ports s1 = ports s" "bufs s1 = (bufs s)[b := q]" using ide_read_Done [OF s1] by auto
  have w2: "idequeue s2 = rest" "ports s2 = ports s" "bufs s2 = bufs (?mark s1)" using wakeup_ide [OF s2] q by (auto simp: set_buf_def)
  have t3: "idequeue t = idequeue s3" "ports t = ports s3" "bufs t = bufs s3" using t by (auto simp: unlock_Done_iff)
  have s3': "idequeue s3 = rest \<and> bufs s3 = bufs s2 \<and> commands (ports s3) = commands (ports s) @ (case rest of [] \<Rightarrow> [] | c # _ \<Rightarrow> [request_of (bufs s3 ! c)])"
  proof (cases rest)
    case (Cons c l)
    then have "idestart c s2 = Done x s3" using s3 w2 by simp
    from idestart_Done [OF this] show ?thesis using w2 Cons by simp
  qed (use s3 w2 in simp)
  then show "idequeue t = rest" and "commands (ports t) = commands (ports s) @ (case rest of [] \<Rightarrow> [] | c # _ \<Rightarrow> [request_of (bufs t ! c)])"
    unfolding t3 by simp_all
  have "bufs t = (bufs s)[b := (bufs s1 ! b)\<lparr>b_flags := (b_flags (bufs s1 ! b) OR 2) AND NOT 4\<rparr>]" if "b < length (bufs s)"
    using s3' t3 w2 q that by (simp add: set_buf_def)
  moreover have "bufs t = bufs s" if "length (bufs s) \<le> b" using s3' t3 w2 q that by (simp add: set_buf_def list_update_beyond)
  ultimately show "\<exists>f. bufs t = (bufs s)[b := f] \<and> (b < length (bufs s) \<longrightarrow> is_valid f \<and> \<not> is_dirty f)"
    by (cases "b < length (bufs s)") (auto simp: is_valid_def is_dirty_def not_less list_update_beyond intro!: exI [of _ "(bufs s1 ! b)\<lparr>b_flags := (b_flags (bufs s1 ! b) OR 2) AND NOT 4\<rparr>"])
qed

lemma ideintr_advances:
  assumes "ideintr s = Done u t" and "distinct (idequeue s)"
  shows "idequeue t = tl (idequeue s)" and "requests t = requests s"
proof -
  have "idequeue t = tl (idequeue s) \<and> requests t = requests s"
  proof (cases "idequeue s")
    case Nil
    then have "idequeue t = [] \<and> ports t = ports s" using assms(1) by (auto simp: ideintr_def bind_Done_iff lock_Done_iff unlock_Done_iff)
    then show ?thesis using Nil by (simp add: requests_def)
  next
    case (Cons b rest)
    note d = ideintr_Done [OF assms(1) Cons]
    obtain f where "bufs t = (bufs s)[b := f]" using d(2) by blast
    then have "request_of (bufs t ! c) = request_of (bufs s ! c)" if "c \<in> set rest" for c
      using that assms(2) Cons by (metis distinct.simps(2) nth_list_update_neq)
    then show ?thesis using d(1,3) Cons by (cases rest) (simp_all add: requests_def)
  qed
  then show "idequeue t = tl (idequeue s)" and "requests t = requests s" by simp_all
qed

section \<open>Requests are carried out in order\<close>

text \<open>
  The driver between its calls: a process asks for a block that is not being read or written already and goes to
  sleep; the controller interrupts; a process that waited runs again; anything else happens that leaves the driver's data alone.
  The list has the requests that were made.
\<close>

inductive ide_run :: "'z idest_scheme \<Rightarrow> diskreq list \<Rightarrow> 'z idest_scheme \<Rightarrow> bool" for s where
  start: "ide_run s [] s"
| request: "ide_run s rs t \<Longrightarrow> b \<notin> set (idequeue t) \<Longrightarrow> ide_iderw b t = Swtch u \<Longrightarrow> ide_run s (rs @ [request_of (bufs t ! b)]) u"
| interrupt: "ide_run s rs t \<Longrightarrow> ideintr t = Done () u \<Longrightarrow> ide_run s rs u"
| resume: "ide_run s rs t \<Longrightarrow> ide_wait b t = Swtch u \<or> ide_wait b t = Done () u \<Longrightarrow> ide_run s rs u"
| other: "ide_run s rs t \<Longrightarrow> ide_same t u \<Longrightarrow> ide_run s rs u"

lemma ide_run_queue:
  assumes "ide_run s rs t" and "idequeue s = []"
  shows "distinct (idequeue t) \<and> requests t = requests s @ rs"
  using assms
proof induction
  case (request rs t b u)
  then show ?case using iderw_queues [OF request(3,2)] by simp
next
  case (interrupt rs t u)
  then show ?case using ideintr_advances [OF interrupt(2)] by (simp add: distinct_tl)
next
  case (resume rs t b u)
  then have same: "ide_same t u" using ide_wait_same [of b t] by blast
  then show ?case using resume requests_same [OF same] by (simp add: ide_same_def)
next
  case (other rs t u)
  then show ?case using requests_same [OF other(2)] by (simp add: ide_same_def)
qed simp

text \<open>
  (C19) However requests and interrupts interleave, the commands the controller gets, followed by the requests that
  still wait behind the first in the queue, are the requests that were made, each once and in their order: no request is lost,
  repeated or overtaken. When the queue is empty, every request has been issued.
\<close>

theorem ide_fifo:
  assumes "ide_run s rs t" and "idequeue s = []"
  shows "commands (ports t) @ map (\<lambda>b. request_of (bufs t ! b)) (tl (idequeue t)) = commands (ports s) @ rs"
  using ide_run_queue [OF assms] assms(2) by (simp add: requests_def)

definition ide_demo :: idest where
  "ide_demo = \<lparr>held = [], clog = [], mem = (\<lambda>_. 0), kend = 0x80115000, use_lock = True, freelist = 0,
     kpgdir = 0x80100000, cr3 = 0x100000, kdata = 0x80108000, gdt = [],
     ts = \<lparr>ts_esp0 = 0, ts_ss0 = 0, ts_iomb = 0\<rparr>, tsaddr = 0x80112000, tr = 0,
     ptable = proc_run 1 1 RUNNING # replicate 63 proc_zero, nextpid = 2, initproc = None,
     curproc = Some 0, forkret = 0x80103000, trapret = 0x80106000,
     cons_locking = True, panicked = False, cgapos = 0, uart = False, uart_out = [],
     input_buf = replicate 128 0, input_r = 0, input_w = 0, input_e = 0, devsw_console = True,
     bufs = replicate 30 (buf_zero\<lparr>b_dev := 1, b_blockno := 7, b_lock := \<lparr>sl_locked = True, sl_pid = 1\<rparr>\<rparr>),
     lru = rev [0..<30], disk = [], dwrites = [],
     idequeue = [], havedisk1 = True, ports = [], status = [0x80, 0x40], input = []\<rparr>"

theorem ide_fifo_witness:
  "\<exists>t. ide_iderw 3 ide_demo = Swtch t \<and> idequeue t = [3] \<and> commands (ports t) = [ReadReq True 7]"
proof -
  obtain t where t: "ide_iderw 3 ide_demo = Swtch t"
    by (simp add: ide_demo_def ide_iderw_def holdingsleep_def mypid_def lock_def unlock_def Let_def idestart_def idewait_def
        outb_def outsl_def ide_wait_def sleep_eq proc_run_def proc_zero_def buf_zero_def)
  have d: "idequeue ide_demo = []" "ports ide_demo = []" "request_of (bufs ide_demo ! 3) = ReadReq True 7"
    by (simp_all add: ide_demo_def request_of_def is_dirty_def buf_zero_def)
  have "ide_run ide_demo ([] @ [ReadReq True 7]) t" using ide_run.request [OF ide_run.start _ t] d by simp
  moreover have "idequeue t = [3]" using iderw_queues(1) [OF t] d by simp
  ultimately show ?thesis using ide_fifo [of ide_demo "[ReadReq True 7]" t] t d by (simp add: commands_def ata_init_def)
qed

end
