(* ===== verification/Umalloc.thy ===== *)
theory Umalloc
  imports CMem
begin

text \<open>
  The allocator of the user library, \<^verbatim>\<open>umalloc.c\<close>, on the bytes of a process. A header is two words, the
  address of the next free block and the size of this one in units of 8 bytes. \<open>basep\<close> is the address of the
  variable \<^verbatim>\<open>base\<close>. \<^verbatim>\<open>sbrk\<close> is a system call: \<open>cores\<close> are the addresses it will return, and it fails
  when there are none left; \<open>asked\<close> are the arguments it got.

  The loops of \<^verbatim>\<open>free\<close> and \<^verbatim>\<open>malloc\<close> follow the circular list without a bound. Their results are
  options, \<open>None\<close> when they do not end; \<open>Umalloc_Heap\<close> shows that on a well-formed heap they do.
\<close>

section \<open>umalloc.c\<close>

record heapst =
  umem :: mem
  basep :: u32
  freep :: u32
  cores :: "u32 list"
  asked :: "u32 list"

definition hptr :: "mem \<Rightarrow> u32 \<Rightarrow> u32" where
  "hptr m p = load32 m p"

definition hsize :: "mem \<Rightarrow> u32 \<Rightarrow> u32" where
  "hsize m p = load32 m (p + 4)"

definition set_hptr :: "mem \<Rightarrow> u32 \<Rightarrow> u32 \<Rightarrow> mem" where
  "set_hptr m p v = store32 m p v"

definition set_hsize :: "mem \<Rightarrow> u32 \<Rightarrow> u32 \<Rightarrow> mem" where
  "set_hsize m p v = store32 m (p + 4) v"

definition free_here :: "mem \<Rightarrow> u32 \<Rightarrow> u32 \<Rightarrow> bool" where
  "free_here m bp p \<longleftrightarrow> bp > p \<and> bp < hptr m p \<or> p \<ge> hptr m p \<and> (bp > p \<or> bp < hptr m p)"

partial_function (option) free_find :: "mem \<Rightarrow> u32 \<Rightarrow> u32 \<Rightarrow> u32 option" where
  "free_find m bp p = (if free_here m bp p then Some p else free_find m bp (hptr m p))"

definition free_upper :: "mem \<Rightarrow> u32 \<Rightarrow> u32 \<Rightarrow> mem" where
  "free_upper m bp p =
     (if bp + 8 * hsize m bp = hptr m p then
        let m = set_hsize m bp (hsize m bp + hsize m (hptr m p)) in set_hptr m bp (hptr m (hptr m p))
      else set_hptr m bp (hptr m p))"

definition free_lower :: "mem \<Rightarrow> u32 \<Rightarrow> u32 \<Rightarrow> mem" where
  "free_lower m bp p =
     (if p + 8 * hsize m p = bp then
        let m = set_hsize m p (hsize m p + hsize m bp) in set_hptr m p (hptr m bp)
      else set_hptr m p bp)"

definition free :: "u32 \<Rightarrow> heapst \<Rightarrow> heapst option" where
  "free ap s =
     (let bp = ap - 8 in
      case free_find (umem s) bp (freep s) of
        None \<Rightarrow> None
      | Some p \<Rightarrow> Some (s\<lparr>umem := free_lower (free_upper (umem s) bp p) bp p, freep := p\<rparr>))"

definition sbrk :: "u32 \<Rightarrow> heapst \<Rightarrow> u32 \<times> heapst" where
  "sbrk n s =
     (case cores s of
        [] \<Rightarrow> (- 1, s\<lparr>asked := asked s @ [n]\<rparr>)
      | c # cs \<Rightarrow> (c, s\<lparr>cores := cs, asked := asked s @ [n]\<rparr>))"

definition morecore :: "u32 \<Rightarrow> heapst \<Rightarrow> (u32 \<times> heapst) option" where
  "morecore nu s =
     (let nu = (if nu < 4096 then 4096 else nu);
          (p, s) = sbrk (nu * 8) s
      in if p = - 1 then Some (0, s)
         else map_option (\<lambda>s. (freep s, s)) (free (p + 8) (s\<lparr>umem := set_hsize (umem s) p nu\<rparr>)))"

definition take_block :: "u32 \<Rightarrow> u32 \<Rightarrow> u32 \<Rightarrow> heapst \<Rightarrow> u32 \<times> heapst" where
  "take_block nunits prevp p s =
     (let m = umem s in
      if hsize m p = nunits then (p + 8, s\<lparr>umem := set_hptr m prevp (hptr m p), freep := prevp\<rparr>)
      else let m = set_hsize m p (hsize m p - nunits);
               p = p + 8 * hsize m p
           in (p + 8, s\<lparr>umem := set_hsize m p nunits, freep := prevp\<rparr>))"

partial_function (option) malloc_loop :: "u32 \<Rightarrow> u32 \<Rightarrow> u32 \<Rightarrow> heapst \<Rightarrow> (u32 \<times> heapst) option" where
  "malloc_loop nunits prevp p s =
     (if hsize (umem s) p \<ge> nunits then Some (take_block nunits prevp p s)
      else if p = freep s then
        Option.bind (morecore nunits s) (\<lambda>(p, s). if p = 0 then Some (0, s) else malloc_loop nunits p (hptr (umem s) p) s)
      else malloc_loop nunits p (hptr (umem s) p) s)"

definition units :: "u32 \<Rightarrow> u32" where
  "units nbytes = (nbytes + 8 - 1) div 8 + 1"

definition heap_start :: "heapst \<Rightarrow> heapst" where
  "heap_start s =
     (if freep s = 0 then s\<lparr>freep := basep s, umem := set_hsize (set_hptr (umem s) (basep s) (basep s)) (basep s) 0\<rparr> else s)"

definition malloc :: "u32 \<Rightarrow> heapst \<Rightarrow> (u32 \<times> heapst) option" where
  "malloc nbytes s =
     (let nunits = units nbytes;
          s = heap_start s
      in malloc_loop nunits (freep s) (hptr (umem s) (freep s)) s)"

end
