(* ===== verification/Umalloc_Heap.thy ===== *)
theory Umalloc_Heap
  imports Umalloc
begin

text \<open>
  The heap of the user library. The free list is a circular list in ascending order of addresses that starts at the base; its
  abstraction is the list of the free blocks. \<open>heap_ok\<close> is the invariant, \<open>space\<close> the bytes of a list of blocks.
  \<^verbatim>\<open>malloc\<close> and \<^verbatim>\<open>free\<close> move blocks between the free and the allocated memory and touch nothing else.
\<close>

section \<open>Headers\<close>

definition apart8 :: "u32 \<Rightarrow> u32 \<Rightarrow> bool" where
  "apart8 a b \<longleftrightarrow> unat a + 8 \<le> unat b \<and> unat b + 8 \<le> 2 ^ 32 \<or> unat b + 8 \<le> unat a \<and> unat a + 8 \<le> 2 ^ 32"

lemma apart8_sym: "apart8 a b \<longleftrightarrow> apart8 b a"
  by (auto simp: apart8_def)

lemma apart4_le: "unat a + 4 \<le> unat b \<Longrightarrow> unat b + 4 \<le> 2 ^ 32 \<Longrightarrow> apart4 a b \<and> apart4 b a"
proof -
  assume b: "unat a + 4 \<le> unat b" "unat b + 4 \<le> 2 ^ 32"
  have "unat (b - a) = unat b - unat a" using b by (simp add: unat_sub_if')
  moreover have "unat (a - b) = 2 ^ 32 - (unat b - unat a)" using b by (simp add: unat_sub_if')
  ultimately show ?thesis using b by (simp add: apart4_def word_le_nat_alt) arith
qed

lemma apart4_self: "apart4 a (a + 4)" "apart4 (a + 4) a"
  by (simp_all add: apart4_def word_le_nat_alt)

lemma apart8_words:
  assumes "apart8 a b"
  shows "apart4 a b" "apart4 (a + 4) b" "apart4 a (b + 4)" "apart4 (a + 4) (b + 4)"
proof -
  have "apart4 a b \<and> apart4 (a + 4) b \<and> apart4 a (b + 4) \<and> apart4 (a + 4) (b + 4)"
  proof -
    consider "unat a + 8 \<le> unat b" "unat b + 8 \<le> 2 ^ 32" | "unat b + 8 \<le> unat a" "unat a + 8 \<le> 2 ^ 32" using assms by (auto simp: apart8_def)
    then show ?thesis
    proof cases
      case 1
      have "unat (a + 4) = unat a + 4" "unat (b + 4) = unat b + 4" using 1 by (simp_all add: unat_add_small)
      then show ?thesis using 1 apart4_le by simp
    next
      case 2
      have "unat (a + 4) = unat a + 4" "unat (b + 4) = unat b + 4" using 2 by (simp_all add: unat_add_small)
      then show ?thesis using 2 apart4_le by simp
    qed
  qed
  then show "apart4 a b" "apart4 (a + 4) b" "apart4 a (b + 4)" "apart4 (a + 4) (b + 4)" by simp_all
qed

lemma header_same [simp]:
  "hptr (set_hptr m a v) a = v" "hsize (set_hsize m a v) a = v" "hptr (set_hsize m a v) a = hptr m a" "hsize (set_hptr m a v) a = hsize m a"
  by (simp_all add: hptr_def hsize_def set_hptr_def set_hsize_def load32_store32_apart apart4_self)

lemma header_apart [simp]:
  "apart8 a b \<Longrightarrow> hptr (set_hptr m a v) b = hptr m b" "apart8 a b \<Longrightarrow> hptr (set_hsize m a v) b = hptr m b"
  "apart8 a b \<Longrightarrow> hsize (set_hptr m a v) b = hsize m b" "apart8 a b \<Longrightarrow> hsize (set_hsize m a v) b = hsize m b"
  by (simp_all add: hptr_def hsize_def set_hptr_def set_hsize_def load32_store32_apart apart8_words)

lemma set_header_other:
  assumes "unat x < unat a \<or> unat a + 8 \<le> unat x" and "unat a + 8 \<le> 2 ^ 32"
  shows "set_hptr m a v x = m x" and "set_hsize m a v x = m x"
proof -
  have "unat (a + 4) = unat a + 4" using assms(2) by (simp add: unat_add_small)
  then have "\<not> unat (x - a) < 4" "\<not> unat (x - (a + 4)) < 4" using assms by (auto simp: unat_sub_if')
  then show "set_hptr m a v x = m x" and "set_hsize m a v x = m x"
    by (simp_all add: set_hptr_def set_hsize_def store32_apply)
qed

section \<open>The free list\<close>

text \<open>
  A block is its address and its size in units. \<open>links\<close>: the headers of the blocks of a list are linked, the last one to
  \<open>e\<close>. \<open>spaced\<close>: the blocks lie one behind the other from \<open>l\<close> on, in the lower half of the address space, where user memory is.
\<close>

type_synonym block = "u32 \<times> nat"

fun head_of :: "block list \<Rightarrow> u32 \<Rightarrow> u32" where
  "head_of [] e = e"
| "head_of (b # bs) e = fst b"

fun links :: "mem \<Rightarrow> block list \<Rightarrow> u32 \<Rightarrow> bool" where
  "links m [] e \<longleftrightarrow> True"
| "links m (b # bs) e \<longleftrightarrow> hsize m (fst b) = of_nat (snd b) \<and> hptr m (fst b) = head_of bs e \<and> links m bs e"

fun spaced :: "nat \<Rightarrow> block list \<Rightarrow> bool" where
  "spaced l [] \<longleftrightarrow> l \<le> 2 ^ 31"
| "spaced l (b # bs) \<longleftrightarrow> l \<le> unat (fst b) \<and> 1 \<le> snd b \<and> spaced (unat (fst b) + 8 * snd b) bs"

definition span :: "block \<Rightarrow> nat set" where
  "span b = {unat (fst b)..<unat (fst b) + 8 * snd b}"

definition space :: "block list \<Rightarrow> nat set" where
  "space bs = \<Union> (span ` set bs)"

definition heap_ok :: "heapst \<Rightarrow> block list \<Rightarrow> bool" where
  "heap_ok s fs \<longleftrightarrow> 0 < unat (basep s) \<and> spaced (unat (basep s) + 8) fs \<and>
     links (umem s) ((basep s, 0) # fs) (basep s) \<and> freep s \<in> fst ` set ((basep s, 0) # fs)"

lemma space_simps [simp]: "space [] = {}" "space (b # bs) = span b \<union> space bs" "space (xs @ ys) = space xs \<union> space ys"
  by (auto simp: space_def)

lemma head_of_append [simp]: "head_of (xs @ ys) e = head_of xs (head_of ys e)"
  by (cases xs) auto

lemma links_append [simp]: "links m (xs @ ys) e \<longleftrightarrow> links m xs (head_of ys e) \<and> links m ys e"
  by (induction xs) auto

lemma links_last: "links m bs e \<Longrightarrow> bs \<noteq> [] \<Longrightarrow> hptr m (fst (last bs)) = e \<and> hsize m (fst (last bs)) = of_nat (snd (last bs))"
  by (induction bs) auto

lemma links_cong:
  assumes "\<And>b. b \<in> set bs \<Longrightarrow> hptr m' (fst b) = hptr m (fst b) \<and> hsize m' (fst b) = hsize m (fst b)"
  shows "links m' bs e = links m bs e"
  using assms by (induction bs) auto

lemma links_frame:
  assumes "\<forall>b\<in>set bs. apart8 a (fst b)"
  shows "links (set_hptr m a v) bs e = links m bs e" and "links (set_hsize m a v) bs e = links m bs e"
proof -
  show "links (set_hptr m a v) bs e = links m bs e" using assms by (intro links_cong) simp
  show "links (set_hsize m a v) bs e = links m bs e" using assms by (intro links_cong) simp
qed

lemma spaced_le: "spaced l bs \<Longrightarrow> l \<le> 2 ^ 31"
  by (induction bs arbitrary: l) fastforce+

lemma spaced_mono: "spaced l bs \<Longrightarrow> k \<le> l \<Longrightarrow> spaced k bs"
  by (cases bs) auto

lemma spaced_append: "spaced l (xs @ ys) \<longleftrightarrow> spaced l xs \<and> spaced (if xs = [] then l else unat (fst (last xs)) + 8 * snd (last xs)) ys"
proof (induction xs arbitrary: l)
  case Nil
  then show ?case using spaced_le [of l ys] by auto
next
  case (Cons b xs)
  then show ?case using spaced_le [of _ ys] by (cases xs) auto
qed

lemma spaced_in:
  assumes "spaced l bs" and "b \<in> set bs"
  shows "l \<le> unat (fst b) \<and> 1 \<le> snd b \<and> unat (fst b) + 8 * snd b \<le> 2 ^ 31"
  using assms
proof (induction bs arbitrary: l)
  case (Cons c bs)
  then show ?case using spaced_le [of "unat (fst c) + 8 * snd c" bs] by fastforce
qed simp

lemma spaced_split:
  assumes "spaced l (xs @ b # ys)"
  shows "c \<in> set xs \<Longrightarrow> unat (fst c) + 8 * snd c \<le> unat (fst b)" and "c \<in> set ys \<Longrightarrow> unat (fst b) + 8 * snd b \<le> unat (fst c)"
proof -
  show "c \<in> set ys \<Longrightarrow> unat (fst b) + 8 * snd b \<le> unat (fst c)"
    using assms spaced_in [of "unat (fst b) + 8 * snd b" ys c] by (simp add: spaced_append)
  assume "c \<in> set xs"
  then obtain us vs where "xs = us @ c # vs" by (auto simp: in_set_conv_decomp)
  then show "unat (fst c) + 8 * snd c \<le> unat (fst b)" using assms spaced_in [of "unat (fst c) + 8 * snd c" "vs @ b # ys" b] by (simp add: spaced_append)
qed

text \<open>The base, with size 0, and the free blocks behind it: no two headers overlap, and the addresses ascend.\<close>

lemma ring_apart:
  assumes "spaced (unat base + 8) fs" and "(base, 0) # fs = us @ b # vs" and "c \<in> set us \<union> set vs"
  shows "apart8 (fst b) (fst c)"
proof -
  have in_fs: "unat base + 8 \<le> unat (fst d) \<and> 1 \<le> snd d \<and> unat (fst d) + 8 * snd d \<le> 2 ^ 31" if "d \<in> set fs" for d
    using spaced_in [OF assms(1) that] .
  show ?thesis
  proof (cases us)
    case Nil
    then show ?thesis using assms(2,3) in_fs [of c] by (auto simp: apart8_def)
  next
    case (Cons u us')
    then have fs: "fs = us' @ b # vs" and u: "u = (base, 0)" using assms(2) by auto
    consider "c = u" | "c \<in> set us'" | "c \<in> set vs" using assms(3) Cons by auto
    then show ?thesis
    proof cases
      case 1
      then show ?thesis using in_fs [of b] fs u by (simp add: apart8_def)
    next
      case 2
      then show ?thesis using in_fs [of b] in_fs [of c] fs spaced_split(1) [OF assms(1) [unfolded fs] 2] by (simp add: apart8_def)
    next
      case 3
      then show ?thesis using in_fs [of b] in_fs [of c] fs spaced_split(2) [OF assms(1) [unfolded fs] 3] by (simp add: apart8_def)
    qed
  qed
qed

lemma last_split: "x # xs @ zs = butlast (x # xs) @ last (x # xs) # zs"
  by (metis append.assoc append_Cons append_Nil append_butlast_last_id list.distinct(1))

lemma spaced_ascending: "spaced l bs \<Longrightarrow> Suc i < length bs \<Longrightarrow> unat (fst (bs ! i)) < unat (fst (bs ! Suc i))"
proof (induction bs arbitrary: l i)
  case (Cons b bs)
  then show ?case by (cases i; cases bs) auto
qed simp

lemma ring_ascending:
  assumes "spaced (unat base + 8) fs" and "Suc i < length ((base, 0) # fs)"
  shows "fst (((base, 0) # fs) ! i) < fst (((base, 0) # fs) ! Suc i)"
proof (cases i)
  case 0
  then show ?thesis using spaced_in [OF assms(1), of "fs ! 0"] assms(2) by (auto simp: word_less_nat_alt)
next
  case (Suc j)
  then show ?thesis using spaced_ascending [OF assms(1), of j] assms(2) by (simp add: word_less_nat_alt)
qed

lemma links_nth: "links m bs e \<Longrightarrow> i < length bs \<Longrightarrow> hsize m (fst (bs ! i)) = of_nat (snd (bs ! i)) \<and> hptr m (fst (bs ! i)) = (if Suc i < length bs then fst (bs ! Suc i) else e)"
proof (induction bs arbitrary: i)
  case (Cons b bs)
  then show ?case by (cases i; cases bs) auto
qed simp

text \<open>The addresses of the ring, and the loops that go around it.\<close>

definition on_ring :: "mem \<Rightarrow> u32 list \<Rightarrow> bool" where
  "on_ring m as \<longleftrightarrow> (\<forall>i<length as. hptr m (as ! i) = as ! (Suc i mod length as))"

lemma links_ring:
  assumes "links m bs (fst (bs ! 0))"
  shows "on_ring m (map fst bs)"
  unfolding on_ring_def
proof (intro allI impI)
  fix i assume i: "i < length (map fst bs)"
  have "map fst bs ! 0 = fst (bs ! 0)" using i by (intro nth_map) auto
  then show "hptr m (map fst bs ! i) = map fst bs ! (Suc i mod length (map fst bs))"
    using links_nth [OF assms, of i] i by (cases "Suc i = length bs") auto
qed

lemma free_find_ring:
  assumes "on_ring m as" and "free_here m bp (as ! j)" and "\<And>k. k < length as \<Longrightarrow> free_here m bp (as ! k) \<Longrightarrow> k = j"
    and "i < length as" and "(i + d) mod length as = j"
  shows "free_find m bp (as ! i) = Some (as ! j)"
  using assms(4,5)
proof (induction d arbitrary: i)
  case 0
  then show ?case using assms(2) by (subst free_find.simps) simp
next
  case (Suc d)
  show ?case
  proof (cases "free_here m bp (as ! i)")
    case True
    then show ?thesis using assms(3) [OF Suc.prems(1)] by (subst free_find.simps) simp
  next
    case False
    have l: "Suc i mod length as < length as" using Suc.prems(1) by (intro mod_less_divisor) linarith
    have "(Suc i mod length as + d) mod length as = j" using Suc.prems(2) by (simp add: mod_add_left_eq)
    then have "free_find m bp (as ! (Suc i mod length as)) = Some (as ! j)" by (rule Suc.IH [OF l])
    then show ?thesis using False assms(1) Suc.prems(1) by (subst free_find.simps) (simp add: on_ring_def)
  qed
qed

lemma insert_place:
  assumes "spaced l fs" and "l \<le> unat bp" and "1 \<le> n" and "unat bp + 8 * n \<le> 2 ^ 31" and "span (bp, n) \<inter> space fs = {}"
  shows "\<exists>xs ys. fs = xs @ ys \<and> spaced l (xs @ (bp, n) # ys)"
  using assms
proof (induction fs arbitrary: l)
  case (Cons b fs)
  show ?case
  proof (cases "unat bp < unat (fst b)")
    case True
    have "unat (fst b) \<in> span b" using Cons.prems(1) by (simp add: span_def)
    then have "unat (fst b) \<notin> span (bp, n)" using Cons.prems(5) by auto
    then have "unat bp + 8 * n \<le> unat (fst b)" using True by (simp add: span_def)
    then have "spaced l ([] @ (bp, n) # b # fs)" using Cons.prems by simp
    then show ?thesis by blast
  next
    case False
    have "unat bp \<in> span (bp, n)" using Cons.prems(3) by (simp add: span_def)
    then have "unat bp \<notin> span b" using Cons.prems(5) by auto
    then have "unat (fst b) + 8 * snd b \<le> unat bp" using False by (simp add: span_def)
    then obtain xs ys where "fs = xs @ ys" "spaced (unat (fst b) + 8 * snd b) (xs @ (bp, n) # ys)"
      using Cons.IH [of "unat (fst b) + 8 * snd b"] Cons.prems by auto
    then have "b # fs = (b # xs) @ ys" "spaced l ((b # xs) @ (bp, n) # ys)" using Cons.prems by auto
    then show ?thesis by blast
  qed
qed auto

text \<open>Where \<^verbatim>\<open>free\<close> puts a block: behind the last block below it.\<close>

lemma free_here_place:
  assumes "spaced (unat base + 8) (xs @ (bp, n) # ys)" and "links m ((base, 0) # xs @ ys) base"
  shows "k \<le> length (xs @ ys) \<Longrightarrow> free_here m bp (fst (((base, 0) # xs @ ys) ! k)) \<longleftrightarrow> k = length xs"
proof -
  let ?R = "(base, 0) # xs @ ys"
  assume k: "k \<le> length (xs @ ys)"
  have bp: "base < bp" using spaced_in [OF assms(1), of "(bp, n)"] by (simp add: word_less_nat_alt)
  have below: "fst b < bp" if "b \<in> set ((base, 0) # xs)" for b
    using that bp spaced_split(1) [OF assms(1), of b] spaced_in [OF assms(1), of b] by (auto simp: word_less_nat_alt)
  have above: "bp < fst b" if "b \<in> set ys" for b
    using that spaced_split(2) [OF assms(1), of b] spaced_in [OF assms(1), of "(bp, n)"] by (auto simp: word_less_nat_alt)
  have sp: "spaced (unat base + 8) (xs @ ys)"
    using assms(1) by (auto simp: spaced_append intro: spaced_mono split: if_splits)
  have asc: "fst (?R ! k) < fst (?R ! Suc k)" if "Suc k < length ?R" using ring_ascending [OF sp that] .
  have ptr: "hptr m (fst (?R ! k)) = (if Suc k < length ?R then fst (?R ! Suc k) else base)" using links_nth [OF assms(2), of k] k by simp
  have lo: "fst (?R ! i) < bp" if "i \<le> length xs" for i
    using below [of "?R ! i"] that nth_mem [of i "(base, 0) # xs"] nth_append [of "(base, 0) # xs" ys i] by simp
  have hi: "bp < fst (?R ! i)" if "length xs < i" "i < length ?R" for i
    using above [of "?R ! i"] that nth_mem [of "i - Suc (length xs)" ys] nth_append [of "(base, 0) # xs" ys i] by simp
  show "free_here m bp (fst (?R ! k)) \<longleftrightarrow> k = length xs"
  proof (cases "k \<le> length xs")
    case True
    show ?thesis
    proof (cases "Suc k < length ?R")
      case s: True
      have "bp < fst (?R ! Suc k) \<longleftrightarrow> k = length xs" using lo [of "Suc k"] hi [of "Suc k"] s True by (cases "k = length xs") auto
      then show ?thesis using ptr s asc lo [OF True] by (auto simp: free_here_def)
    next
      case False
      then have "k = length xs" "hptr m (fst (?R ! k)) = base" using True k ptr by auto
      moreover have "base \<le> fst b" if "b \<in> set ?R" for b using that spaced_in [OF sp, of b] by (auto simp: word_le_nat_alt)
      then have "base \<le> fst (?R ! k)" using k nth_mem [of k ?R] by simp
      ultimately show ?thesis using lo [OF True] by (auto simp: free_here_def)
    qed
  next
    case False
    then have h: "bp < fst (?R ! k)" using hi k by simp
    show ?thesis using False h ptr asc bp by (auto simp: free_here_def split: if_splits)
  qed
qed

lemma free_find_place:
  assumes "spaced (unat base + 8) (xs @ (bp, n) # ys)" and "links m ((base, 0) # xs @ ys) base" and "p \<in> fst ` set ((base, 0) # xs @ ys)"
  shows "free_find m bp p = Some (fst (last ((base, 0) # xs)))"
proof -
  let ?R = "(base, 0) # xs @ ys"
  obtain i where i: "i < length ?R" "p = fst (?R ! i)" using assms(3) by (auto simp only: in_set_conv_nth image_iff)
  have ring: "on_ring m (map fst ?R)" using assms(2) by (intro links_ring) simp
  have here: "free_here m bp (map fst ?R ! k) \<longleftrightarrow> k = length xs" if "k < length (map fst ?R)" for k
    using free_here_place [OF assms(1,2), of k] that nth_map [of k ?R fst] by simp
  have "free_find m bp (map fst ?R ! i) = Some (map fst ?R ! length xs)"
  proof (rule free_find_ring [OF ring])
    show "free_here m bp (map fst ?R ! length xs)" using here [of "length xs"] by simp
    show "k = length xs" if "k < length (map fst ?R)" "free_here m bp (map fst ?R ! k)" for k using here that by blast
    show "i < length (map fst ?R)" using i by simp
    show "(i + (length xs + length (map fst ?R) - i)) mod length (map fst ?R) = length xs"
    proof -
      have "i + (length xs + length (map fst ?R) - i) = length xs + length (map fst ?R)" using i(1) by simp
      moreover have "length xs mod length (map fst ?R) = length xs" by (intro mod_less) simp
      ultimately show ?thesis using mod_add_self2 [of "length xs" "length (map fst ?R)"] by (simp only:)
    qed
  qed
  moreover have "?R ! length xs = last ((base, 0) # xs)" by (simp add: last_conv_nth nth_append nth_Cons')
  ultimately show ?thesis using i nth_map [of i ?R fst] nth_map [of "length xs" ?R fst] by simp
qed

section \<open>free\<close>

text \<open>The two memories differ at most in the header at \<open>a\<close>.\<close>

definition header_only :: "u32 \<Rightarrow> mem \<Rightarrow> mem \<Rightarrow> bool" where
  "header_only a m m' \<longleftrightarrow> (\<forall>x. unat x < unat a \<or> unat a + 8 \<le> unat x \<longrightarrow> m' x = m x)"

lemma header_only_set:
  "unat a + 8 \<le> 2 ^ 32 \<Longrightarrow> header_only a m (set_hptr m a v)"
  "unat a + 8 \<le> 2 ^ 32 \<Longrightarrow> header_only a m (set_hptr (set_hsize m a w) a v)"
  by (auto simp: header_only_def set_header_other)

lemma unat_end: "unat a + 8 * n \<le> 2 ^ 31 \<Longrightarrow> unat (a + 8 * of_nat n :: u32) = unat a + 8 * n"
proof -
  assume a: "unat a + 8 * n \<le> 2 ^ 31"
  have "unat (8 * of_nat n :: u32) = 8 * n" using a by (simp add: unat_word_ariths unat_of_nat_u32)
  then show ?thesis using a by (simp add: unat_add_small)
qed

lemma end_eq_iff: "unat (a :: u32) + 8 * n \<le> 2 ^ 31 \<Longrightarrow> a + 8 * of_nat n = b \<longleftrightarrow> unat a + 8 * n = unat b"
  using unat_end [of a n] by (metis unsigned_word_eqI)

lemma free_upper_ok:
  assumes sp: "spaced (unat base + 8) (xs @ (bp, n) # ys)" and l: "links m ((base, 0) # xs @ ys) base"
    and sz: "hsize m bp = of_nat n" and p: "p = fst (last ((base, 0) # xs))"
  shows "\<exists>k zs. spaced (unat base + 8) (xs @ (bp, k) # zs) \<and> links (free_upper m bp p) ((base, 0) # xs) (head_of ys base) \<and>
    links (free_upper m bp p) ((bp, k) # zs) base \<and> n \<le> k \<and> span (bp, k) \<union> space zs = span (bp, n) \<union> space ys \<and>
    header_only bp m (free_upper m bp p)"
proof -
  have ap: "apart8 bp (fst c)" if "c \<in> set ((base, 0) # xs) \<union> set ys" for c
    using ring_apart [OF sp, of "(base, 0) # xs" "(bp, n)" ys] that by simp
  have b: "unat base + 8 \<le> unat bp" "1 \<le> n" "unat bp + 8 * n \<le> 2 ^ 31" using spaced_in [OF sp, of "(bp, n)"] by auto
  have lx: "links m ((base, 0) # xs) (head_of ys base)" and ly: "links m ys base" using l by auto
  have ptr: "hptr m p = head_of ys base" using links_last [OF lx] p by simp
  have nx: "\<forall>b\<in>set ((base, 0) # xs). apart8 bp (fst b)" and ny: "\<forall>b\<in>set ys. apart8 bp (fst b)" using ap by blast+
  have pb: "apart8 bp p" using nx last_in_set [of "(base, 0) # xs"] p by blast
  show ?thesis
  proof (cases "bp + 8 * hsize m bp = hptr m p")
    case True
    then have e: "unat bp + 8 * n = unat (head_of ys base)" using sz ptr end_eq_iff [OF b(3)] by simp
    then obtain q ys' where ys: "ys = q # ys'" using b by (cases ys) auto
    let ?m = "free_upper m bp p"
    have q: "apart8 bp (fst q)" "hsize m (fst q) = of_nat (snd q)" "hptr m (fst q) = head_of ys' base" using ap ly ys by auto
    have m: "?m = set_hptr (set_hsize m bp (of_nat (n + snd q))) bp (head_of ys' base)"
      using True ptr ys q sz pb by (simp add: free_upper_def Let_def)
    have "spaced (unat base + 8) (xs @ (bp, n + snd q) # ys')" using sp ys e by (simp add: spaced_append add.assoc [symmetric])
    moreover have "links ?m ((base, 0) # xs) (head_of ys base)" using lx by (simp only: m links_frame [OF nx])
    moreover have "\<forall>b\<in>set ys'. apart8 bp (fst b)" using ny ys by simp
    then have "links ?m ys' base" using ly ys by (simp add: m links_frame)
    then have "links ?m ((bp, n + snd q) # ys') base" using m by simp
    moreover have "span (bp, n + snd q) \<union> space ys' = span (bp, n) \<union> space ys" using e ys by (auto simp: span_def)
    moreover have "header_only bp m ?m" unfolding m using b by (intro header_only_set) auto
    ultimately show ?thesis by (intro exI [of _ "n + snd q"] exI [of _ ys']) simp
  next
    case False
    let ?m = "free_upper m bp p"
    have m: "?m = set_hptr m bp (head_of ys base)" using False ptr by (simp add: free_upper_def)
    have "links ?m ((base, 0) # xs) (head_of ys base)" "links ?m ys base" using lx ly by (simp_all only: m links_frame [OF nx] links_frame [OF ny])
    moreover have "header_only bp m ?m" unfolding m using b by (intro header_only_set) auto
    ultimately show ?thesis using sp m sz by (intro exI [of _ n] exI [of _ ys]) simp
  qed
qed

lemma free_lower_ok:
  assumes sp: "spaced (unat base + 8) (xs @ (bp, k) # zs)" and lx: "links m ((base, 0) # xs) e"
    and lz: "links m ((bp, k) # zs) base" and p: "p = fst (last ((base, 0) # xs))"
  shows "\<exists>gs. spaced (unat base + 8) gs \<and> links (free_lower m bp p) ((base, 0) # gs) base \<and> p \<in> fst ` set ((base, 0) # gs) \<and>
    space gs = space xs \<union> (span (bp, k) \<union> space zs) \<and> (\<exists>b\<in>set gs. k \<le> snd b) \<and> header_only p m (free_lower m bp p)"
proof -
  let ?m = "free_lower m bp p"
  let ?l = "last ((base, 0) # xs)" and ?u = "butlast ((base, 0) # xs)"
  have u: "(base, 0) # xs = ?u @ [?l]" by simp
  have ap: "\<forall>c\<in>set ?u \<union> set ((bp, k) # zs). apart8 p (fst c)"
    using ring_apart [OF sp last_split] p by blast
  have b: "unat base + 8 \<le> unat bp" "unat bp + 8 * k \<le> 2 ^ 31" using spaced_in [OF sp, of "(bp, k)"] by auto
  have "links m (?u @ [?l]) e" using lx by (simp only: u [symmetric])
  then have "links m ?u (fst ?l)" unfolding links_append by (simp del: butlast.simps last.simps)
  then have lu: "links m ?u p" "hsize m p = of_nat (snd ?l)" using links_last [OF lx] p by (simp_all del: butlast.simps last.simps)
  have p32: "unat p + 8 \<le> 2 ^ 32" using ap b by (auto simp: apart8_def)
  have nu: "\<forall>c\<in>set ?u. apart8 p (fst c)" and nz: "\<forall>c\<in>set ((bp, k) # zs). apart8 p (fst c)" using ap by blast+
  show ?thesis
  proof (cases "p + 8 * hsize m p = bp")
    case False
    then have m: "?m = set_hptr m p bp" by (simp add: free_lower_def)
    have "links ?m ?u p" "links ?m ((bp, k) # zs) base" using lu lz by (simp_all only: m links_frame [OF nu] links_frame [OF nz])
    moreover have "hptr ?m p = bp" "hsize ?m p = of_nat (snd ?l)" using lu m by simp_all
    ultimately have "links ?m (?u @ [?l] @ (bp, k) # zs) base" using p by (simp del: butlast.simps last.simps)
    then have "links ?m ((base, 0) # xs @ (bp, k) # zs) base" by (simp only: append_Cons append_Nil last_split [of "(base, 0)" xs, symmetric])
    moreover have "p \<in> fst ` set ((base, 0) # xs @ (bp, k) # zs)" using p last_in_set [of "(base, 0) # xs"] by auto
    ultimately show ?thesis using sp m header_only_set(1) [OF p32]
      by (intro exI [of _ "xs @ (bp, k) # zs"]) (simp del: links.simps)
  next
    case True
    then have "xs \<noteq> []" using b lu p by auto
    then obtain us q where xs: "xs = us @ [q]" by (metis rev_exhaust)
    then have q: "fst q = p" "?u = (base, 0) # us" using p by auto
    have sz: "hsize m p = of_nat (snd q)" using lu(2) xs by simp
    have e: "unat p + 8 * snd q = unat bp"
      using True sz q(1) end_eq_iff [of p "snd q" bp] spaced_in [OF sp, of q] xs by simp
    have m: "?m = set_hptr (set_hsize m p (of_nat (snd q + k))) p (head_of zs base)"
      using True sz lz nz by (simp add: free_lower_def Let_def)
    let ?g = "us @ (p, snd q + k) # zs"
    have "\<forall>c\<in>set zs. apart8 p (fst c)" using nz by simp
    then have "links ?m zs base" using lz by (simp add: m links_frame)
    moreover have "links ?m ((base, 0) # us) p" using lu(1) nu unfolding q(2) by (simp only: m links_frame)
    ultimately have "links ?m ((base, 0) # ?g) base" using m by simp
    moreover have "spaced (unat base + 8) ?g" using sp xs q e by (simp add: spaced_append add.assoc [symmetric])
    moreover have "space ?g = space xs \<union> (span (bp, k) \<union> space zs)" using xs q e by (auto simp: span_def)
    moreover have "header_only p m ?m" unfolding m using p32 by (intro header_only_set) simp
    ultimately show ?thesis by (intro exI [of _ ?g]) (auto simp del: links.simps)
  qed
qed

text \<open>An allocated block: it lies above the base, is not free, and its header has its size.\<close>

definition block_ok :: "heapst \<Rightarrow> block list \<Rightarrow> block \<Rightarrow> bool" where
  "block_ok s fs b \<longleftrightarrow> unat (basep s) + 8 \<le> unat (fst b) \<and> 1 \<le> snd b \<and> unat (fst b) + 8 * snd b \<le> 2 ^ 31 \<and>
     span b \<inter> space fs = {} \<and> hsize (umem s) (fst b) = of_nat (snd b)"

definition base_header :: "heapst \<Rightarrow> nat set" where
  "base_header s = {unat (basep s)..<unat (basep s) + 8}"

definition same_outside :: "nat set \<Rightarrow> mem \<Rightarrow> mem \<Rightarrow> bool" where
  "same_outside A m m' \<longleftrightarrow> (\<forall>x. unat x \<notin> A \<longrightarrow> m' x = m x)"

lemma same_outside_trans:
  assumes "same_outside A m m1" and "same_outside B m1 m2" and "A \<subseteq> C" and "B \<subseteq> C"
  shows "same_outside C m m2"
  unfolding same_outside_def
proof (intro allI impI)
  fix x :: u32 assume "unat x \<notin> C"
  then have "unat x \<notin> A" "unat x \<notin> B" using assms(3,4) by blast+
  then show "m2 x = m x" using assms(1,2) by (simp add: same_outside_def)
qed

lemma header_only_outside:
  assumes "header_only a m m'" and "{unat a..<unat a + 8} \<subseteq> A"
  shows "same_outside A m m'"
  unfolding same_outside_def
proof (intro allI impI)
  fix x :: u32 assume "unat x \<notin> A"
  then have "unat x \<notin> {unat a..<unat a + 8}" using assms(2) by blast
  then have "unat x < unat a \<or> unat a + 8 \<le> unat x" by auto
  then show "m' x = m x" using assms(1) unfolding header_only_def by blast
qed

lemma ring_header:
  assumes "spaced (unat (basep s) + 8) fs" and "p \<in> fst ` set ((basep s, 0) # fs)"
  shows "{unat p..<unat p + 8} \<subseteq> space fs \<union> base_header s"
proof -
  consider "p = basep s" | b where "b \<in> set fs" "p = fst b" using assms(2) by auto
  then show ?thesis
  proof cases
    case 2
    then have "{unat p..<unat p + 8} \<subseteq> span b" using spaced_in [OF assms(1), of b] by (auto simp: span_def)
    then show ?thesis using 2(1) by (auto simp: space_def)
  qed (auto simp: base_header_def)
qed

lemma free_ok:
  assumes h: "heap_ok s fs" and b: "block_ok s fs (bp, n)"
  shows "\<exists>t gs. free (bp + 8) s = Some t \<and> heap_ok t gs \<and> basep t = basep s \<and> space gs = space fs \<union> span (bp, n) \<and>
    (\<exists>b\<in>set gs. n \<le> snd b) \<and> same_outside (space fs \<union> span (bp, n) \<union> base_header s) (umem s) (umem t)"
proof -
  let ?base = "basep s" and ?m = "umem s"
  have h': "spaced (unat ?base + 8) fs" "links ?m ((?base, 0) # fs) ?base" "freep s \<in> fst ` set ((?base, 0) # fs)" "0 < unat ?base"
    using h by (simp_all only: heap_ok_def)
  have bl: "unat ?base + 8 \<le> unat bp" "1 \<le> n" "unat bp + 8 * n \<le> 2 ^ 31" "span (bp, n) \<inter> space fs = {}" "hsize ?m bp = of_nat n"
    using b by (simp_all add: block_ok_def)
  obtain xs ys where fs: "fs = xs @ ys" and sp: "spaced (unat ?base + 8) (xs @ (bp, n) # ys)" using insert_place [OF h'(1) bl(1-4)] by blast
  define p where "p = fst (last ((?base, 0) # xs))"
  have f: "free_find ?m bp (freep s) = Some p" using free_find_place [OF sp] h'(2,3) fs p_def by simp
  obtain k zs where k: "spaced (unat ?base + 8) (xs @ (bp, k) # zs)" "links (free_upper ?m bp p) ((?base, 0) # xs) (head_of ys ?base)"
    "links (free_upper ?m bp p) ((bp, k) # zs) ?base" "n \<le> k" "span (bp, k) \<union> space zs = span (bp, n) \<union> space ys" "header_only bp ?m (free_upper ?m bp p)"
    using free_upper_ok [OF sp _ bl(5) p_def] h'(2) fs by auto
  let ?m2 = "free_lower (free_upper ?m bp p) bp p"
  obtain gs where g: "spaced (unat ?base + 8) gs" "links ?m2 ((?base, 0) # gs) ?base" "p \<in> fst ` set ((?base, 0) # gs)"
    "space gs = space xs \<union> (span (bp, k) \<union> space zs)" "\<exists>b\<in>set gs. k \<le> snd b" "header_only p (free_upper ?m bp p) ?m2"
    using free_lower_ok [OF k(1-3) p_def] by blast
  have "p \<in> fst ` set ((?base, 0) # fs)" using p_def fs last_in_set [of "(?base, 0) # xs"] by auto
  then have o2: "same_outside (space fs \<union> base_header s) (free_upper ?m bp p) ?m2" by (intro header_only_outside [OF g(6)] ring_header [OF h'(1)])
  have o1: "same_outside (span (bp, n)) ?m (free_upper ?m bp p)" using k(6) bl(2) by (intro header_only_outside) (auto simp: span_def)
  have "same_outside (space fs \<union> span (bp, n) \<union> base_header s) ?m ?m2" by (rule same_outside_trans [OF o1 o2]) auto
  moreover have "free (bp + 8) s = Some (s\<lparr>umem := ?m2, freep := p\<rparr>)" using f by (simp add: free_def)
  moreover have "heap_ok (s\<lparr>umem := ?m2, freep := p\<rparr>) gs" using g h'(4) by (simp add: heap_ok_def del: links.simps)
  moreover have "space gs = space fs \<union> span (bp, n)" using g(4) k(5) fs by auto
  moreover have "\<exists>b\<in>set gs. n \<le> snd b" using g(5) k(4) le_trans by blast
  ultimately show ?thesis by (intro exI [of _ "s\<lparr>umem := ?m2, freep := p\<rparr>"] exI [of _ gs]) (simp del: links.simps)
qed

section \<open>malloc\<close>

lemma spaced_disjoint: "spaced l (xs @ b # ys) \<Longrightarrow> span b \<inter> space (xs @ ys) = {}"
proof -
  assume sp: "spaced l (xs @ b # ys)"
  have "span b \<inter> span c = {}" if "c \<in> set (xs @ ys)" for c
    using that spaced_split [OF sp, of c] by (auto simp: span_def)
  then show ?thesis by (auto simp: space_def)
qed

lemma spaced_remove: "spaced l (xs @ b # ys) \<Longrightarrow> spaced l (xs @ ys)"
  by (auto simp: spaced_append intro: spaced_mono split: if_splits)

lemma unlink_ok:
  assumes sp: "spaced (unat base + 8) (xs @ (p, n) # ys)" and l: "links m ((base, 0) # xs @ (p, n) # ys) base" and prev: "prev = fst (last ((base, 0) # xs))"
  shows "links (set_hptr m prev (hptr m p)) ((base, 0) # xs @ ys) base"
proof -
  let ?l = "last ((base, 0) # xs)" and ?u = "butlast ((base, 0) # xs)"
  let ?m = "set_hptr m prev (hptr m p)"
  have u: "(base, 0) # xs = ?u @ [?l]" by simp
  have lx: "links m ((base, 0) # xs) p" and lp: "hptr m p = head_of ys base" and ly: "links m ys base" using l by auto
  have ap: "\<forall>c\<in>set ?u \<union> set ((p, n) # ys). apart8 prev (fst c)"
    using ring_apart [OF sp last_split] prev by blast
  have "links m (?u @ [?l]) p" using lx by (simp only: u [symmetric])
  then have lu: "links m ?u prev" unfolding links_append prev by (simp del: butlast.simps last.simps)
  have nu: "\<forall>c\<in>set ?u. apart8 prev (fst c)" and ny: "\<forall>c\<in>set ys. apart8 prev (fst c)" using ap by auto
  have "links ?m ?u prev" "links ?m ys base" using lu ly by (simp_all only: links_frame [OF nu] links_frame [OF ny])
  moreover have "hptr ?m prev = head_of ys base" "hsize ?m prev = of_nat (snd ?l)" using links_last [OF lx] lp prev by (simp_all del: last.simps)
  ultimately have "links ?m (?u @ [?l] @ ys) base" using prev by (simp del: butlast.simps last.simps)
  then show ?thesis by (simp only: append_Cons append_Nil last_split [of "(base, 0)" xs, symmetric])
qed

lemma shrink_ok:
  assumes sp: "spaced (unat base + 8) (xs @ (p, k + nu) # ys)" and l: "links m ((base, 0) # xs @ (p, k + nu) # ys) base" and pos: "1 \<le> nu" "1 \<le> k"
    and q: "q = p + 8 * of_nat k" and m': "m' = set_hsize (set_hsize m p (of_nat k)) q (of_nat nu)"
  shows "unat q = unat p + 8 * k" and "spaced (unat base + 8) (xs @ (p, k) # (q, nu) # ys)" and "links m' ((base, 0) # xs @ (p, k) # ys) base"
    and "hsize m' q = of_nat nu" and "same_outside (span (p, k + nu)) m m'"
proof -
  have p: "unat p + 8 * (k + nu) \<le> 2 ^ 31" using spaced_in [OF sp, of "(p, k + nu)"] by auto
  then show uq: "unat q = unat p + 8 * k" using unat_end [of p k] q by simp
  then show sq: "spaced (unat base + 8) (xs @ (p, k) # (q, nu) # ys)" using sp pos by (simp add: spaced_append add.assoc [symmetric])
  have "\<forall>c\<in>set ((base, 0) # xs @ (p, k) # ys). apart8 q (fst c)"
    using ring_apart [OF sq, of "(base, 0) # xs @ [(p, k)]" "(q, nu)" ys] by auto
  then have l': "links m' bs e = links (set_hsize m p (of_nat k)) bs e" if "set bs \<subseteq> set ((base, 0) # xs @ (p, k) # ys)" for bs e
    unfolding m' using that by (intro links_frame) blast
  have "apart8 p (fst c)" if "c \<in> set ((base, 0) # xs) \<union> set ys" for c
    using ring_apart [OF sp, of "(base, 0) # xs" "(p, k + nu)" ys] that by simp
  then have nx: "\<forall>c\<in>set ((base, 0) # xs). apart8 p (fst c)" and ny: "\<forall>c\<in>set ys. apart8 p (fst c)" by blast+
  have "links m ((base, 0) # xs) p" "hptr m p = head_of ys base" "links m ys base" using l by auto
  then have "links (set_hsize m p (of_nat k)) ((base, 0) # xs @ (p, k) # ys) base"
    using links_frame [OF nx, of m "of_nat k" p] links_frame [OF ny, of m "of_nat k" base] by simp
  then show "links m' ((base, 0) # xs @ (p, k) # ys) base" by (subst l') auto
  show "hsize m' q = of_nat nu" by (simp add: m')
  show "same_outside (span (p, k + nu)) m m'" unfolding same_outside_def
  proof (intro allI impI)
    fix x :: u32 assume "unat x \<notin> span (p, k + nu)"
    then have x: "unat x < unat p \<or> unat p + 8 * (k + nu) \<le> unat x" by (auto simp: span_def)
    then have "m' x = set_hsize m p (of_nat k) x" unfolding m' using uq p pos by (intro set_header_other(2)) auto
    also have "\<dots> = m x" using x p pos by (intro set_header_other(2)) auto
    finally show "m' x = m x" .
  qed
qed

text \<open>What a successful allocation of \<open>n\<close> units from the bytes \<open>A\<close> leaves.\<close>

definition allocated :: "nat set \<Rightarrow> nat \<Rightarrow> heapst \<Rightarrow> u32 \<Rightarrow> heapst \<Rightarrow> bool" where
  "allocated A n s r t \<longleftrightarrow> (\<exists>bp gs. r = bp + 8 \<and> heap_ok t gs \<and> block_ok t gs (bp, n) \<and> space gs \<union> span (bp, n) = A \<and>
     same_outside (A \<union> base_header s) (umem s) (umem t))"

lemma of_nat_u32_eq: "n < 4294967296 \<Longrightarrow> k < 4294967296 \<Longrightarrow> (of_nat n :: u32) = of_nat k \<longleftrightarrow> n = k"
  using unat_of_nat_u32 [of n] unat_of_nat_u32 [of k] by metis

lemma take_block_ok:
  assumes h: "heap_ok s (xs @ (p, n) # ys)" and nu: "1 \<le> nu" "nu \<le> n" and prev: "prev = fst (last ((basep s, 0) # xs))"
    and t: "take_block (of_nat nu) prev p s = (r, t)"
  shows "allocated (space (xs @ (p, n) # ys)) nu s r t"
proof -
  let ?base = "basep s" and ?m = "umem s" and ?fs = "xs @ (p, n) # ys"
  have sp: "spaced (unat ?base + 8) ?fs" and l: "links ?m ((?base, 0) # ?fs) ?base" and b0: "0 < unat ?base" using h by (simp_all only: heap_ok_def)
  have p: "unat ?base + 8 \<le> unat p" "unat p + 8 * n \<le> 2 ^ 31" using spaced_in [OF sp, of "(p, n)"] by auto
  have sz: "hsize ?m p = of_nat n" using l by auto
  have eq: "hsize ?m p = of_nat nu \<longleftrightarrow> n = nu" using sz of_nat_u32_eq [of n nu] p nu by simp
  have ap: "apart8 prev p" using ring_apart [OF sp last_split, of "(p, n)"] prev by (simp del: last.simps butlast.simps)
  have p32: "unat prev + 8 \<le> 2 ^ 32" using ap p by (auto simp: apart8_def)
  have pr: "prev \<in> fst ` set ((?base, 0) # xs)" using prev last_in_set [of "(?base, 0) # xs"] by auto
  show ?thesis
  proof (cases "n = nu")
    case True
    then have r: "r = p + 8" "t = s\<lparr>umem := set_hptr ?m prev (hptr ?m p), freep := prev\<rparr>" using t eq by (simp_all add: take_block_def Let_def)
    have "heap_ok t (xs @ ys)" using unlink_ok [OF sp l prev] spaced_remove [OF sp] pr b0 r(2) by (auto simp: heap_ok_def simp del: links.simps)
    moreover have "{unat prev..<unat prev + 8} \<subseteq> space ?fs \<union> base_header s" using pr by (intro ring_header [OF sp]) auto
    then have "same_outside (space ?fs \<union> base_header s) ?m (umem t)" using r(2) header_only_set(1) [OF p32] by (intro header_only_outside [where a = prev]) simp_all
    moreover have "span (p, n) \<inter> space (xs @ ys) = {}" using spaced_disjoint [OF sp] .
    moreover have "hsize (umem t) p = of_nat n" using ap sz r(2) by simp
    ultimately show ?thesis unfolding allocated_def using True p nu r by (intro exI [of _ p] exI [of _ "xs @ ys"]) (auto simp: block_ok_def)
  next
    case False
    define k where "k = n - nu"
    have k: "n = k + nu" "1 \<le> k" using False nu k_def by auto
    let ?q = "p + 8 * of_nat k"
    have "hsize ?m p - of_nat nu = of_nat k" using sz k by simp
    then have r: "r = ?q + 8" "t = s\<lparr>umem := set_hsize (set_hsize ?m p (of_nat k)) ?q (of_nat nu), freep := prev\<rparr>"
      using t eq False by (simp_all add: take_block_def Let_def)
    note s = shrink_ok [OF sp [unfolded k(1)] l [unfolded k(1)] nu(1) k(2) refl refl]
    have "heap_ok t (xs @ (p, k) # ys)" using s(3) spaced_remove [of _ "xs @ [(p, k)]"] s(2) pr b0 r(2) by (auto simp: heap_ok_def simp del: links.simps)
    moreover have "space (xs @ (p, k) # ys) \<union> span (?q, nu) = space ?fs" using s(1) k by (auto simp: span_def)
    moreover have "span (?q, nu) \<inter> space (xs @ (p, k) # ys) = {}" using spaced_disjoint [of _ "xs @ [(p, k)]" "(?q, nu)" ys] s(2) by simp
    moreover have "same_outside (space ?fs \<union> base_header s) ?m (umem t)" using s(5) r(2) k by (auto simp: same_outside_def)
    ultimately show ?thesis unfolding allocated_def using s(1,4) p nu r k by (intro exI [of _ ?q] exI [of _ "xs @ (p, k) # ys"]) (simp add: block_ok_def)
  qed
qed

text \<open>The search goes around the ring and takes the first block that is large enough, or asks for memory when it is back where it started.\<close>

definition malloc_grow :: "u32 \<Rightarrow> heapst \<Rightarrow> (u32 \<times> heapst) option" where
  "malloc_grow nunits s =
     Option.bind (morecore nunits s) (\<lambda>(p, s). if p = 0 then Some (0, s) else malloc_loop nunits p (hptr (umem s) p) s)"

lemma malloc_scan:
  assumes ring: "on_ring (umem s) as" and dist: "distinct as" and f: "f < length as" "freep s = as ! f"
    and "i < length as" and "d < length as" and "(Suc i + d) mod length as = f"
  shows "(\<exists>j<length as. nu \<le> hsize (umem s) (as ! (Suc j mod length as)) \<and>
      malloc_loop nu (as ! i) (as ! (Suc i mod length as)) s = Some (take_block nu (as ! j) (as ! (Suc j mod length as)) s)) \<or>
    (\<forall>e\<le>d. hsize (umem s) (as ! ((Suc i + e) mod length as)) < nu) \<and> malloc_loop nu (as ! i) (as ! (Suc i mod length as)) s = malloc_grow nu s"
  using assms(5-7)
proof (induction d arbitrary: i)
  case 0
  then show ?case using f by (subst (1 2) malloc_loop.simps) (auto simp: malloc_grow_def not_le)
next
  case (Suc d)
  let ?n = "length as" and ?i = "Suc i mod length as"
  have i: "?i < ?n" using Suc.prems(1) by (intro mod_less_divisor) linarith
  have shift: "(Suc ?i + e) mod ?n = (Suc i + Suc e) mod ?n" for e by (metis add_Suc add_Suc_right mod_add_left_eq mod_Suc_eq)
  show ?case
  proof (cases "nu \<le> hsize (umem s) (as ! ?i)")
    case True
    then show ?thesis using Suc.prems(1) by (subst malloc_loop.simps) auto
  next
    case False
    have "?i \<noteq> f"
    proof
      assume "?i = f"
      then have m: "(f + Suc d) mod ?n = f" using Suc.prems(3) by (metis mod_add_left_eq)
      show False
      proof (cases "f + Suc d < ?n")
        case True
        then show False using m by simp
      next
        case False
        then have "(f + Suc d) mod ?n = (f + Suc d - ?n) mod ?n" by (intro le_mod_geq) simp
        also have "\<dots> = f + Suc d - ?n" using f(1) Suc.prems(2) by (intro mod_less) linarith
        finally show False using m f(1) Suc.prems(2) False by linarith
      qed
    qed
    then have "as ! ?i \<noteq> freep s" using f dist i by (simp add: nth_eq_iff_index_eq)
    moreover have "hptr (umem s) (as ! ?i) = as ! (Suc ?i mod ?n)" using ring i by (simp add: on_ring_def)
    ultimately have step: "malloc_loop nu (as ! i) (as ! ?i) s = malloc_loop nu (as ! ?i) (as ! (Suc ?i mod ?n)) s"
      using False by (subst malloc_loop.simps) simp
    have "(Suc ?i + d) mod ?n = f" using Suc.prems(3) shift [of d] by simp
    from Suc.IH [OF i Suc_lessD [OF Suc.prems(2)] this] show ?thesis
    proof
      assume all: "(\<forall>e\<le>d. hsize (umem s) (as ! ((Suc ?i + e) mod ?n)) < nu) \<and> malloc_loop nu (as ! ?i) (as ! (Suc ?i mod ?n)) s = malloc_grow nu s"
      have "hsize (umem s) (as ! ((Suc i + e) mod ?n)) < nu" if "e \<le> Suc d" for e
        using that all shift False by (cases e) (auto simp: not_le)
      then show ?thesis using all step by simp
    qed (use step in auto)
  qed
qed

lemma ring_distinct: "spaced (unat base + 8) fs \<Longrightarrow> distinct (map fst ((base, 0) # fs))"
proof -
  have d: "spaced l bs \<Longrightarrow> distinct (map fst bs)" for l bs
  proof (induction bs arbitrary: l)
    case (Cons b bs)
    then show ?case using spaced_in [of "unat (fst b) + 8 * snd b" bs] by fastforce
  qed simp
  assume sp: "spaced (unat base + 8) fs"
  then show ?thesis using d [OF sp] spaced_in [OF sp] by fastforce
qed

text \<open>The search on a well-formed heap.\<close>

lemma malloc_search:
  assumes h: "heap_ok s fs" and nu: "1 \<le> nu" "nu < 4294967296"
  shows "(\<exists>r t. malloc_loop (of_nat nu) (freep s) (hptr (umem s) (freep s)) s = Some (r, t) \<and> allocated (space fs) nu s r t) \<or>
    (\<forall>b\<in>set fs. snd b < nu) \<and> malloc_loop (of_nat nu) (freep s) (hptr (umem s) (freep s)) s = malloc_grow (of_nat nu) s"
proof -
  let ?m = "umem s"
  define R where "R = (basep s, 0) # fs"
  define as where "as = map fst R"
  define n where "n = length as"
  have len: "length R = n" "length fs = n - 1" "0 < n" by (simp_all add: n_def as_def R_def)
  have sp: "spaced (unat (basep s) + 8) fs" and l: "links ?m R (basep s)" and fr: "freep s \<in> set as" using h by (simp_all only: heap_ok_def R_def as_def set_map)
  have ring: "on_ring ?m as" and dist: "distinct as"
    unfolding as_def R_def using l ring_distinct [OF sp] by (auto intro!: links_ring simp: R_def simp del: links.simps list.map)
  obtain f where f: "f < n" "freep s = as ! f" using fr by (metis in_set_conv_nth n_def)
  have sz: "unat (hsize ?m (as ! i)) = snd (R ! i)" if "i < n" for i
  proof -
    have "snd b < 4294967296" if "b \<in> set R" for b using that spaced_in [OF sp, of b] by (auto simp: R_def)
    then have "snd (R ! i) < 4294967296" using that len(1) by simp
    moreover have "hsize ?m (fst (R ! i)) = of_nat (snd (R ! i))" using links_nth [OF l, of i] that len(1) by simp
    ultimately show ?thesis using that len(1) unat_of_nat_u32 by (simp add: as_def)
  qed
  have word_le: "of_nat nu \<le> hsize ?m (as ! i) \<longleftrightarrow> nu \<le> snd (R ! i)" if "i < n" for i
    using sz [OF that] unat_of_nat_u32 [OF nu(2)] by (simp add: word_le_nat_alt)
  have start: "hptr ?m (freep s) = as ! (Suc f mod n)" using ring f by (simp add: on_ring_def n_def)
  have "(Suc f + (n - 1)) mod n = f" using f(1) by simp
  from malloc_scan [OF ring dist, of f f "n - 1" "of_nat nu"] f this len(3)
  consider j where "j < n" "of_nat nu \<le> hsize ?m (as ! (Suc j mod n))"
      "malloc_loop (of_nat nu) (as ! f) (as ! (Suc f mod n)) s = Some (take_block (of_nat nu) (as ! j) (as ! (Suc j mod n)) s)"
    | "\<forall>e\<le>n - 1. hsize ?m (as ! ((Suc f + e) mod n)) < of_nat nu" "malloc_loop (of_nat nu) (as ! f) (as ! (Suc f mod n)) s = malloc_grow (of_nat nu) s"
    unfolding n_def by auto
  then show ?thesis
  proof cases
    case 1
    have large: "nu \<le> snd (R ! (Suc j mod n))" using word_le [of "Suc j mod n"] 1(2) len(3) by simp
    moreover have "snd (R ! 0) = 0" by (simp add: R_def)
    ultimately have "Suc j mod n \<noteq> 0" using nu(1) by (metis le_zero_eq not_one_le_zero)
    then have j: "Suc j < n" using 1(1) by (metis Suc_lessI mod_self)
    then have R: "R ! Suc j = fs ! j" "nu \<le> snd (fs ! j)" using large by (simp_all add: R_def)
    have fs: "take j fs @ (fst (fs ! j), snd (fs ! j)) # drop (Suc j) fs = fs" using id_take_nth_drop [of j fs] j len(2) by simp
    then have h': "heap_ok s (take j fs @ (fst (fs ! j), snd (fs ! j)) # drop (Suc j) fs)" using h by simp
    have "R ! j = last ((basep s, 0) # take j fs)" using j len(2) by (cases j) (simp_all add: R_def take_Suc_conv_app_nth)
    then have prev: "as ! j = fst (last ((basep s, 0) # take j fs))" using 1(1) len(1) by (simp add: as_def)
    have nxt: "as ! (Suc j mod n) = fst (fs ! j)" using j R(1) len(1) by (simp add: as_def)
    obtain r t where t: "take_block (of_nat nu) (as ! j) (fst (fs ! j)) s = (r, t)" by fastforce
    have "allocated (space fs) nu s r t" using take_block_ok [OF h' nu(1) R(2) prev t] by (simp only: fs)
    then show ?thesis using 1(3) start f(2) nxt t by (intro disjI1) auto
  next
    case 2
    have "snd b < nu" if "b \<in> set fs" for b
    proof -
      have "b \<in> set R" using that by (simp add: R_def)
      then obtain i where i: "i < n" "R ! i = b" unfolding in_set_conv_nth len(1) by blast
      define e where "e = (if Suc f \<le> i then i - Suc f else i + n - Suc f)"
      have "e \<le> n - 1" "Suc f + e = i \<or> Suc f + e = i + n" using i(1) f(1) by (auto simp: e_def)
      then have "e \<le> n - 1 \<and> (Suc f + e) mod n = i" using i(1) mod_add_self2 [of i n] mod_less [of i n] by metis
      then have "hsize ?m (as ! i) < of_nat nu" using 2(1) by auto
      then show ?thesis using word_le [OF i(1)] i(2) by (simp add: not_le [symmetric])
    qed
    then show ?thesis using 2(2) start f(2) by simp
  qed
qed

text \<open>What \<^verbatim>\<open>sbrk\<close> promises for its next result: it fails, or the memory it gives lies above the base and is not in use as free memory.\<close>

definition core_size :: "nat \<Rightarrow> nat" where
  "core_size nu = max nu 4096"

definition core_ok :: "heapst \<Rightarrow> block list \<Rightarrow> nat \<Rightarrow> bool" where
  "core_ok s fs nu \<longleftrightarrow> cores s = [] \<or> hd (cores s) = - 1 \<or>
     unat (basep s) + 8 \<le> unat (hd (cores s)) \<and> unat (hd (cores s)) + 8 * core_size nu \<le> 2 ^ 31 \<and> span (hd (cores s), core_size nu) \<inter> space fs = {}"

lemma allocated_from:
  assumes "same_outside (A \<union> base_header s) (umem s) (umem u)" and "basep u = basep s" and "allocated A n u r t"
  shows "allocated A n s r t"
proof -
  have "base_header u = base_header s" using assms(2) by (simp add: base_header_def)
  moreover have "same_outside (A \<union> base_header s) (umem u) (umem t) \<Longrightarrow> same_outside (A \<union> base_header s) (umem s) (umem t)"
    using same_outside_trans [OF assms(1)] by blast
  ultimately show ?thesis using assms(3) unfolding allocated_def by auto
qed

lemma morecore_ok:
  assumes h: "heap_ok s fs" and nu: "1 \<le> nu" "nu < 2 ^ 29" and c: "core_ok s fs nu" "cores s \<noteq> []" "hd (cores s) \<noteq> - 1"
  shows "\<exists>t gs. morecore (of_nat nu) s = Some (freep t, t) \<and> heap_ok t gs \<and> basep t = basep s \<and> space gs = space fs \<union> span (hd (cores s), core_size nu) \<and>
    (\<exists>b\<in>set gs. nu \<le> snd b) \<and> same_outside (space gs \<union> base_header s) (umem s) (umem t)"
proof -
  let ?n = "core_size nu"
  obtain c cs where cs: "cores s = c # cs" using c(2) by (cases "cores s") auto
  have co: "unat (basep s) + 8 \<le> unat c" "unat c + 8 * ?n \<le> 2 ^ 31" "span (c, ?n) \<inter> space fs = {}" "1 \<le> ?n" "nu \<le> ?n"
    using c cs by (auto simp: core_ok_def core_size_def)
  define u where "u = s\<lparr>cores := cs, asked := asked s @ [of_nat ?n * 8], umem := set_hsize (umem s) c (of_nat ?n)\<rparr>"
  have sp: "spaced (unat (basep s) + 8) fs" and l: "links (umem s) ((basep s, 0) # fs) (basep s)" using h by (simp_all only: heap_ok_def)
  obtain xs ys where fs: "fs = xs @ ys" and sq: "spaced (unat (basep s) + 8) (xs @ (c, ?n) # ys)" using insert_place [OF sp co(1,4,2,3)] by blast
  have "apart8 c (fst b)" if "b \<in> set ((basep s, 0) # xs) \<union> set ys" for b
    using ring_apart [OF sq, of "(basep s, 0) # xs" "(c, ?n)" ys] that by simp
  then have "\<forall>b\<in>set ((basep s, 0) # fs). apart8 c (fst b)" unfolding fs by auto
  then have "links (umem u) ((basep s, 0) # fs) (basep s)" using l by (simp add: u_def links_frame del: links.simps)
  then have hu: "heap_ok u fs" using h by (simp add: heap_ok_def u_def del: links.simps)
  have bu: "block_ok u fs (c, ?n)" using co by (simp add: block_ok_def u_def)
  have nw: "(if (of_nat nu :: u32) < 4096 then 4096 else of_nat nu) = (of_nat ?n :: u32)"
    using nu unat_of_nat_u32 [of nu] by (auto simp: core_size_def word_less_nat_alt max_def)
  obtain t gs where t: "free (c + 8) u = Some t" "heap_ok t gs" "basep t = basep u" "space gs = space fs \<union> span (c, ?n)" "\<exists>b\<in>set gs. ?n \<le> snd b"
    "same_outside (space fs \<union> span (c, ?n) \<union> base_header u) (umem u) (umem t)" using free_ok [OF hu bu] by blast
  have "morecore (of_nat nu) s = Some (freep t, t)" using nw cs c(3) t(1) by (simp add: morecore_def sbrk_def Let_def u_def)
  moreover have "same_outside (span (c, ?n)) (umem s) (umem u)"
    using co by (auto simp: same_outside_def u_def span_def intro!: set_header_other(2))
  then have "same_outside (space gs \<union> base_header s) (umem s) (umem t)"
    using t(6) by (rule same_outside_trans) (auto simp: t(4) base_header_def u_def)
  moreover have "\<exists>b\<in>set gs. nu \<le> snd b" using t(5) co(5) le_trans by blast
  ultimately show ?thesis using t cs by (intro exI [of _ t] exI [of _ gs]) (simp add: u_def)
qed

text \<open>A heap, before the first allocation or after it.\<close>

definition heap :: "heapst \<Rightarrow> block list \<Rightarrow> bool" where
  "heap s fs \<longleftrightarrow> heap_ok s fs \<or> freep s = 0 \<and> fs = [] \<and> 0 < unat (basep s) \<and> unat (basep s) + 8 \<le> 2 ^ 31"

definition units_of :: "nat \<Rightarrow> nat" where
  "units_of k = (k + 7) div 8 + 1"

lemma heap_free:
  assumes "heap_ok s fs"
  shows "freep s \<noteq> 0"
proof -
  have sp: "spaced (unat (basep s) + 8) fs" and b: "0 < unat (basep s)" and f: "freep s \<in> fst ` set ((basep s, 0) # fs)"
    using assms by (simp_all only: heap_ok_def)
  have "0 < unat (fst c)" if "c \<in> set ((basep s, 0) # fs)" for c using that b spaced_in [OF sp, of c] by auto
  then have "0 < unat (freep s)" using f by (metis imageE)
  then show ?thesis by auto
qed

lemma heap_start_ok:
  assumes "heap s fs"
  shows "heap_ok (heap_start s) fs" and "basep (heap_start s) = basep s" and "cores (heap_start s) = cores s"
    and "same_outside (base_header s) (umem s) (umem (heap_start s))"
proof -
  have "heap_ok (heap_start s) fs \<and> same_outside (base_header s) (umem s) (umem (heap_start s))"
  proof (cases "freep s = 0")
    case True
    then have z: "fs = []" "0 < unat (basep s)" "unat (basep s) + 8 \<le> 2 ^ 31" using assms heap_free by (auto simp: heap_def)
    have "same_outside (base_header s) (umem s) (set_hsize (set_hptr (umem s) (basep s) (basep s)) (basep s) 0)"
      using z by (auto simp: same_outside_def base_header_def set_header_other)
    then show ?thesis using True z by (simp add: heap_start_def heap_ok_def)
  next
    case False
    then show ?thesis using assms by (auto simp: heap_def heap_start_def same_outside_def)
  qed
  then show "heap_ok (heap_start s) fs" and "same_outside (base_header s) (umem s) (umem (heap_start s))" by simp_all
qed (simp_all add: heap_start_def)

lemma units_eq: "unat nbytes < 2 ^ 31 \<Longrightarrow> units nbytes = of_nat (units_of (unat nbytes))"
proof -
  assume n: "unat nbytes < 2 ^ 31"
  have "unat (nbytes + 7) = unat nbytes + 7" using n by (simp add: unat_add_small)
  then have "unat ((nbytes + 7) div 8) = (unat nbytes + 7) div 8" by (simp add: unat_div)
  then have "(nbytes + 7) div 8 = of_nat ((unat nbytes + 7) div 8)" by (rule u32_of_unat)
  then show ?thesis by (simp add: units_def units_of_def add.commute)
qed

lemma malloc_grow_ok:
  assumes h: "heap_ok s fs" and nu: "1 \<le> nu" "nu < 2 ^ 29" and c: "core_ok s fs nu" "cores s \<noteq> []" "hd (cores s) \<noteq> - 1"
  shows "\<exists>r t. malloc_grow (of_nat nu) s = Some (r, t) \<and> allocated (space fs \<union> span (hd (cores s), core_size nu)) nu s r t"
proof -
  obtain u gs where u: "morecore (of_nat nu) s = Some (freep u, u)" "heap_ok u gs" "basep u = basep s"
    "space gs = space fs \<union> span (hd (cores s), core_size nu)" "\<exists>b\<in>set gs. nu \<le> snd b" "same_outside (space gs \<union> base_header s) (umem s) (umem u)"
    using morecore_ok [OF assms] by blast
  have g: "malloc_grow (of_nat nu) s = malloc_loop (of_nat nu) (freep u) (hptr (umem u) (freep u)) u"
    using u(1) heap_free [OF u(2)] by (simp add: malloc_grow_def)
  obtain r t where "malloc_loop (of_nat nu) (freep u) (hptr (umem u) (freep u)) u = Some (r, t)" "allocated (space gs) nu u r t"
    using malloc_search [OF u(2) nu(1)] nu(2) u(5) by (auto simp: not_le [symmetric])
  then show ?thesis using g allocated_from [OF u(6,3)] u(4) by auto
qed

section \<open>Properties\<close>


definition heap_demo :: heapst where
  "heap_demo = \<lparr>umem = (\<lambda>_. 0), basep = 0x1000, freep = 0, cores = [0x3000], asked = []\<rparr>"


text \<open>
  (C33) \<^verbatim>\<open>free\<close> ends and gives a block back: the free memory grows by exactly the block, merged with its neighbours or
  not, the free list is well formed again, and no byte changes outside of the free memory, the block itself and the header of the list.
\<close>

theorem free_gives_back:
  assumes "heap_ok s fs" and "block_ok s fs (bp, n)"
  shows "\<exists>t gs. free (bp + 8) s = Some t \<and> heap_ok t gs \<and> space gs = space fs \<union> span (bp, n) \<and>
    same_outside (space fs \<union> span (bp, n) \<union> base_header s) (umem s) (umem t)"
  using free_ok [OF assms] by blast

definition free_demo :: heapst where
  "free_demo = \<lparr>umem = set_hsize (set_hsize (set_hptr (\<lambda>_. 0) 0x1000 0x1000) 0x1000 0) 0x3000 3, basep = 0x1000, freep = 0x1000, cores = [], asked = []\<rparr>"

theorem free_gives_back_witness:
  "\<exists>t gs. free (0x3000 + 8) free_demo = Some t \<and> heap_ok t gs \<and> space gs = {0x3000..<0x3018}"
proof -
  have ap: "apart8 0x3000 0x1000" by (simp add: apart8_def)
  have "heap_ok free_demo []" using ap by (simp add: free_demo_def heap_ok_def)
  moreover have "block_ok free_demo [] (0x3000, 3)" by (simp add: free_demo_def block_ok_def)
  ultimately show ?thesis using free_gives_back [of free_demo "[]" "0x3000" 3] by (auto simp: span_def)
qed

text \<open>The computation of the size wraps for the largest requests, which then get a block of one unit, the header alone.\<close>

lemma units_wrap: "2 ^ 32 - 7 \<le> unat nbytes \<Longrightarrow> units nbytes = 1"
proof -
  assume n: "2 ^ 32 - 7 \<le> unat nbytes"
  have "unat (nbytes + 7) = unat nbytes + 7 - 2 ^ 32" using n unat_u32_less [of nbytes] by (simp add: unat_word_ariths mod_if)
  then have "unat (nbytes + 7) < 8" using unat_u32_less [of nbytes] by simp
  then have "unat ((nbytes + 7) div 8) = 0" by (simp add: unat_div)
  then have "(nbytes + 7) div 8 = 0" by (simp only: unat_eq_zero)
  then show ?thesis by (simp add: units_def add.commute)
qed

end
