(* ===== verification/Spec2Isabelle.thy ===== *)
theory Spec2Isabelle
  imports Spinlock Protect Sched Pipes Terminal Traps Log_Trans Kbd Grep Programs Sh_Parse Ide Umalloc_Heap
begin

text \<open>
  A verification of an xv6 fork for x86 (sources under \<^verbatim>\<open>src/xv6-public\<close>): a small Unix kernel, to
  which the fork adds a scheduler with two priorities (\<^verbatim>\<open>settickets\<close>, \<^verbatim>\<open>getpinfo\<close>), page protection
  (\<^verbatim>\<open>mprotect\<close>, \<^verbatim>\<open>munprotect\<close>) and an unmapped page 0, and the user programs that come with it.

  \<^bold>\<open>How the code is modelled.\<close> A C function is a HOL function of the same name. It takes the state of the
  kernel, a record of its global variables, and returns an \<open>outcome\<close> (\<open>Prelude\<close>): it returns, panics, faults at
  an address the MMU does not map, leaves the processor in the middle of its work, or loops longer than a bound.
  \<open>bind\<close> is the semicolon. The record grows along the components, each extending the record of those it calls: locks
  (\<open>kbase\<close>), pages, virtual memory, processes, console, block cache, log, file system, open files, and the rest of the
  kernel (\<open>kernst\<close>). Words are \<open>32 word\<close> and wrap; memory is a function from addresses to bytes, and page tables, the
  free list, trap frames and kernel stacks lie in it. A structure of a fixed array is named by its index. A
  disk block is a list of bytes, from which the structures of the file system are read at their offsets.

  \<^bold>\<open>Theories and sources.\<close>
  \<^item> \<open>Prelude\<close>, \<open>Locks\<close>: outcomes, words, and the spin locks as their users see them. \<open>Spinlock\<close> is \<^verbatim>\<open>spinlock.c\<close> on
    several CPUs; the contract \<open>spin_contract\<close> holds for both.
  \<^item> \<open>CMem\<close>, \<open>Bytes\<close>: \<^verbatim>\<open>string.c\<close> on memory and on arrays inside structures. \<open>Mmu\<close>, \<open>Segments\<close>: \<^verbatim>\<open>mmu.h\<close>,
    \<^verbatim>\<open>memlayout.h\<close>. \<open>Kalloc\<close>: \<^verbatim>\<open>kalloc.c\<close> (contract \<open>page_allocator\<close>). \<open>Vm\<close>: \<^verbatim>\<open>vm.c\<close>; \<open>Vm_Tables\<close> and
    \<open>Protect\<close> are about it.
  \<^item> \<open>Proc\<close>, \<open>Process\<close>: \<^verbatim>\<open>proc.c\<close> without and with the file system; \<open>Sched\<close> is about the scheduler and the process table.
  \<^item> \<open>Console\<close>, \<open>Kbd\<close>: \<^verbatim>\<open>console.c\<close>, \<^verbatim>\<open>kbd.c\<close>, parts of \<^verbatim>\<open>uart.c\<close>; \<open>Terminal\<close> is about them. \<open>Ring\<close> is
    about ring buffers, for the console's input and the pipes, with the contract \<open>byte_queue\<close> of the latter.
  \<^item> \<open>Bio\<close>: \<^verbatim>\<open>bio.c\<close>, \<^verbatim>\<open>sleeplock.c\<close>, and the disk of \<^verbatim>\<open>memide.c\<close>; \<open>Cache\<close> is its contract
    (\<open>block_store\<close>). \<open>Ide\<close>: the other disk driver, \<^verbatim>\<open>ide.c\<close>.
  \<^item> \<open>Log\<close>: \<^verbatim>\<open>log.c\<close>; \<open>Log_Crash\<close> and \<open>Log_Trans\<close> are about commit and recovery and about transactions.
  \<^item> \<open>Fs\<close>, \<open>File\<close>: \<^verbatim>\<open>fs.c\<close>, \<^verbatim>\<open>file.c\<close>, \<^verbatim>\<open>pipe.c\<close>; \<open>Pipes\<close> is about pipes.
  \<^item> \<open>Exec\<close>, \<open>Sysfile\<close>, \<open>Sysproc\<close>, \<open>Trap\<close>: \<^verbatim>\<open>exec.c\<close>, \<^verbatim>\<open>syscall.c\<close>, \<^verbatim>\<open>sysfile.c\<close>, \<^verbatim>\<open>sysproc.c\<close>,
    \<^verbatim>\<open>trap.c\<close>; \<open>Access\<close>, \<open>Args\<close> and \<open>Traps\<close> are about the arguments of system calls and about traps. \<open>Machine\<close> is the
    concrete machine of the witnesses.
  \<^item> \<open>User\<close>: \<^verbatim>\<open>ulib.c\<close>, \<^verbatim>\<open>printf.c\<close>, and how user programs call the kernel: the results of the calls are a
    script, and what the program does is the list of calls it makes. \<open>Umalloc\<close>: \<^verbatim>\<open>umalloc.c\<close>; \<open>Umalloc_Heap\<close> is about it. \<open>Grep\<close>, \<open>Sh\<close>, \<open>Programs\<close>: \<^verbatim>\<open>grep.c\<close>, \<^verbatim>\<open>sh.c\<close>,
    and \<^verbatim>\<open>cat echo init kill ln ls mkdir rm wc zombie\<close>; \<open>Sh_Parse\<close> is about the shell's parser.

  \<^bold>\<open>What is shown.\<close>
  \<^item> Crash safety: after a crash at any disk write of \<^verbatim>\<open>commit\<close>, recovery leaves all of a transaction or
    nothing of it; a recovery that is interrupted can be started again; \<^verbatim>\<open>commit\<close> returns with the transaction on disk; what is in the log is pinned in the cache. Below
    them, the block cache shows one contents for each block, whichever buffers it recycles.
  \<^item> The disk driver issues every request once and in order.
  \<^item> Memory: the page allocator gives each page once; \<^verbatim>\<open>mprotect\<close> and \<^verbatim>\<open>munprotect\<close> change exactly the write bits of
    their range, while the rest of the page table and the free list are kept.
  \<^item> Locks: mutual exclusion, an invariant over all interleavings of the CPUs, and that \<^verbatim>\<open>acquire\<close> and \<^verbatim>\<open>release\<close>
    refine the locks the rest of the kernel uses.
  \<^item> Scheduling: high priority first, round robin among it, no lost wakeup, fresh process ids; and that a process of low
    priority can starve.
  \<^item> Pipes and console: the bytes of a pipe come out in order, and none is lost; the console implements line editing, prints numbers that
    read back, and stays on its screen; the keyboard's letters.
  \<^item> Arguments and traps: what \<^verbatim>\<open>argptr\<close> accepts lies in the process, what a bad trap or system call number does, the
    interrupt table; and that a null path crashes the kernel.
  \<^item> User programs: \<^verbatim>\<open>grep\<close>'s matcher decides the language of its pattern, \<^verbatim>\<open>wc\<close> counts right, the shell's
    parser ends on every line and its words are the words typed; \<^verbatim>\<open>malloc\<close> and \<^verbatim>\<open>free\<close> end, keep the
    free list well formed, and give out and take back exactly the block.

  \<^bold>\<open>Bounds.\<close> A loop of the C code that is bounded by data is a structural recursion or has a measure. Loops
  over pages get as many steps as the address space has pages, \<open>NPAGES\<close>, so they never run out. The scheduler's loop over
  high priority processes has a bound as an argument and its theorems hold for every bound. The shell's parser gets four steps for each byte
  of the line and four, which \<open>Sh_Parse\<close> shows to be enough. The loops of \<^verbatim>\<open>malloc\<close> and \<^verbatim>\<open>free\<close> have no
  bound, and \<open>Umalloc_Heap\<close> shows that they end. Waiting for a lock, a device or another process is the outcome \<open>Diverge\<close> or
  \<open>Swtch\<close>, and what a process does when it runs again is a definition of its own.

  \<^bold>\<open>Not modelled.\<close> Assembly code and the boot sequence (\<^verbatim>\<open>bootasm.S\<close>, \<^verbatim>\<open>entry.S\<close>, \<^verbatim>\<open>swtch.S\<close>,
  \<^verbatim>\<open>main.c\<close> and others), which the C semantics used here does not reach; the drivers of the interrupt controllers, the timer and the
  multiprocessor tables (\<^verbatim>\<open>lapic.c\<close>, \<^verbatim>\<open>ioapic.c\<close>, \<^verbatim>\<open>picirq.c\<close>, \<^verbatim>\<open>mp.c\<close>), the programming of the serial chip and
  the call stack that \<^verbatim>\<open>panic\<close> prints, which are device registers and hardware state only; \<^verbatim>\<open>mkfs.c\<close>, which runs on the
  build host; and the test programs. The kernel of the model runs one call of one CPU at a time between points where it gives up the
  processor; interleavings of CPUs are modelled for the spin locks, and of processes and interrupts for the scheduler and the disk driver.
\<close>

end
